(* ===== verification/Prelude.thy ===== *)
theory Prelude
  imports Main "HOL-Library.Word"
begin

text \<open>
  Shared vocabulary of the development: machine integers, the outcomes a C function can have,
  raw memory blocks, the heap allocator, byte order, and the generic list lemmas the component
  theories rest on.

  A C function is modelled by a HOL function into \<open>'a c_result\<close>. \<open>Inl e\<close> says the run leaves the
  semantics of C or aborts (an access outside its object, a NULL or freed pointer, a failed
  \<open>assert\<close>, a call of \<open>exit\<close>), or reads a union through another member than the one that was stored,
  where the model does not follow it further; \<open>Inr x\<close> is an ordinary return, error return codes such as \<open>-1\<close> included. Addresses
  inside one object are offsets from its start, so that the bounds of every access are visible.
\<close>

unbundle bit_operations_syntax

named_theorems c_defs \<open>definitions of the C primitives (memory, heap, byte order)\<close>
named_theorems span_simps \<open>facts on lists of consecutive positions\<close>

type_synonym byte = "8 word"
type_synonym u16 = "16 word"
type_synonym u32 = "32 word"
type_synonym u64 = "64 word"

section \<open>Outcomes of a C function\<close>

datatype c_error =
    Out_Of_Bounds
  | Null_Deref
  | Use_After_Free
  | Assert_Failed
  | Exited
  | Wrong_Member
  | No_Fuel

type_synonym 'a c_result = "c_error + 'a"

definition c_bind :: "'a c_result \<Rightarrow> ('a \<Rightarrow> 'b c_result) \<Rightarrow> 'b c_result" where
  "c_bind m f = (case m of Inl e \<Rightarrow> Inl e | Inr x \<Rightarrow> f x)"

lemma c_bind_simps [simp]:
  "c_bind (Inl e) f = Inl e"
  "c_bind (Inr x) f = f x"
  by (simp_all add: c_bind_def)

lemma c_bind_cong [fundef_cong]:
  "m = m' \<Longrightarrow> (\<And>x. m' = Inr x \<Longrightarrow> f x = f' x) \<Longrightarrow> c_bind m f = c_bind m' f'"
  by (auto simp: c_bind_def split: sum.splits)

lemma c_bind_eq_Inr:
  "c_bind m f = Inr y \<longleftrightarrow> (\<exists>x. m = Inr x \<and> f x = Inr y)"
  by (auto simp: c_bind_def split: sum.splits)

lemma c_bind_eq_InrE:
  assumes "c_bind m f = Inr y"
  obtains x where "m = Inr x" and "f x = Inr y"
  using assms by (auto simp: c_bind_eq_Inr)

definition c_assert :: "bool \<Rightarrow> unit c_result" where
  "c_assert b = (if b then Inr () else Inl Assert_Failed)"

lemma c_assert_simps [simp]:
  "c_assert True = Inr ()"
  "c_assert False = Inl Assert_Failed"
  by (simp_all add: c_assert_def)

section \<open>Sizes\<close>

text \<open>
  \<open>size_t\<close> is 64 bits wide. A quantity that measures an object in memory is a \<open>nat\<close>; where the code
  adds, subtracts or multiplies such quantities and the result may leave the range, the wrap-around
  is written out with the operations below.
\<close>

definition size_mul :: "nat \<Rightarrow> nat \<Rightarrow> nat" where
  "size_mul a b = (a * b) mod 2 ^ 64"

definition size_sub :: "nat \<Rightarrow> nat \<Rightarrow> nat" where
  "size_sub a b = nat ((int a - int b) mod 2 ^ 64)"

lemma size_mul_exact: "a * b < 2 ^ 64 \<Longrightarrow> size_mul a b = a * b"
  by (simp add: size_mul_def)

lemma size_sub_exact:
  assumes "b \<le> a" and "a < 2 ^ 64"
  shows "size_sub a b = a - b"
proof -
  have "(int a - int b) mod 2 ^ 64 = int (a - b)"
    using assms by (simp add: of_nat_diff)
  then show ?thesis by (simp add: size_sub_def)
qed

lemma size_sub_less: "size_sub a b < 2 ^ 64"
proof -
  have "(int a - int b) mod 2 ^ 64 < 2 ^ 64" by simp
  then show ?thesis unfolding size_sub_def by (simp add: nat_less_iff)
qed

lemma size_sub_0 [simp]: "a < 2 ^ 64 \<Longrightarrow> size_sub a 0 = a"
  by (simp add: size_sub_exact)

lemma size_sub_size_sub: "size_sub (size_sub a b) c = size_sub a (b + c)"
proof -
  have "int (size_sub a b) = (int a - int b) mod 2 ^ 64" by (simp add: size_sub_def)
  then have "(int (size_sub a b) - int c) mod 2 ^ 64 = (int a - int (b + c)) mod 2 ^ 64"
    by (simp add: mod_diff_left_eq algebra_simps)
  then show ?thesis by (simp add: size_sub_def)
qed

lemma size_sub_eq_0:
  assumes "a < 2 ^ 64" and "b < 2 ^ 64"
  shows "size_sub a b = 0 \<longleftrightarrow> a = b"
proof
  assume "size_sub a b = 0"
  then have "(int a - int b) mod 2 ^ 64 \<le> 0" by (simp add: size_sub_def)
  moreover have "0 \<le> (int a - int b) mod 2 ^ 64" by (rule pos_mod_sign) simp
  ultimately have "(2 :: int) ^ 64 dvd int a - int b" by (simp add: dvd_eq_mod_eq_0)
  moreover have "\<bar>int a - int b\<bar> < 2 ^ 64" using assms by (auto simp: abs_less_iff)
  ultimately have "int a - int b = 0" using dvd_imp_le_int [of "int a - int b" "2 ^ 64"] by fastforce
  then show "a = b" by simp
qed (simp add: size_sub_def)

lemma size_sub_back:
  assumes "b < 2 ^ 64"
  shows "size_sub a (size_sub a b) = b"
proof -
  have "int (size_sub a b) = (int a - int b) mod 2 ^ 64" by (simp add: size_sub_def)
  then have "(int a - int (size_sub a b)) mod 2 ^ 64 = int b mod 2 ^ 64"
    by (simp add: mod_diff_right_eq)
  then show ?thesis using assms by (simp add: size_sub_def)
qed

lemma sint_of_nat_small: "k < 2 ^ 63 \<Longrightarrow> sint (of_nat k :: u64) = int k"
  using int_word_sint [of "int k", where 'a = 64] by simp

section \<open>Memory blocks\<close>

text \<open>
  A block is the list of its bytes. \<open>mem_read m off n\<close> is what \<open>memcpy\<close> reads from \<open>m + off\<close>,
  \<open>mem_write\<close> what it stores there; both fail when a byte lies outside the block.
\<close>

definition mem_read :: "'a list \<Rightarrow> int \<Rightarrow> nat \<Rightarrow> 'a list c_result" where
  "mem_read m off n =
     (if 0 \<le> off \<and> nat off + n \<le> length m then Inr (take n (drop (nat off) m))
      else Inl Out_Of_Bounds)"

definition mem_write :: "'a list \<Rightarrow> int \<Rightarrow> 'a list \<Rightarrow> 'a list c_result" where
  "mem_write m off bs =
     (if 0 \<le> off \<and> nat off + length bs \<le> length m
      then Inr (take (nat off) m @ bs @ drop (nat off + length bs) m)
      else Inl Out_Of_Bounds)"

declare mem_read_def [c_defs] mem_write_def [c_defs]

lemma mem_read_ok:
  "off + n \<le> length m \<Longrightarrow> mem_read m (int off) n = Inr (take n (drop off m))"
  by (simp add: mem_read_def)

lemma mem_read_0_all [simp]: "mem_read m 0 (length m) = Inr m"
  by (simp add: mem_read_def)

lemma mem_write_ok:
  "off + length bs \<le> length m \<Longrightarrow>
   mem_write m (int off) bs = Inr (take off m @ bs @ drop (off + length bs) m)"
  by (simp add: mem_write_def)

lemma mem_write_length: "mem_write m off bs = Inr m' \<Longrightarrow> length m' = length m"
  by (auto simp: mem_write_def split: if_splits)

lemma mem_read_write_same:
  "off + length bs \<le> length m \<Longrightarrow>
   take (length bs) (drop off (take off m @ bs @ drop (off + length bs) m)) = bs"
  by simp

lemma nth_splice:
  assumes "off + length bs \<le> length m" and "i < length m"
  shows "(take off m @ bs @ drop (off + length bs) m) ! i =
         (if off \<le> i \<and> i < off + length bs then bs ! (i - off) else m ! i)"
  using assms by (auto simp: nth_append min_def)

text \<open>An array access \<open>a[i]\<close> with its bounds check.\<close>

definition arr_get :: "'a list \<Rightarrow> nat \<Rightarrow> 'a c_result" where
  "arr_get xs i = (if i < length xs then Inr (xs ! i) else Inl Out_Of_Bounds)"

definition arr_set :: "'a list \<Rightarrow> nat \<Rightarrow> 'a \<Rightarrow> 'a list c_result" where
  "arr_set xs i x = (if i < length xs then Inr (xs[i := x]) else Inl Out_Of_Bounds)"

lemma arr_get_in [simp]: "i < length xs \<Longrightarrow> arr_get xs i = Inr (xs ! i)"
  by (simp add: arr_get_def)

lemma arr_get_out [simp]: "length xs \<le> i \<Longrightarrow> arr_get xs i = Inl Out_Of_Bounds"
  by (simp add: arr_get_def)

lemma arr_set_in [simp]: "i < length xs \<Longrightarrow> arr_set xs i x = Inr (xs[i := x])"
  by (simp add: arr_set_def)

lemma arr_set_out [simp]: "length xs \<le> i \<Longrightarrow> arr_set xs i x = Inl Out_Of_Bounds"
  by (simp add: arr_set_def)

section \<open>The heap allocator\<close>

text \<open>
  \<open>heap_script\<close> lists the outcomes of the coming allocations (\<open>False\<close>: the allocator returns NULL);
  once it is used up every allocation succeeds. \<open>heap_junk\<close> are the bytes of fresh memory that
  \<open>malloc\<close> and \<open>realloc\<close> leave indeterminate.
\<close>

record c_heap =
  heap_script :: "bool list"
  heap_junk :: "nat \<Rightarrow> byte"

definition heap_ok :: "c_heap \<Rightarrow> bool" where
  "heap_ok h \<longleftrightarrow> heap_script h = []"

definition alloc :: "c_heap \<Rightarrow> bool \<times> c_heap" where
  "alloc h = (case heap_script h of [] \<Rightarrow> (True, h) | b # bs \<Rightarrow> (b, h\<lparr>heap_script := bs\<rparr>))"

definition malloc :: "c_heap \<Rightarrow> nat \<Rightarrow> byte list option \<times> c_heap" where
  "malloc h n = (case alloc h of (ok, h') \<Rightarrow>
     (if ok then Some (map (heap_junk h) [0..<n]) else None, h'))"

definition calloc :: "c_heap \<Rightarrow> nat \<Rightarrow> nat \<Rightarrow> byte list option \<times> c_heap" where
  "calloc h n sz = (case alloc h of (ok, h') \<Rightarrow>
     (if ok \<and> n * sz < 2 ^ 64 then Some (replicate (n * sz) 0) else None, h'))"

definition realloc :: "c_heap \<Rightarrow> byte list \<Rightarrow> nat \<Rightarrow> byte list option \<times> c_heap" where
  "realloc h m n = (case alloc h of (ok, h') \<Rightarrow>
     (if ok then Some (take n m @ map (heap_junk h) [length m..<n]) else None, h'))"

declare malloc_def [c_defs] calloc_def [c_defs] realloc_def [c_defs]

lemma alloc_heap_ok [simp]: "heap_ok h \<Longrightarrow> alloc h = (True, h)"
  by (simp add: alloc_def heap_ok_def)

text \<open>An allocator that never fails; the concrete examples run on it.\<close>

definition calm_heap :: c_heap where
  "calm_heap = \<lparr>heap_script = [], heap_junk = \<lambda>_. 0\<rparr>"

lemma heap_ok_calm_heap [simp]: "heap_ok calm_heap"
  by (simp add: calm_heap_def heap_ok_def)

lemma alloc_fails: "heap_script h = False # bs \<Longrightarrow> alloc h = (False, h\<lparr>heap_script := bs\<rparr>)"
  by (simp add: alloc_def)

section \<open>Byte order\<close>

text \<open>
  The target is little endian: a \<open>uint32_t\<close> lies in memory with its least significant byte first.
  \<open>htonl\<close> and \<open>ntohl\<close> swap the bytes of the value, so that the memory image of \<open>htonl x\<close> is \<open>x\<close> in
  network order.
\<close>

definition u32_mem :: "u32 \<Rightarrow> byte list" where
  "u32_mem x = [ucast x, ucast (drop_bit 8 x), ucast (drop_bit 16 x), ucast (drop_bit 24 x)]"

definition mem_u32 :: "byte list \<Rightarrow> u32" where
  "mem_u32 bs =
     (ucast (bs ! 0) OR push_bit 8 (ucast (bs ! 1)) OR push_bit 16 (ucast (bs ! 2))
      OR push_bit 24 (ucast (bs ! 3)))"

definition htonl :: "u32 \<Rightarrow> u32" where
  "htonl x = mem_u32 (rev (u32_mem x))"

definition ntohl :: "u32 \<Rightarrow> u32" where
  "ntohl x = mem_u32 (rev (u32_mem x))"

lemma u32_mem_length [simp]: "length (u32_mem x) = 4"
  by (simp add: u32_mem_def)

lemma mem_u32_of_u32_mem [simp]: "mem_u32 (u32_mem x) = x"
proof (rule bit_word_eqI)
  fix n assume n: "n < LENGTH(32)"
  consider "n < 8" | "8 \<le> n" "n < 16" | "16 \<le> n" "n < 24" | "24 \<le> n" using n by linarith
  then show "bit (mem_u32 (u32_mem x)) n = bit x n"
    by cases (use n in \<open>auto simp: mem_u32_def u32_mem_def bit_simps\<close>)
qed

lemma u32_mem_of_mem_u32:
  assumes "length bs = 4"
  shows "u32_mem (mem_u32 bs) = bs"
proof -
  obtain a b c d where bs: "bs = [a, b, c, d]"
    using assms by (auto simp: numeral_eq_Suc length_Suc_conv)
  have "ucast (mem_u32 bs) = a" "ucast (drop_bit 8 (mem_u32 bs)) = b"
       "ucast (drop_bit 16 (mem_u32 bs)) = c" "ucast (drop_bit 24 (mem_u32 bs)) = d"
    by (rule bit_word_eqI; auto simp: bs mem_u32_def bit_simps dest: bit_imp_le_length)+
  then show ?thesis by (simp add: u32_mem_def bs)
qed

lemma u32_mem_htonl: "u32_mem (htonl x) = rev (u32_mem x)"
  by (simp add: htonl_def u32_mem_of_mem_u32)

lemma ntohl_htonl [simp]: "ntohl (htonl x) = x"
  by (simp add: ntohl_def u32_mem_htonl)

text \<open>The bytes \<open>send\<close> puts on the wire for \<open>htonl x\<close>, and what \<open>ntohl\<close> reads back from them.\<close>

definition be32 :: "u32 \<Rightarrow> byte list" where
  "be32 x = u32_mem (htonl x)"

lemma be32_length [simp]: "length (be32 x) = 4"
  by (simp add: be32_def)

lemma ntohl_mem_u32_be32 [simp]: "ntohl (mem_u32 (be32 x)) = x"
  by (simp add: be32_def)

lemma ntohl_inject: "ntohl x = ntohl y \<longleftrightarrow> x = y"
proof
  assume "ntohl x = ntohl y"
  then have "u32_mem (mem_u32 (rev (u32_mem x))) = u32_mem (mem_u32 (rev (u32_mem y)))"
    by (simp add: ntohl_def)
  then have "u32_mem x = u32_mem y" by (simp add: u32_mem_of_mem_u32)
  then show "x = y" by (metis mem_u32_of_u32_mem)
qed simp

text \<open>The memory images of the other widths; \<open>be64\<close> is the image of \<open>htobe64 x\<close>.\<close>

definition u64_mem :: "u64 \<Rightarrow> byte list" where
  "u64_mem x = u32_mem (ucast x) @ u32_mem (ucast (drop_bit 32 x))"

definition mem_u64 :: "byte list \<Rightarrow> u64" where
  "mem_u64 bs = ucast (mem_u32 (take 4 bs)) OR push_bit 32 (ucast (mem_u32 (drop 4 bs)))"

definition be64 :: "u64 \<Rightarrow> byte list" where
  "be64 x = rev (u64_mem x)"

definition u16_mem :: "u16 \<Rightarrow> byte list" where
  "u16_mem x = [ucast x, ucast (drop_bit 8 x)]"

definition mem_u16 :: "byte list \<Rightarrow> u16" where
  "mem_u16 bs = ucast (bs ! 0) OR push_bit 8 (ucast (bs ! 1))"

lemma mem_image_length [simp]: "length (u64_mem x) = 8" "length (be64 x) = 8" "length (u16_mem y) = 2"
  by (simp_all add: u64_mem_def be64_def u16_mem_def)

lemma mem_u16_of_u16_mem [simp]: "mem_u16 (u16_mem x) = x"
proof (rule bit_word_eqI)
  fix n assume n: "n < LENGTH(16)"
  show "bit (mem_u16 (u16_mem x)) n = bit x n"
    by (cases "n < 8") (use n in \<open>auto simp: mem_u16_def u16_mem_def bit_simps\<close>)
qed

lemma mem_u64_of_u64_mem [simp]: "mem_u64 (u64_mem x) = x"
proof (rule bit_word_eqI)
  fix n assume n: "n < LENGTH(64)"
  have parts: "mem_u32 (take 4 (u64_mem x)) = ucast x" "mem_u32 (drop 4 (u64_mem x)) = ucast (drop_bit 32 x)"
    by (simp_all add: u64_mem_def)
  show "bit (mem_u64 (u64_mem x)) n = bit x n"
    by (cases "n < 32") (use n in \<open>auto simp: mem_u64_def parts bit_simps\<close>)
qed

section \<open>Lists\<close>

lemma upt_split: "a \<le> b \<Longrightarrow> b \<le> c \<Longrightarrow> [a..<b] @ [b..<c] = [a..<c]"
  by (metis le_Suc_ex upt_add_eq_append)

lemma take_drop_eq_map_nth:
  "off + n \<le> length xs \<Longrightarrow> take n (drop off xs) = map ((!) xs) [off..<off + n]"
  by (rule nth_equalityI) auto

lemma take_drop_eq_map_min:
  "off \<le> length xs \<Longrightarrow> take n (drop off xs) = map ((!) xs) [off..<off + min n (length xs - off)]"
  by (rule nth_equalityI) auto

lemma concat_map_upt_chunks [span_simps]:
  "concat (map (\<lambda>i. [a + c * i..<a + c * Suc i]) [0..<n]) = [a..<a + c * n]"
  by (induction n) (auto simp: upt_split)

section \<open>Systems of steps\<close>

text \<open>
  The contract that the systems of threads share: every step keeps the invariant; then every run does.
\<close>

locale step_system =
  fixes step :: "'s \<Rightarrow> 's \<Rightarrow> bool"
    and inv :: "'s \<Rightarrow> bool"
  assumes step_inv: "step s s' \<Longrightarrow> inv s \<Longrightarrow> inv s'"
begin

lemma run_inv: "step\<^sup>*\<^sup>* s s' \<Longrightarrow> inv s \<Longrightarrow> inv s'"
  by (induction rule: rtranclp_induct) (auto intro: step_inv)

end

end
