(* ===== verification/Dyn_Array.thy ===== *)
theory Dyn_Array
  imports Prelude
begin

text \<open>
  The growable array of \<open>src/deps/stb_bencode.h\<close> (macros \<open>da_init\<close> and \<open>da_append\<close>), which the
  parser's lists, the block requests of a piece, their memory ranges, the outstanding requests and
  the peer connections all use. A \<open>da\<close> keeps the capacity and the stored values; its length field is
  the length of the list. The result of \<open>realloc\<close> is used unchecked: when it is NULL the store
  \<open>da->values[da->len++] = value\<close> goes through a null pointer.
\<close>

record 'a da =
  da_cap :: nat
  da_values :: "'a list"

definition da_len :: "'a da \<Rightarrow> nat" where
  "da_len d = length (da_values d)"

text \<open>\<open>None\<close>: the \<open>calloc\<close> of the macro returned NULL (the callers test \<open>values\<close> for it).\<close>

definition da_init :: "c_heap \<Rightarrow> 'a da option \<times> c_heap" where
  "da_init h = (case alloc h of (ok, h') \<Rightarrow>
     (if ok then Some \<lparr>da_cap = 16, da_values = []\<rparr> else None, h'))"

text \<open>
  The first half of \<open>da_append\<close>, which runs before its argument is evaluated: \<open>None\<close> when \<open>realloc\<close> returned NULL.
\<close>

definition da_grow :: "c_heap \<Rightarrow> 'a da \<Rightarrow> 'a da option \<times> c_heap" where
  "da_grow h d =
     (if da_len d = da_cap d
      then (case alloc h of (ok, h') \<Rightarrow> (if ok then Some (d\<lparr>da_cap := da_cap d * 2\<rparr>) else None, h'))
      else (Some d, h))"

definition da_append :: "c_heap \<Rightarrow> 'a da \<Rightarrow> 'a \<Rightarrow> ('a da \<times> c_heap) c_result" where
  "da_append h d v =
     (case da_grow h d of
        (Some d', h') \<Rightarrow> Inr (d'\<lparr>da_values := da_values d' @ [v]\<rparr>, h')
      | (None, h') \<Rightarrow> Inl Null_Deref)"

definition da_wf :: "'a da \<Rightarrow> bool" where
  "da_wf d \<longleftrightarrow> 0 < da_cap d \<and> da_len d \<le> da_cap d"

lemma da_init_ok [simp]:
  "heap_ok h \<Longrightarrow> da_init h = (Some \<lparr>da_cap = 16, da_values = []\<rparr>, h)"
  by (simp add: da_init_def)

lemma da_append_ok:
  assumes "heap_ok h"
  obtains d' where "da_append h d v = Inr (d', h)" and "da_values d' = da_values d @ [v]"
    and "da_wf d \<Longrightarrow> da_wf d'"
proof (cases "da_len d = da_cap d")
  case True
  with assms that show ?thesis
    by (simp add: da_append_def da_grow_def da_wf_def da_len_def)
next
  case False
  with assms that show ?thesis
    by (auto simp: da_append_def da_grow_def da_wf_def da_len_def)
qed

lemma da_grow_ok:
  assumes "heap_ok h"
  obtains d' where "da_grow h d = (Some d', h)" and "da_values d' = da_values d"
  using assms that by (cases "da_len d = da_cap d") (auto simp: da_grow_def)

text \<open>Appending never loses or reorders what is stored, whatever the allocator does.\<close>

lemma da_append_values:
  "da_append h d v = Inr (d', h') \<Longrightarrow> da_values d' = da_values d @ [v]"
  by (auto simp: da_append_def da_grow_def split: if_splits prod.splits)

lemma da_append_wf:
  "da_append h d v = Inr (d', h') \<Longrightarrow> da_wf d \<Longrightarrow> da_wf d'"
  by (auto simp: da_append_def da_grow_def da_wf_def da_len_def split: if_splits prod.splits)

lemma da_append_null:
  "da_append h d v = Inl e \<longleftrightarrow> e = Null_Deref \<and> da_len d = da_cap d \<and> \<not> fst (alloc h)"
  by (auto simp: da_append_def da_grow_def split: prod.splits)

end
