(* ===== verification/Bitfield.thy ===== *)
theory Bitfield
  imports Prelude
begin

text \<open>
  The bit vectors of \<open>src/bitfield/bitfield.h\<close>: piece \<open>idx\<close> is bit \<open>7 - idx mod 8\<close> of byte
  \<open>idx div 8\<close>, the order the wire protocol asks for. The macros index the buffer without looking at
  its size, so an index past the last byte is an access out of bounds.

  The locale \<open>bit_store\<close> is the interface the connection code relies on; it is interpreted on the
  macros at the end of the theory.
\<close>

definition CHAR_BIT :: nat where
  "CHAR_BIT = 8"

definition BITFIELD_NUM_BYTES :: "nat \<Rightarrow> nat" where
  "BITFIELD_NUM_BYTES len = len div CHAR_BIT + (if len mod CHAR_BIT \<noteq> 0 then 1 else 0)"

definition bit_mask :: "nat \<Rightarrow> byte" where
  "bit_mask idx = push_bit (CHAR_BIT - idx mod CHAR_BIT - 1) 1"

definition BITFIELD_ISSET :: "nat \<Rightarrow> byte list \<Rightarrow> bool c_result" where
  "BITFIELD_ISSET idx buf =
     c_bind (arr_get buf (idx div CHAR_BIT)) (\<lambda>b. Inr (b AND bit_mask idx \<noteq> 0))"

definition BITFIELD_SET :: "nat \<Rightarrow> byte list \<Rightarrow> byte list c_result" where
  "BITFIELD_SET idx buf =
     c_bind (arr_get buf (idx div CHAR_BIT)) (\<lambda>b.
       arr_set buf (idx div CHAR_BIT) (b OR bit_mask idx))"

definition BITFIELD_CLEAR :: "nat \<Rightarrow> byte list \<Rightarrow> byte list c_result" where
  "BITFIELD_CLEAR idx buf =
     c_bind (arr_get buf (idx div CHAR_BIT)) (\<lambda>b.
       arr_set buf (idx div CHAR_BIT) (b AND NOT (bit_mask idx)))"

section \<open>The interface\<close>

locale bit_store =
  fixes cap :: "'b \<Rightarrow> nat"
    and isset :: "nat \<Rightarrow> 'b \<Rightarrow> bool c_result"
    and setbit :: "nat \<Rightarrow> 'b \<Rightarrow> 'b c_result"
    and clearbit :: "nat \<Rightarrow> 'b \<Rightarrow> 'b c_result"
  assumes isset_in: "i < cap b \<Longrightarrow> \<exists>v. isset i b = Inr v"
    and isset_out: "cap b \<le> i \<Longrightarrow> isset i b = Inl Out_Of_Bounds"
    and set_in: "i < cap b \<Longrightarrow> \<exists>b'. setbit i b = Inr b' \<and> cap b' = cap b \<and> isset i b' = Inr True \<and>
                   (\<forall>j. j \<noteq> i \<longrightarrow> isset j b' = isset j b)"
    and set_out: "cap b \<le> i \<Longrightarrow> setbit i b = Inl Out_Of_Bounds"
    and clear_in: "i < cap b \<Longrightarrow> \<exists>b'. clearbit i b = Inr b' \<and> cap b' = cap b \<and> isset i b' = Inr False \<and>
                   (\<forall>j. j \<noteq> i \<longrightarrow> isset j b' = isset j b)"
    and clear_out: "cap b \<le> i \<Longrightarrow> clearbit i b = Inl Out_Of_Bounds"
begin

definition ones :: "'b \<Rightarrow> nat set" where
  "ones b = {i. isset i b = Inr True}"

lemma ones_bounded: "i \<in> ones b \<Longrightarrow> i < cap b"
  using isset_out [of b i] by (cases "i < cap b") (auto simp: ones_def)

lemma set_ok_iff: "(\<exists>b'. setbit i b = Inr b') \<longleftrightarrow> i < cap b"
  using set_in [of i b] set_out [of b i] by (cases "i < cap b") auto

lemma set_cap: "setbit i b = Inr b' \<Longrightarrow> cap b' = cap b"
  using set_in [of i b] set_out [of b i] by (cases "i < cap b") auto

lemma ones_set: "setbit i b = Inr b' \<Longrightarrow> ones b' = insert i (ones b)"
  using set_in [of i b] set_out [of b i] by (cases "i < cap b") (auto simp: ones_def)

lemma ones_clear: "clearbit i b = Inr b' \<Longrightarrow> ones b' = ones b - {i}"
  using clear_in [of i b] clear_out [of b i]
  by (cases "i < cap b") (auto simp: ones_def, metis Inr_inject)

lemma isset_iff_ones: "i < cap b \<Longrightarrow> isset i b = Inr (i \<in> ones b)"
  using isset_in [of i b] by (auto simp: ones_def)

lemma set_idem: "setbit i b = Inr b' \<Longrightarrow> i \<in> ones b \<Longrightarrow> ones b' = ones b"
  using ones_set by auto

end

section \<open>The macros implement the interface\<close>

lemma bit_mask_bit: "bit (bit_mask idx) n \<longleftrightarrow> n = 7 - idx mod 8"
  by (auto simp: bit_mask_def CHAR_BIT_def bit_simps)

lemma and_bit_mask: "b AND bit_mask idx \<noteq> 0 \<longleftrightarrow> bit b (7 - idx mod 8)"
proof
  assume "b AND bit_mask idx \<noteq> 0"
  then obtain n where "bit (b AND bit_mask idx) n" using bit_eqI [of "b AND bit_mask idx" 0] by auto
  then show "bit b (7 - idx mod 8)" by (auto simp: bit_and_iff bit_mask_bit)
next
  assume "bit b (7 - idx mod 8)"
  then have "bit (b AND bit_mask idx) (7 - idx mod 8)" by (simp add: bit_and_iff bit_mask_bit)
  then show "b AND bit_mask idx \<noteq> 0" by auto
qed

lemma bit_and_not_mask:
  "bit (b AND NOT (bit_mask i)) n = (if n = 7 - i mod 8 then False else bit b n)"
  by (auto simp: bit_and_iff bit_not_iff bit_mask_bit dest: bit_imp_le_length)

lemma same_byte_same_bit:
  "i div 8 = j div 8 \<Longrightarrow> 7 - i mod 8 = 7 - j mod (8::nat) \<Longrightarrow> i = j"
proof -
  assume d: "i div 8 = j div 8" and m: "7 - i mod 8 = 7 - j mod (8::nat)"
  have "i mod 8 < 8" "j mod 8 < 8" by simp_all
  with m have "i mod 8 = j mod 8" by linarith
  with d show "i = j" by (metis div_mult_mod_eq)
qed

lemma div8_less: "i < 8 * n \<longleftrightarrow> i div 8 < (n::nat)"
  by auto

lemma BITFIELD_ISSET_in:
  "i < 8 * length b \<Longrightarrow> BITFIELD_ISSET i b = Inr (bit (b ! (i div 8)) (7 - i mod 8))"
  by (simp add: BITFIELD_ISSET_def CHAR_BIT_def div8_less and_bit_mask)

lemma BITFIELD_ISSET_out: "8 * length b \<le> i \<Longrightarrow> BITFIELD_ISSET i b = Inl Out_Of_Bounds"
  by (simp add: BITFIELD_ISSET_def CHAR_BIT_def)

lemma byte_update_bits:
  assumes "i < 8 * length b"
    and "\<And>n. bit x n = (if n = 7 - i mod 8 then v else bit (b ! (i div 8)) n)"
  shows "BITFIELD_ISSET i (b[i div 8 := x]) = Inr v"
    and "j \<noteq> i \<Longrightarrow> BITFIELD_ISSET j (b[i div 8 := x]) = BITFIELD_ISSET j b"
proof -
  show "BITFIELD_ISSET i (b[i div 8 := x]) = Inr v"
    using assms by (simp add: BITFIELD_ISSET_in div8_less)
next
  assume "j \<noteq> i"
  then show "BITFIELD_ISSET j (b[i div 8 := x]) = BITFIELD_ISSET j b"
    using assms same_byte_same_bit [of j i]
    by (cases "j < 8 * length b") (auto simp: BITFIELD_ISSET_in BITFIELD_ISSET_out nth_list_update)
qed

interpretation bf: bit_store "\<lambda>b. 8 * length b" BITFIELD_ISSET BITFIELD_SET BITFIELD_CLEAR
proof unfold_locales
  fix i :: nat and b :: "byte list"
  assume i: "i < 8 * length b"
  show "\<exists>v. BITFIELD_ISSET i b = Inr v" using i by (simp add: BITFIELD_ISSET_in)
  show "\<exists>b'. BITFIELD_SET i b = Inr b' \<and> 8 * length b' = 8 * length b \<and>
             BITFIELD_ISSET i b' = Inr True \<and>
             (\<forall>j. j \<noteq> i \<longrightarrow> BITFIELD_ISSET j b' = BITFIELD_ISSET j b)"
    using i byte_update_bits [OF i, of "(b ! (i div 8)) OR bit_mask i" True]
    by (auto simp: BITFIELD_SET_def CHAR_BIT_def div8_less bit_or_iff bit_mask_bit)
  show "\<exists>b'. BITFIELD_CLEAR i b = Inr b' \<and> 8 * length b' = 8 * length b \<and>
             BITFIELD_ISSET i b' = Inr False \<and>
             (\<forall>j. j \<noteq> i \<longrightarrow> BITFIELD_ISSET j b' = BITFIELD_ISSET j b)"
    using i byte_update_bits [OF i bit_and_not_mask]
    by (auto simp: BITFIELD_CLEAR_def CHAR_BIT_def div8_less)
next
  fix i :: nat and b :: "byte list"
  assume "8 * length b \<le> i"
  then show "BITFIELD_ISSET i b = Inl Out_Of_Bounds" "BITFIELD_SET i b = Inl Out_Of_Bounds"
            "BITFIELD_CLEAR i b = Inl Out_Of_Bounds"
    by (simp_all add: BITFIELD_ISSET_def BITFIELD_SET_def BITFIELD_CLEAR_def CHAR_BIT_def)
qed

abbreviation bf_ones :: "byte list \<Rightarrow> nat set" where
  "bf_ones b \<equiv> bf.ones b"

lemma bf_ones_zero [simp]: "bf_ones (replicate n 0) = {}"
proof -
  have "BITFIELD_ISSET i (replicate n 0) \<noteq> Inr True" for i
    by (cases "i < 8 * n") (simp_all add: BITFIELD_ISSET_in BITFIELD_ISSET_out div8_less)
  then show ?thesis by (simp add: bf.ones_def)
qed

section \<open>Size of a bitfield\<close>

lemma num_bytes_least:
  "len \<le> 8 * BITFIELD_NUM_BYTES len \<and> 8 * BITFIELD_NUM_BYTES len < len + 8"
  unfolding BITFIELD_NUM_BYTES_def CHAR_BIT_def by presburger

lemma num_bytes_index: "i < len \<Longrightarrow> i < 8 * BITFIELD_NUM_BYTES len"
  using num_bytes_least [of len] by linarith

end
