(* ===== verification/Ring_Queue.thy ===== *)
theory Ring_Queue
  imports Prelude
begin

text \<open>
  The byte ring buffer of \<open>src/queue\<close>, in which a connection keeps the block requests of its peer.
  \<open>head\<close> and \<open>tail\<close> are pointers into \<open>mem\<close>; the model keeps their offsets from \<open>mem\<close> (\<open>tail\<close> starts
  one entry before the buffer). \<open>queue_inv\<close> is the representation invariant, \<open>queue_entries\<close> the list
  of stored entries, oldest first. The locale \<open>fifo\<close> states what a client may rely on and is
  interpreted on the C functions at the end; growing a queue whose entries wrap around the end of
  the buffer is outside that contract, see \<open>enqueue_wrapped_full\<close>.
\<close>

record queue_t =
  q_entry_size :: nat
  q_capacity :: nat
  q_size :: nat
  q_head :: int
  q_tail :: int
  q_mem :: "byte list"

definition QUEUE_BYTES :: "queue_t \<Rightarrow> nat" where
  "QUEUE_BYTES q = size_mul (q_entry_size q) (q_capacity q)"

definition queue_resize :: "c_heap \<Rightarrow> queue_t \<Rightarrow> u32 \<Rightarrow> (int \<times> queue_t \<times> c_heap) c_result" where
  "queue_resize h q new_cap =
     (let offhead = q_head q; offtail = q_tail q in
      case realloc h (q_mem q) (size_mul (q_entry_size q) (unat new_cap)) of
        (None, h') \<Rightarrow> Inr (-1, q, h')
      | (Some ret, h') \<Rightarrow>
          let q = q\<lparr>q_mem := ret, q_head := offhead, q_tail := offtail, q_capacity := unat new_cap\<rparr>
          in if q_tail q < q_head q then
               let top = q_tail q + int (q_entry_size q);
                   bot = int (QUEUE_BYTES q)
               in c_bind (mem_read (q_mem q) 0 (nat top)) (\<lambda>tmp.
                  c_bind (mem_read (q_mem q) (q_head q) (nat bot)) (\<lambda>blk.
                  c_bind (mem_write (q_mem q) 0 blk) (\<lambda>m1.
                  c_bind (mem_write m1 bot tmp) (\<lambda>m2.
                    Inr (0, q\<lparr>q_mem := m2, q_head := 0, q_tail := bot\<rparr>, h')))))
             else Inr (0, q, h'))"

text \<open>\<open>init_capacity\<close> is an \<open>int\<close> that \<open>calloc\<close> receives as a \<open>size_t\<close>.\<close>

definition queue_init :: "c_heap \<Rightarrow> nat \<Rightarrow> int \<Rightarrow> queue_t option \<times> c_heap" where
  "queue_init h entry_size init_capacity =
     (case alloc h of (ok, h1) \<Rightarrow>
        if \<not> ok then (None, h1) else
        let cap = nat (init_capacity mod 2 ^ 64) in
        case calloc h1 cap entry_size of
          (None, h2) \<Rightarrow> (None, h2)
        | (Some m, h2) \<Rightarrow>
            (Some \<lparr>q_entry_size = entry_size, q_capacity = cap, q_size = 0,
                   q_head = 0, q_tail = - int entry_size, q_mem = m\<rparr>, h2))"

definition queue_copy :: "c_heap \<Rightarrow> queue_t \<Rightarrow> (queue_t option \<times> c_heap) c_result" where
  "queue_copy h queue =
     (case alloc h of (ok, h1) \<Rightarrow>
        if \<not> ok then Inr (None, h1) else
        case calloc h1 (q_capacity queue) (q_entry_size queue) of
          (None, h2) \<Rightarrow> Inr (None, h2)
        | (Some m, h2) \<Rightarrow>
            c_bind (mem_read (q_mem queue) 0 (QUEUE_BYTES queue)) (\<lambda>bs.
            c_bind (mem_write m 0 bs) (\<lambda>m'.
              Inr (Some \<lparr>q_entry_size = q_entry_size queue, q_capacity = q_capacity queue,
                         q_size = q_size queue, q_head = q_head queue, q_tail = q_tail queue,
                         q_mem = m'\<rparr>, h2))))"

text \<open>The second half of \<open>enqueue\<close>: advance \<open>tail\<close>, wrap it, check it and copy the entry.\<close>

definition enqueue_store :: "queue_t \<Rightarrow> byte list \<Rightarrow> queue_t c_result" where
  "enqueue_store q entry =
     (let t = q_tail q + int (q_entry_size q);
          t' = (if int (QUEUE_BYTES q) \<le> t then 0 else t)
      in c_bind (c_assert (0 \<le> t' \<and> t' < int (QUEUE_BYTES q))) (\<lambda>_.
         c_bind (mem_read entry 0 (q_entry_size q)) (\<lambda>bs.
         c_bind (mem_write (q_mem q) t' bs) (\<lambda>m.
           Inr (q\<lparr>q_tail := t', q_mem := m, q_size := q_size q + 1\<rparr>)))))"

definition enqueue :: "c_heap \<Rightarrow> queue_t \<Rightarrow> byte list \<Rightarrow> (int \<times> queue_t \<times> c_heap) c_result" where
  "enqueue h q entry =
     c_bind (if q_size q = q_capacity q
             then queue_resize h q (word_of_nat (size_mul (q_capacity q) 2))
             else Inr (0, q, h)) (\<lambda>(r, q1, h1).
       if r \<noteq> 0 then Inr (-1, q1, h1)
       else c_bind (enqueue_store q1 entry) (\<lambda>q2. Inr (0, q2, h1)))"

text \<open>\<open>out\<close> is the caller's buffer; it is left alone when the queue is empty.\<close>

definition dequeue :: "queue_t \<Rightarrow> byte list \<Rightarrow> (int \<times> byte list \<times> queue_t) c_result" where
  "dequeue queue out =
     (if q_size queue = 0 then Inr (-1, out, queue) else
      c_bind (c_assert (0 \<le> q_head queue \<and> q_head queue < int (QUEUE_BYTES queue))) (\<lambda>_.
      c_bind (mem_read (q_mem queue) (q_head queue) (q_entry_size queue)) (\<lambda>bs.
      c_bind (mem_write out 0 bs) (\<lambda>out'.
        let hd1 = q_head queue + int (q_entry_size queue);
            hd2 = (if int (QUEUE_BYTES queue) \<le> hd1 then 0 else hd1)
        in Inr (0, out', queue\<lparr>q_head := hd2, q_size := q_size queue - 1\<rparr>)))))"

section \<open>Representation\<close>

definition slot :: "byte list \<Rightarrow> nat \<Rightarrow> nat \<Rightarrow> byte list" where
  "slot m es i = take es (drop (i * es) m)"

text \<open>\<open>hi\<close> is the slot of the oldest entry, \<open>ti\<close> the slot after the newest one (before the wrap).\<close>

definition queue_at :: "queue_t \<Rightarrow> nat \<Rightarrow> nat \<Rightarrow> bool" where
  "queue_at q hi ti \<longleftrightarrow>
     0 < q_entry_size q \<and> 0 < q_capacity q \<and> q_entry_size q * q_capacity q < 2 ^ 64 \<and>
     length (q_mem q) = q_entry_size q * q_capacity q \<and> q_size q \<le> q_capacity q \<and>
     hi < q_capacity q \<and> ti \<le> q_capacity q \<and>
     q_head q = int (hi * q_entry_size q) \<and>
     q_tail q = int (ti * q_entry_size q) - int (q_entry_size q) \<and>
     ti mod q_capacity q = (hi + q_size q) mod q_capacity q \<and> (ti = 0 \<longrightarrow> q_size q = 0)"

definition head_slot :: "queue_t \<Rightarrow> nat" where
  "head_slot q = nat (q_head q) div q_entry_size q"

definition tail_slot :: "queue_t \<Rightarrow> nat" where
  "tail_slot q = nat (q_tail q + int (q_entry_size q)) div q_entry_size q"

definition queue_inv :: "queue_t \<Rightarrow> bool" where
  "queue_inv q \<longleftrightarrow> queue_at q (head_slot q) (tail_slot q)"

definition queue_entries :: "queue_t \<Rightarrow> byte list list" where
  "queue_entries q =
     map (\<lambda>k. slot (q_mem q) (q_entry_size q) ((head_slot q + k) mod q_capacity q)) [0..<q_size q]"

lemma queue_at_slots:
  assumes "queue_at q hi ti"
  shows "head_slot q = hi" and "tail_slot q = ti"
proof -
  have es: "0 < q_entry_size q" using assms by (simp add: queue_at_def)
  have "nat (q_head q) = hi * q_entry_size q"
    using assms by (simp only: queue_at_def nat_int)
  moreover have "nat (q_tail q + int (q_entry_size q)) = ti * q_entry_size q"
    using assms by (simp only: queue_at_def nat_int diff_add_cancel)
  ultimately show "head_slot q = hi" "tail_slot q = ti"
    using es by (simp_all add: head_slot_def tail_slot_def)
qed

lemma queue_entries_at:
  "queue_at q hi ti \<Longrightarrow> queue_entries q =
     map (\<lambda>k. slot (q_mem q) (q_entry_size q) ((hi + k) mod q_capacity q)) [0..<q_size q]"
  by (simp add: queue_entries_def queue_at_slots)

lemma queue_inv_iff: "queue_inv q \<longleftrightarrow> (\<exists>hi ti. queue_at q hi ti)"
  using queue_at_slots unfolding queue_inv_def by metis

lemma queue_inv_bytes: "queue_inv q \<Longrightarrow> QUEUE_BYTES q = q_entry_size q * q_capacity q"
  by (simp add: queue_inv_def queue_at_def QUEUE_BYTES_def size_mul_exact)

lemma length_queue_entries [simp]: "length (queue_entries q) = q_size q"
  by (simp add: queue_entries_def)

lemma slot_bound: "i < cap \<Longrightarrow> i * es + es \<le> es * (cap::nat)"
proof -
  assume "i < cap"
  then have "Suc i * es \<le> cap * es" by (intro mult_le_mono1) simp
  then show ?thesis by (simp add: algebra_simps)
qed

lemma slot_nth: "i * es + es \<le> length m \<Longrightarrow> k < es \<Longrightarrow> slot m es i ! k = m ! (i * es + k)"
  by (simp add: slot_def)

lemma slot_length: "i * es + es \<le> length m \<Longrightarrow> length (slot m es i) = es"
  by (simp add: slot_def)

lemma slot_splice:
  assumes len: "length m = es * cap" and e: "length e = es" and i: "i < cap" and j: "j < cap"
  shows "slot (take (j * es) m @ e @ drop (j * es + es) m) es i = (if i = j then e else slot m es i)"
proof -
  have bi: "i * es + es \<le> length m" and bj: "j * es + es \<le> length m"
    using slot_bound [OF i] slot_bound [OF j] len by simp_all
  let ?m = "take (j * es) m @ e @ drop (j * es + es) m"
  have lm: "length ?m = length m" using bj e by simp
  have inside: "j * es \<le> i * es + k \<and> i * es + k < j * es + es \<longleftrightarrow> i = j" if "k < es" for k
  proof
    assume a: "j * es \<le> i * es + k \<and> i * es + k < j * es + es"
    have "j * es < (i + 1) * es" using a that by (simp add: algebra_simps)
    moreover have "i * es < (j + 1) * es" using a by (simp add: algebra_simps)
    ultimately show "i = j" by (metis Suc_eq_plus1 le_less_Suc_eq less_Suc_eq_le mult_less_cancel2)
  next
    assume "i = j" then show "j * es \<le> i * es + k \<and> i * es + k < j * es + es" using that by simp
  qed
  have "slot ?m es i ! k = (if i = j then e ! k else slot m es i ! k)" if k: "k < es" for k
  proof -
    have "slot ?m es i ! k = ?m ! (i * es + k)" using bi lm k by (intro slot_nth) simp_all
    also have "\<dots> = (if i = j then e ! k else m ! (i * es + k))"
      using nth_splice [of "j * es" e m "i * es + k"] bj bi e k inside [OF k] by auto
    finally show ?thesis using slot_nth [OF bi k] by simp
  qed
  moreover have "length (slot ?m es i) = es" "length (slot m es i) = es"
    using bi lm by (simp_all only: slot_length)
  ultimately show ?thesis using e by (auto intro: nth_equalityI)
qed

section \<open>The operations\<close>

lemma queue_init_inv:
  assumes "heap_ok h" and "0 < es" and "0 < cap" and "cap * es < 2 ^ 64"
  shows "\<exists>q. queue_init h es (int cap) = (Some q, h) \<and> queue_inv q \<and> queue_entries q = [] \<and>
             q_capacity q = cap \<and> q_entry_size q = es \<and> q_head q = 0"
proof -
  have "cap \<le> cap * es" using assms(2) by simp
  then have "cap < 2 ^ 64" using assms(4) by (rule le_less_trans)
  then have c: "nat (int cap mod 2 ^ 64) = cap" by simp
  let ?q = "\<lparr>q_entry_size = es, q_capacity = cap, q_size = 0, q_head = 0, q_tail = - int es,
             q_mem = replicate (cap * es) 0\<rparr>"
  have "queue_at ?q 0 0" using assms by (simp add: queue_at_def mult.commute)
  then have "queue_inv ?q" by (auto simp: queue_inv_iff)
  then show ?thesis
    using assms c by (auto simp: queue_init_def calloc_def queue_entries_def)
qed

lemma queue_copy_entries:
  assumes "heap_ok h" and "queue_inv q"
  shows "\<exists>q'. queue_copy h q = Inr (Some q', h) \<and> queue_inv q' \<and> queue_entries q' = queue_entries q"
proof -
  have m: "length (q_mem q) = q_entry_size q * q_capacity q"
    and lt: "q_entry_size q * q_capacity q < 2 ^ 64"
    using assms(2) by (simp_all add: queue_inv_def queue_at_def)
  then have "queue_copy h q = Inr (Some q, h)"
    using assms(1) queue_inv_bytes [OF assms(2)]
    by (simp add: queue_copy_def calloc_def mem_read_def mem_write_def mult.commute)
  then show ?thesis using assms(2) by blast
qed

lemma enqueue_store_ok:
  assumes at: "queue_at q hi ti" and free: "q_size q < q_capacity q"
    and e: "length entry = q_entry_size q"
  defines "j \<equiv> ti mod q_capacity q"
  shows "\<exists>q'. enqueue_store q entry = Inr q' \<and> queue_at q' hi (Suc j) \<and>
              queue_entries q' = queue_entries q @ [entry] \<and>
              q_entry_size q' = q_entry_size q \<and> q_capacity q' = q_capacity q \<and> q_head q' = q_head q"
proof -
  let ?es = "q_entry_size q" and ?cap = "q_capacity q"
  note a = at [unfolded queue_at_def]
  have j: "j < ?cap" using a by (simp add: j_def)
  have jdef: "j = (if ti = ?cap then 0 else ti)" using a by (auto simp: j_def)
  have t: "q_tail q + int ?es = int (ti * ?es)" using a by simp
  have qb: "QUEUE_BYTES q = ?es * ?cap" using a by (simp add: QUEUE_BYTES_def size_mul_exact)
  have le: "?es * ?cap \<le> ti * ?es \<longleftrightarrow> ti = ?cap"
    using a by (metis antisym mult.commute mult_le_cancel1)
  have "int (QUEUE_BYTES q) \<le> q_tail q + int ?es \<longleftrightarrow> ti = ?cap"
    unfolding t qb using le by linarith
  then have t': "(if int (QUEUE_BYTES q) \<le> q_tail q + int ?es then 0 else q_tail q + int ?es) = int (j * ?es)"
    by (simp add: jdef t)
  have bnd: "j * ?es + ?es \<le> ?es * ?cap" using slot_bound [OF j] .
  let ?m = "take (j * ?es) (q_mem q) @ entry @ drop (j * ?es + ?es) (q_mem q)"
  let ?q = "q\<lparr>q_tail := int (j * ?es), q_mem := ?m, q_size := q_size q + 1\<rparr>"
  have wr: "mem_write (q_mem q) (int (j * ?es)) entry = Inr ?m"
    using mem_write_ok [of "j * ?es" entry "q_mem q"] a bnd e by simp
  have "j * ?es < ?es * ?cap" using bnd a by linarith
  then have as: "0 \<le> int (j * ?es) \<and> int (j * ?es) < int (QUEUE_BYTES q)" unfolding qb by linarith
  have st: "enqueue_store q entry = Inr ?q"
    unfolding enqueue_store_def Let_def t' using as e wr [unfolded e] mem_read_0_all [of entry] by simp
  have at': "queue_at ?q hi (Suc j)"
    using a Suc_leI [OF j] bnd e free by (auto simp: queue_at_def j_def mod_Suc algebra_simps)
  have sl: "slot ?m ?es i = (if i = j then entry else slot (q_mem q) ?es i)" if "i < ?cap" for i
    using slot_splice [OF _ e that j] a by blast
  have jk: "j = (hi + q_size q) mod ?cap" using a by (simp add: j_def)
  have ne: "(hi + k) mod ?cap \<noteq> j" if k: "k < q_size q" for k
  proof
    assume eq: "(hi + k) mod ?cap = j"
    have "(hi + q_size q - (hi + k)) mod ?cap = 0"
      using eq jk k by (metis mod_eq_dvd_iff_nat add_le_cancel_left dvd_imp_mod_0 less_imp_le)
    then show False using k free by simp
  qed
  have cap0: "0 < ?cap" using a by simp
  have "queue_entries ?q = queue_entries q @ [entry]"
    unfolding queue_entries_at [OF at'] queue_entries_at [OF at]
    using cap0 ne by (simp add: sl jk [symmetric])
  then show ?thesis using st at' by auto
qed

lemma dequeue_ok:
  assumes inv: "queue_inv q" and ne: "queue_entries q = x # xs" and out: "length out = q_entry_size q"
  shows "\<exists>q'. dequeue q out = Inr (0, x, q') \<and> queue_inv q' \<and> queue_entries q' = xs \<and>
              q_entry_size q' = q_entry_size q \<and> q_capacity q' = q_capacity q"
proof -
  let ?es = "q_entry_size q" and ?cap = "q_capacity q"
  obtain hi ti where at: "queue_at q hi ti" using inv by (auto simp: queue_inv_iff)
  note a = at [unfolded queue_at_def]
  have sz: "0 < q_size q" using ne length_queue_entries [of q] by (metis length_greater_0_conv list.distinct(1))
  have hi: "hi < ?cap" using a by simp
  have bnd: "hi * ?es + ?es \<le> ?es * ?cap" using slot_bound [OF hi] .
  have qb: "QUEUE_BYTES q = ?es * ?cap" using queue_inv_bytes [OF inv] .
  have rd: "mem_read (q_mem q) (q_head q) ?es = Inr (slot (q_mem q) ?es hi)"
    using mem_read_ok [of "hi * ?es" ?es "q_mem q"] a bnd by (simp add: slot_def)
  have lsl: "length (slot (q_mem q) ?es hi) = ?es" using a bnd by (simp add: slot_def)
  have wr: "mem_write out 0 (slot (q_mem q) ?es hi) = Inr (slot (q_mem q) ?es hi)"
    using lsl out by (simp add: mem_write_def)
  define hj where "hj = Suc hi mod ?cap"
  have hj: "hj = (if Suc hi = ?cap then 0 else Suc hi)" using hi by (auto simp: hj_def)
  have "int (QUEUE_BYTES q) \<le> q_head q + int ?es \<longleftrightarrow> Suc hi = ?cap"
  proof -
    have "int (QUEUE_BYTES q) \<le> q_head q + int ?es \<longleftrightarrow> ?es * ?cap \<le> Suc hi * ?es"
      using a unfolding qb by (simp add: algebra_simps flip: of_nat_mult of_nat_add)
    also have "\<dots> \<longleftrightarrow> ?cap \<le> Suc hi" using a by (metis mult.commute mult_le_cancel1 nat_less_le not_less)
    finally show ?thesis using hi by linarith
  qed
  then have hd': "(if int (QUEUE_BYTES q) \<le> q_head q + int ?es then 0 else q_head q + int ?es) = int (hj * ?es)"
    using a by (auto simp: hj algebra_simps)
  let ?q = "q\<lparr>q_head := int (hj * ?es), q_size := q_size q - 1\<rparr>"
  have "hi * ?es < ?es * ?cap" using a bnd by linarith
  then have as: "0 \<le> q_head q \<and> q_head q < int (QUEUE_BYTES q)"
    using a unfolding qb by (simp only: of_nat_less_iff of_nat_0_le_iff simp_thms)
  have dq: "dequeue q out = Inr (0, slot (q_mem q) ?es hi, ?q)"
    unfolding dequeue_def Let_def hd' using sz rd wr as by simp
  have modeq: "(hj + (q_size q - 1)) mod ?cap = (hi + q_size q) mod ?cap"
    using sz by (cases "q_size q") (simp_all add: hj_def mod_add_left_eq)
  have at': "queue_at ?q hj ti"
    using a sz modeq hi by (auto simp: queue_at_def hj_def)
  have ent: "queue_entries q = slot (q_mem q) ?es hi # queue_entries ?q"
  proof -
    have up: "[0..<q_size q] = 0 # map Suc [0..<q_size q - 1]"
      using sz by (simp add: map_Suc_upt upt_conv_Cons)
    have idx: "(hj + k) mod ?cap = (hi + Suc k) mod ?cap" for k
      by (simp add: hj_def mod_add_left_eq)
    show ?thesis
      unfolding queue_entries_at [OF at'] queue_entries_at [OF at]
      by (simp add: up idx hi comp_def)
  qed
  show ?thesis using dq at' ent ne by (auto simp: queue_inv_iff)
qed

lemma dequeue_empty: "queue_entries q = [] \<Longrightarrow> dequeue q out = Inr (-1, out, q)"
  using length_queue_entries [of q] by (simp add: dequeue_def)


section \<open>Growing a full queue\<close>

text \<open>
  A full queue whose oldest entry sits in slot 0 grows in place. When it has wrapped (the oldest
  entry sits elsewhere), \<open>queue_resize\<close> takes the size of the \<^emph>\<open>new\<close> buffer for the number of
  bytes behind \<open>head\<close>, so its \<open>memmove\<close> reads past the end of the block.
\<close>

lemma word_of_nat_double: "2 * n < 2 ^ 32 \<Longrightarrow> unat (word_of_nat (size_mul n 2) :: u32) = 2 * n"
proof -
  assume n: "2 * n < 2 ^ 32"
  then have "size_mul n 2 = 2 * n" by (simp add: size_mul_def mult.commute)
  then show ?thesis using n by (simp only: unat_of_nat) simp
qed

lemma full_slots:
  assumes "queue_at q hi ti" and "q_size q = q_capacity q"
  shows "ti = (if hi = 0 then q_capacity q else hi)"
  using assms by (auto simp: queue_at_def le_less split: if_splits)

lemma queue_resize_in_place:
  assumes inv: "queue_inv q" and ok: "heap_ok h" and full: "q_size q = q_capacity q"
    and hd0: "q_head q = 0" and b32: "2 * q_capacity q < 2 ^ 32"
    and b64: "2 * (q_entry_size q * q_capacity q) < 2 ^ 64"
  shows "\<exists>q'. queue_resize h q (word_of_nat (size_mul (q_capacity q) 2)) = Inr (0, q', h) \<and>
              queue_inv q' \<and> queue_entries q' = queue_entries q \<and>
              q_capacity q' = 2 * q_capacity q \<and> q_entry_size q' = q_entry_size q \<and>
              q_size q' = q_size q \<and> q_head q' = 0"
proof -
  let ?es = "q_entry_size q" and ?cap = "q_capacity q"
  obtain hi ti where at: "queue_at q hi ti" using inv by (auto simp: queue_inv_iff)
  note a = at [unfolded queue_at_def]
  have hi: "hi = 0" using a hd0 by auto
  have ti: "ti = ?cap" using full_slots [OF at full] hi by simp
  have nb: "size_mul ?es (2 * ?cap) = 2 * (?es * ?cap)"
    using b64 by (simp add: size_mul_def mult.left_commute)
  have len: "length (q_mem q) = ?es * ?cap" using a by simp
  let ?m = "q_mem q @ map (heap_junk h) [?es * ?cap..<2 * (?es * ?cap)]"
  let ?q = "q\<lparr>q_mem := ?m, q_capacity := 2 * ?cap\<rparr>"
  have tl: "q_tail q = int ((?cap - 1) * ?es)"
    using a ti by (cases ?cap) (simp_all add: algebra_simps)
  have rs: "queue_resize h q (word_of_nat (size_mul ?cap 2)) = Inr (0, ?q, h)"
  proof -
    have "\<not> q_tail q < q_head q" using tl hd0 by (metis of_nat_0_le_iff not_less)
    moreover have "?q = q\<lparr>q_mem := ?m, q_head := q_head q, q_tail := q_tail q, q_capacity := 2 * ?cap\<rparr>"
      by (cases q) simp
    ultimately show ?thesis
      using ok len word_of_nat_double [OF b32] nb by (simp add: queue_resize_def realloc_def Let_def)
  qed
  have at': "queue_at ?q 0 ?cap"
    using a b64 hi ti full by (auto simp: queue_at_def mult.left_commute)
  have sl: "slot ?m ?es i = slot (q_mem q) ?es i" if "i < ?cap" for i
    using slot_bound [OF that, of ?es] a by (simp add: slot_def)
  have "queue_entries ?q = queue_entries q"
    unfolding queue_entries_at [OF at'] queue_entries_at [OF at]
    using hi full sl by simp
  then show ?thesis using rs at' hd0 by (auto simp: queue_inv_iff)
qed

lemma queue_resize_wrapped:
  assumes inv: "queue_inv q" and ok: "fst (alloc h)" and full: "q_size q = q_capacity q"
    and hd: "q_head q \<noteq> 0" and b32: "2 * q_capacity q < 2 ^ 32"
    and b64: "2 * (q_entry_size q * q_capacity q) < 2 ^ 64"
  shows "queue_resize h q (word_of_nat (size_mul (q_capacity q) 2)) = Inl Out_Of_Bounds"
proof -
  let ?es = "q_entry_size q" and ?cap = "q_capacity q"
  obtain hi ti where at: "queue_at q hi ti" using inv by (auto simp: queue_inv_iff)
  note a = at [unfolded queue_at_def]
  have hi: "0 < hi" "hi < ?cap" using a hd by auto
  have ti: "ti = hi" using full_slots [OF at full] hi by simp
  have nb: "size_mul ?es (2 * ?cap) = 2 * (?es * ?cap)"
    using b64 by (simp add: size_mul_def mult.left_commute)
  let ?m = "q_mem q @ map (heap_junk h) [?es * ?cap..<2 * (?es * ?cap)]"
  have lm: "length ?m = 2 * (?es * ?cap)" using a by simp
  have top: "nat (q_tail q + int ?es) = hi * ?es" using a ti by (simp flip: of_nat_mult)
  have lt: "q_tail q < q_head q" using a ti by simp
  have "hi * ?es \<le> ?es * ?cap" using slot_bound [OF hi(2), of ?es] by linarith
  then have "hi * ?es \<le> 2 * (?es * ?cap)" by linarith
  then have rd1: "mem_read ?m 0 (hi * ?es) = Inr (take (hi * ?es) ?m)"
    unfolding mem_read_def lm by simp
  have "0 < hi * ?es" using hi a by simp
  then have rd2: "mem_read ?m (q_head q) (2 * (?es * ?cap)) = Inl Out_Of_Bounds"
    using a unfolding mem_read_def lm by (simp flip: of_nat_mult)
  obtain h' where al: "alloc h = (True, h')" using ok by (cases "alloc h") auto
  have len: "length (q_mem q) = ?es * ?cap" using a by simp
  show ?thesis
    using lt rd1 rd2 nb len word_of_nat_double [OF b32]
    by (simp add: queue_resize_def realloc_def al Let_def QUEUE_BYTES_def top del: of_nat_mult)
qed

section \<open>The contract\<close>

text \<open>
  What \<open>enqueue\<close> and \<open>dequeue\<close> promise a client, with their C return codes: on a state with room the
  entry becomes the newest one, and the entries leave in the order they came.
\<close>

locale fifo =
  fixes inv :: "'q \<Rightarrow> bool"
    and entries :: "'q \<Rightarrow> 'e list"
    and fits :: "'q \<Rightarrow> 'e \<Rightarrow> bool"
    and room :: "'q \<Rightarrow> bool"
    and enq :: "'q \<Rightarrow> 'e \<Rightarrow> (int \<times> 'q) c_result"
    and deq :: "'q \<Rightarrow> 'e \<Rightarrow> (int \<times> 'e \<times> 'q) c_result"
  assumes enq_ok: "inv q \<Longrightarrow> fits q x \<Longrightarrow> room q \<Longrightarrow>
            \<exists>q'. enq q x = Inr (0, q') \<and> inv q' \<and> entries q' = entries q @ [x] \<and> fits q' = fits q"
    and deq_ok: "inv q \<Longrightarrow> entries q = x # xs \<Longrightarrow> fits q out \<Longrightarrow>
            \<exists>q'. deq q out = Inr (0, x, q') \<and> inv q' \<and> entries q' = xs \<and> fits q' = fits q"
    and deq_empty: "inv q \<Longrightarrow> entries q = [] \<Longrightarrow> deq q out = Inr (-1, out, q)"
    and entries_fit: "inv q \<Longrightarrow> x \<in> set (entries q) \<Longrightarrow> fits q x"
begin

text \<open>The loop \<open>while (dequeue(q, \<dots>) == 0)\<close>, cut off after \<open>n\<close> rounds.\<close>

primrec drain :: "nat \<Rightarrow> 'q \<Rightarrow> 'e \<Rightarrow> 'e list c_result" where
  "drain 0 q out = Inr []"
| "drain (Suc n) q out =
     c_bind (deq q out) (\<lambda>(r, x, q'). if r = 0 then c_bind (drain n q' x) (\<lambda>xs. Inr (x # xs)) else Inr [])"

lemma drain_entries:
  "inv q \<Longrightarrow> fits q out \<Longrightarrow> length (entries q) \<le> n \<Longrightarrow> drain n q out = Inr (entries q)"
proof (induction n arbitrary: q out)
  case 0
  then show ?case by simp
next
  case (Suc n)
  show ?case
  proof (cases "entries q")
    case Nil
    then show ?thesis using Suc.prems deq_empty by simp
  next
    case (Cons x xs)
    obtain q' where q': "deq q out = Inr (0, x, q')" "inv q'" "entries q' = xs" "fits q' = fits q"
      using deq_ok [OF Suc.prems(1) Cons Suc.prems(2)] by blast
    have "fits q' x" using q'(4) entries_fit [OF Suc.prems(1), of x] Cons by simp
    then have "drain n q' x = Inr xs" using Suc.IH [OF q'(2)] q'(3) Suc.prems(3) Cons by simp
    then show ?thesis using q'(1) Cons by simp
  qed
qed

text \<open>Storing a batch and draining the queue gives everything back in order.\<close>

lemma enq_then_drain:
  assumes "inv q" and "fits q x" and "room q" and "enq q x = Inr (r, q')" and "length (entries q) < n"
  shows "r = 0 \<and> drain n q' x = Inr (entries q @ [x])"
proof -
  obtain q2 where q2: "enq q x = Inr (0, q2)" "inv q2" "entries q2 = entries q @ [x]" "fits q2 = fits q"
    using enq_ok assms(1-3) by blast
  then have "q2 = q'" "r = 0" using assms(4) by simp_all
  then show ?thesis using drain_entries [of q' x n] q2 assms(2,5) by simp
qed

end

definition queue_room :: "queue_t \<Rightarrow> bool" where
  "queue_room q \<longleftrightarrow> q_size q < q_capacity q \<or>
     q_head q = 0 \<and> 2 * q_capacity q < 2 ^ 32 \<and> 2 * (q_entry_size q * q_capacity q) < 2 ^ 64"

lemma enqueue_ok:
  assumes inv: "queue_inv q" and ok: "heap_ok h" and e: "length x = q_entry_size q"
    and room: "queue_room q"
  shows "\<exists>q'. enqueue h q x = Inr (0, q', h) \<and> queue_inv q' \<and>
              queue_entries q' = queue_entries q @ [x] \<and> q_entry_size q' = q_entry_size q"
proof -
  obtain q1 where q1:
    "(if q_size q = q_capacity q then queue_resize h q (word_of_nat (size_mul (q_capacity q) 2))
      else Inr (0, q, h)) = Inr (0, q1, h)"
    "queue_inv q1" "queue_entries q1 = queue_entries q" "q_entry_size q1 = q_entry_size q"
    "q_size q1 < q_capacity q1"
  proof (cases "q_size q = q_capacity q")
    case True
    moreover have "0 < q_capacity q" using inv by (simp add: queue_inv_def queue_at_def)
    ultimately show ?thesis
      using that queue_resize_in_place [OF inv ok True] room by (auto simp: queue_room_def)
  next
    case False
    moreover have "q_size q \<le> q_capacity q" using inv by (simp add: queue_inv_def queue_at_def)
    ultimately show ?thesis using that inv by simp
  qed
  obtain hi ti where at: "queue_at q1 hi ti" using q1(2) by (auto simp: queue_inv_iff)
  show ?thesis
    using enqueue_store_ok [OF at q1(5), of x] q1 e
    unfolding enqueue_def q1(1) queue_inv_iff [of "_ :: queue_t"] by fastforce
qed

lemma queue_entries_size:
  assumes "queue_inv q" and "x \<in> set (queue_entries q)"
  shows "length x = q_entry_size q"
proof -
  have "0 < q_capacity q" and len: "length (q_mem q) = q_entry_size q * q_capacity q"
    using assms(1) by (simp_all add: queue_inv_def queue_at_def)
  then have "(head_slot q + k) mod q_capacity q < q_capacity q" for k by simp
  then show ?thesis
    using assms(2) len slot_bound by (auto simp: queue_entries_def intro!: slot_length)
qed

interpretation lq: fifo
  "\<lambda>(q, h). queue_inv q \<and> heap_ok h" "\<lambda>(q, h). queue_entries q"
  "\<lambda>(q, h) x. length x = q_entry_size q" "\<lambda>(q, h). queue_room q"
  "\<lambda>(q, h) x. enqueue h q x"
  "\<lambda>(q, h) out. c_bind (dequeue q out) (\<lambda>(r, x, q'). Inr (r, x, (q', h)))"
proof (unfold_locales, goal_cases)
  case (1 qh x)
  then show ?case by (cases qh) (use enqueue_ok in fastforce)
next
  case (2 qh x xs out)
  then show ?case by (cases qh) (use dequeue_ok in fastforce)
next
  case (3 qh out)
  then show ?case by (cases qh) (simp add: dequeue_empty)
next
  case (4 qh x)
  then show ?case by (cases qh) (simp add: queue_entries_size)
qed

section \<open>Runs\<close>

text \<open>
  A client's history is a list of calls. \<open>queue_run\<close> performs them on the C queue and records every
  return code with the entry that came out (each \<open>dequeue\<close> is given a zeroed buffer); \<open>spec_run\<close> does
  the same on a plain list. The two agree as long as the list never holds more than \<open>cap\<close> entries,
  the situation in which \<open>queue_resize\<close> is never called.
\<close>

datatype queue_call = Enq "byte list" | Deq

fun queue_run :: "queue_t \<times> c_heap \<Rightarrow> queue_call list \<Rightarrow> (int \<times> byte list) list c_result" where
  "queue_run (q, h) [] = Inr []"
| "queue_run (q, h) (Enq x # cs) =
     c_bind (enqueue h q x) (\<lambda>(r, q', h').
       c_bind (queue_run (q', h') cs) (\<lambda>os. Inr ((r, x) # os)))"
| "queue_run (q, h) (Deq # cs) =
     c_bind (dequeue q (replicate (q_entry_size q) 0)) (\<lambda>(r, x, q').
       c_bind (queue_run (q', h) cs) (\<lambda>os. Inr ((r, x) # os)))"

fun spec_run :: "nat \<Rightarrow> byte list list \<Rightarrow> queue_call list \<Rightarrow> (int \<times> byte list) list" where
  "spec_run es xs [] = []"
| "spec_run es xs (Enq x # cs) = (0, x) # spec_run es (xs @ [x]) cs"
| "spec_run es [] (Deq # cs) = (-1, replicate es 0) # spec_run es [] cs"
| "spec_run es (x # xs) (Deq # cs) = (0, x) # spec_run es xs cs"

fun calls_fit :: "nat \<Rightarrow> nat \<Rightarrow> nat \<Rightarrow> queue_call list \<Rightarrow> bool" where
  "calls_fit es cap n [] = True"
| "calls_fit es cap n (Enq x # cs) = (length x = es \<and> n < cap \<and> calls_fit es cap (Suc n) cs)"
| "calls_fit es cap n (Deq # cs) = calls_fit es cap (n - 1) cs"

lemma enqueue_free_cap:
  "q_size q < q_capacity q \<Longrightarrow> enqueue h q x = Inr (r, q', h') \<Longrightarrow> q_capacity q' = q_capacity q"
  by (auto simp: enqueue_def enqueue_store_def Let_def c_bind_eq_Inr split: if_splits)

lemma queue_run_refines:
  "queue_inv q \<Longrightarrow> heap_ok h \<Longrightarrow> calls_fit (q_entry_size q) (q_capacity q) (q_size q) cs \<Longrightarrow>
   queue_run (q, h) cs = Inr (spec_run (q_entry_size q) (queue_entries q) cs)"
proof (induction cs arbitrary: q)
  case Nil
  then show ?case by simp
next
  case (Cons c cs)
  show ?case
  proof (cases c)
    case (Enq x)
    have x: "length x = q_entry_size q" and free: "q_size q < q_capacity q"
      and rest: "calls_fit (q_entry_size q) (q_capacity q) (Suc (q_size q)) cs"
      using Cons.prems(3) Enq by simp_all
    obtain q' where q': "enqueue h q x = Inr (0, q', h)" "queue_inv q'"
      "queue_entries q' = queue_entries q @ [x]" "q_entry_size q' = q_entry_size q"
      using enqueue_ok [OF Cons.prems(1,2) x] free by (auto simp: queue_room_def)
    have "q_size q' = Suc (q_size q)"
      using arg_cong [OF q'(3), of length] by simp
    then show ?thesis
      using Cons.IH [of q'] q' rest Cons.prems(2) Enq enqueue_free_cap [OF free q'(1)] by simp
  next
    case Deq
    let ?out = "replicate (q_entry_size q) (0::byte)"
    show ?thesis
    proof (cases "queue_entries q")
      case Nil
      then have "q_size q = 0" using length_queue_entries [of q] by simp
      then show ?thesis
        using Cons.IH [of q] Cons.prems Deq Nil dequeue_empty [OF Nil] by simp
    next
      case (Cons x xs)
      obtain q' where q': "dequeue q ?out = Inr (0, x, q')" "queue_inv q'" "queue_entries q' = xs"
        "q_entry_size q' = q_entry_size q" "q_capacity q' = q_capacity q"
        using dequeue_ok [OF Cons.prems(1) Cons, of ?out] by auto
      have "q_size q' = q_size q - 1"
        using length_queue_entries [of q'] length_queue_entries [of q] q'(3) Cons by simp
      then show ?thesis
        using Cons.IH [of q'] Cons.prems Deq Cons q' by simp
    qed
  qed
qed

section \<open>Properties\<close>

text \<open>
  C19. Refinement to a list. For every history of \<open>enqueue\<close> and \<open>dequeue\<close> calls on the queue a
  connection creates (\<open>queue_init(sizeof(request_msg_t), 16)\<close>) in which at most 16 entries are ever
  waiting, every return code and every entry handed out is the one a first-in first-out list gives;
  no call leaves the buffer, and the wrap-around at its end is never visible.
\<close>

theorem queue_history_is_fifo:
  assumes "heap_ok h" and "0 < es" and "16 * es < 2 ^ 64" and "calls_fit es 16 0 cs"
  shows "\<exists>q. queue_init h es 16 = (Some q, h) \<and> queue_run (q, h) cs = Inr (spec_run es [] cs)"
proof -
  obtain q where "queue_init h es (int 16) = (Some q, h)" and q: "queue_inv q" "queue_entries q = []"
    "q_capacity q = 16" "q_entry_size q = es"
    using queue_init_inv [OF assms(1,2), of 16] assms(3) by auto
  moreover have "q_size q = 0" using length_queue_entries [of q] q(2) by simp
  ultimately show ?thesis using queue_run_refines [OF q(1) assms(1), of cs] q assms(4) by simp
qed

theorem queue_history_is_fifo_witness:
  "\<exists>q. queue_init calm_heap 2 16 = (Some q, calm_heap) \<and>
       queue_run (q, calm_heap) [Enq [1, 2], Enq [3, 4], Deq, Deq, Deq] =
         Inr [(0, [1, 2]), (0, [3, 4]), (0, [1, 2]), (0, [3, 4]), (-1, [0, 0])]"
proof -
  have "replicate 2 (0::byte) = [0, 0]" by (simp add: eval_nat_numeral)
  then show ?thesis
    using queue_history_is_fifo [of calm_heap 2 "[Enq [1, 2], Enq [3, 4], Deq, Deq, Deq]"]
    by (simp del: queue_run.simps)
qed

text \<open>
  Growth of a full queue. If the oldest entry is at the start of the buffer, \<open>enqueue\<close> doubles the
  capacity and appends the entry; if the queue has wrapped around, the same call reads outside the
  reallocated block, so a peer that keeps more than 16 requests waiting after one has been served
  makes the program leave its memory.
\<close>

theorem enqueue_full:
  assumes "queue_inv q" and "heap_ok h" and "q_size q = q_capacity q" and "length x = q_entry_size q"
    and "2 * q_capacity q < 2 ^ 32" and "2 * (q_entry_size q * q_capacity q) < 2 ^ 64"
  shows "(q_head q = 0 \<longrightarrow> (\<exists>q'. enqueue h q x = Inr (0, q', h) \<and> queue_inv q' \<and>
             queue_entries q' = queue_entries q @ [x])) \<and>
         (q_head q \<noteq> 0 \<longrightarrow> enqueue h q x = Inl Out_Of_Bounds)"
proof -
  have "\<exists>q'. enqueue h q x = Inr (0, q', h) \<and> queue_inv q' \<and> queue_entries q' = queue_entries q @ [x]"
    if "q_head q = 0"
    using enqueue_ok [OF assms(1,2,4)] that assms(5,6) by (auto simp: queue_room_def)
  moreover have "enqueue h q x = Inl Out_Of_Bounds" if "q_head q \<noteq> 0"
    using queue_resize_wrapped [OF assms(1) _ assms(3) that assms(5,6), of h] assms(2,3)
    by (simp add: enqueue_def)
  ultimately show ?thesis by blast
qed

definition wrapped_example :: queue_t where
  "wrapped_example = \<lparr>q_entry_size = 1, q_capacity = 2, q_size = 2, q_head = 1, q_tail = 0, q_mem = [8, 9]\<rparr>"

theorem enqueue_full_witness:
  "enqueue calm_heap wrapped_example [5] = Inl Out_Of_Bounds"
  using enqueue_full [of wrapped_example calm_heap "[5]"]
  by (simp add: wrapped_example_def queue_inv_def queue_at_def head_slot_def tail_slot_def)

end
