(* ===== verification/Hash_Table.thy ===== *)
theory Hash_Table
  imports Prelude
begin

text \<open>
  The open-addressing hash table of \<open>src/deps/stb_hashtable.h\<close>, in which the bencode parser stores
  dictionaries. A key is the byte string \<open>(key, key_len)\<close>, a value is a pointer (\<open>None\<close> is NULL).
  Function pointers are the functions of the header they can point to. \<open>ht_inv\<close> is the
  representation invariant, \<open>ht_map\<close> the finite map a table stands for; the locale \<open>assoc_table\<close> is
  the interface the parser relies on, interpreted on the C functions at the end.
\<close>

record 'v hash_position_t =
  hp_in_use :: bool
  hp_key :: "byte list"
  hp_value :: "'v option"

datatype probe_strategy = PROBE_LINEAR | PROBE_QUADRATIC | PROBE_DOUBLE_HASH

datatype hasher_t = Knuth_Hash | Fnv_Hash

datatype comparer_t = Memcmp_Comparer

record 'v hash_table_t =
  ht_strategy :: probe_strategy
  ht_hasher :: hasher_t
  ht_comparer :: comparer_t
  ht_double_hasher :: "hasher_t option"
  ht_size :: nat
  ht_p :: nat
  ht_values :: "'v hash_position_t list"
  ht_used :: nat

record hash_options_t =
  ho_hasher :: "hasher_t option"
  ho_double_hasher :: "hasher_t option"
  ho_comparer :: comparer_t
  ho_strategy :: probe_strategy
  ho_size :: nat

section \<open>Hash functions\<close>

text \<open>
  \<open>acc *= s[i] + i\<close> multiplies in \<open>size_t\<close> (the index is one) and stores the low 32 bits back into the
  signed \<open>acc\<close>, which the next round sign-extends again.
\<close>

fun buf_as_int_loop :: "byte list \<Rightarrow> nat \<Rightarrow> u32 \<Rightarrow> u32" where
  "buf_as_int_loop [] i acc = acc"
| "buf_as_int_loop (s # ss) i acc =
     buf_as_int_loop ss (Suc i) (ucast ((scast acc :: u64) * (ucast s + of_nat i)))"

definition buf_as_int :: "byte list \<Rightarrow> u32" where
  "buf_as_int key = buf_as_int_loop key 0 1"

definition knuth_hash :: "nat \<Rightarrow> nat \<Rightarrow> byte list \<Rightarrow> nat" where
  "knuth_hash tsize p key =
     (let key_as_int = (scast (buf_as_int key) :: u64);
          hash = drop_bit (32 - p) (key_as_int * 2654435769)
      in unat hash mod tsize)"

fun fnv_loop :: "byte list \<Rightarrow> u64 \<Rightarrow> u64" where
  "fnv_loop [] hash = hash"
| "fnv_loop (s # ss) hash = fnv_loop ss ((hash * 1099511628211) XOR ucast s)"

definition fnv_hash :: "nat \<Rightarrow> nat \<Rightarrow> byte list \<Rightarrow> nat" where
  "fnv_hash tsize p key = unat (fnv_loop key 14695981039346656037) mod tsize"

primrec call_hasher :: "hasher_t \<Rightarrow> 'v hash_table_t \<Rightarrow> byte list \<Rightarrow> nat" where
  "call_hasher Knuth_Hash t key = knuth_hash (ht_size t) (ht_p t) key"
| "call_hasher Fnv_Hash t key = fnv_hash (ht_size t) (ht_p t) key"

definition memcmp_comparer :: "byte list \<Rightarrow> byte list \<Rightarrow> bool" where
  "memcmp_comparer a b \<longleftrightarrow> length a = length b \<and> a = b"

primrec call_comparer :: "comparer_t \<Rightarrow> byte list \<Rightarrow> byte list \<Rightarrow> bool" where
  "call_comparer Memcmp_Comparer a b = memcmp_comparer a b"

section \<open>Initialisation\<close>

definition empty_position :: "'v hash_position_t" where
  "empty_position = \<lparr>hp_in_use = False, hp_key = [], hp_value = None\<rparr>"

text \<open>
  \<open>t0\<close> is what the uninitialised table holds before the call: \<open>used\<close>, a \<open>size_t\<close>, is never written, and
  \<open>double_hasher\<close> only for double hashing. \<open>r\<close> is the result of \<open>rand()\<close>. The result of
  \<open>HASH_TABLE_MALLOC\<close> goes to \<open>memset\<close> unchecked.
\<close>

definition hash_table_init_ex ::
  "c_heap \<Rightarrow> nat \<Rightarrow> 'v hash_table_t \<Rightarrow> hash_options_t \<Rightarrow> ('v hash_table_t \<times> c_heap) c_result" where
  "hash_table_init_ex h r t0 options =
     (let t1 = t0\<lparr>ht_used := ht_used t0 mod 2 ^ 64, ht_hasher := (case ho_hasher options of Some f \<Rightarrow> f | None \<Rightarrow> Knuth_Hash)\<rparr>;
          t2 = (if ho_strategy options = PROBE_DOUBLE_HASH
                then t1\<lparr>ht_double_hasher :=
                       Some (case ho_double_hasher options of Some f \<Rightarrow> f | None \<Rightarrow> Fnv_Hash)\<rparr>
                else t1);
          t3 = t2\<lparr>ht_strategy := ho_strategy options, ht_p := r mod 32, ht_size := ho_size options,
                  ht_comparer := ho_comparer options\<rparr>
      in case alloc h of (ok, h') \<Rightarrow>
           if ok then Inr (t3\<lparr>ht_values := replicate (ho_size options) empty_position\<rparr>, h')
           else Inl Null_Deref)"

definition hash_table_init ::
  "c_heap \<Rightarrow> nat \<Rightarrow> 'v hash_table_t \<Rightarrow> ('v hash_table_t \<times> c_heap) c_result" where
  "hash_table_init h r t0 =
     hash_table_init_ex h r t0
       \<lparr>ho_hasher = Some Knuth_Hash, ho_double_hasher = None, ho_comparer = Memcmp_Comparer,
        ho_strategy = PROBE_LINEAR, ho_size = 2 ^ 10\<rparr>"

section \<open>Probing\<close>

text \<open>The hash is an \<open>int\<close>: adding a \<open>size_t\<close> sign-extends it and wraps at 64 bits.\<close>

definition linear_probe :: "'v hash_table_t \<Rightarrow> u32 \<Rightarrow> nat \<Rightarrow> nat" where
  "linear_probe t hash i = unat ((scast hash :: u64) + of_nat i) mod ht_size t"

definition double_hash :: "'v hash_table_t \<Rightarrow> u32 \<Rightarrow> byte list \<Rightarrow> nat \<Rightarrow> nat c_result" where
  "double_hash t hash key i =
     (case ht_double_hasher t of
        None \<Rightarrow> Inl Assert_Failed
      | Some f \<Rightarrow>
          let second_hash = (word_of_nat (call_hasher f t key) OR 1 :: u32)
          in Inr (unat ((scast hash :: u64) + of_nat i * scast second_hash) mod ht_size t))"

definition probe :: "'v hash_table_t \<Rightarrow> u32 \<Rightarrow> byte list \<Rightarrow> nat \<Rightarrow> nat c_result" where
  "probe t hash key i =
     (case ht_strategy t of
        PROBE_LINEAR \<Rightarrow> Inr (linear_probe t hash i)
      | PROBE_DOUBLE_HASH \<Rightarrow> double_hash t hash key i
      | PROBE_QUADRATIC \<Rightarrow> Inl Assert_Failed)"

section \<open>Insertion, lookup, deletion\<close>

text \<open>
  \<open>(double)used / (double)size > 0.65f\<close>. The float \<open>0.65f\<close> is \<open>10905190 / 2^24\<close>. The quotient is exact
  for the power-of-two sizes the program uses, and for any size up to \<open>2^29\<close> its rounding cannot
  cross that constant, so the comparison is the one below.
\<close>

definition load_factor_exceeded :: "'v hash_table_t \<Rightarrow> bool" where
  "load_factor_exceeded t \<longleftrightarrow> 10905190 * ht_size t < ht_used t * 2 ^ 24"

text \<open>The loops run over the indices \<open>0, \<dots>, size - 1\<close> in order and stop early as the code does.\<close>

fun insert_loop ::
  "'v hash_table_t \<Rightarrow> u32 \<Rightarrow> byte list \<Rightarrow> 'v option \<Rightarrow> nat list \<Rightarrow> 'v hash_table_t c_result" where
  "insert_loop t hash key v [] = Inr t"
| "insert_loop t hash key v (i # is) =
     c_bind (probe t hash key i) (\<lambda>idx.
     c_bind (arr_get (ht_values t) idx) (\<lambda>position.
       if \<not> hp_in_use position
       then Inr (t\<lparr>ht_values := (ht_values t)[idx := \<lparr>hp_in_use = True, hp_key = key, hp_value = v\<rparr>],
                   ht_used := (ht_used t + 1) mod 2 ^ 64\<rparr>)
       else insert_loop t hash key v is))"

text \<open>\<open>rehash\<close> calls \<open>hash_table_insert\<close> again for every old entry; \<open>ins\<close> is that function.\<close>

fun reinsert ::
  "('v hash_table_t \<times> c_heap \<Rightarrow> byte list \<Rightarrow> 'v option \<Rightarrow> ('v hash_table_t \<times> c_heap) c_result) \<Rightarrow>
   'v hash_position_t list \<Rightarrow> 'v hash_table_t \<times> c_heap \<Rightarrow> ('v hash_table_t \<times> c_heap) c_result" where
  "reinsert ins [] th = Inr th"
| "reinsert ins (p # ps) th =
     (if hp_in_use p then c_bind (ins th (hp_key p) (hp_value p)) (reinsert ins ps)
      else reinsert ins ps th)"

definition rehash ::
  "('v hash_table_t \<times> c_heap \<Rightarrow> byte list \<Rightarrow> 'v option \<Rightarrow> ('v hash_table_t \<times> c_heap) c_result) \<Rightarrow>
   'v hash_table_t \<times> c_heap \<Rightarrow> ('v hash_table_t \<times> c_heap) c_result" where
  "rehash ins th =
     (case th of (t, h) \<Rightarrow>
        let size' = size_mul (ht_size t) 2 in
        case alloc h of (ok, h') \<Rightarrow>
          if ok then reinsert ins (ht_values t)
                  (t\<lparr>ht_size := size', ht_used := 0, ht_values := replicate size' empty_position\<rparr>, h')
          else Inl Null_Deref)"

text \<open>
  The recursion of \<open>hash_table_insert\<close> and \<open>rehash\<close> has no structural bound; \<open>fuel\<close> counts the nested
  rehashes. One is enough (\<open>insert_fuel_2\<close>): reinserting into a table of twice the size never
  reaches the load limit.
\<close>

primrec hash_table_insert_fuel ::
  "nat \<Rightarrow> 'v hash_table_t \<times> c_heap \<Rightarrow> byte list \<Rightarrow> 'v option \<Rightarrow> ('v hash_table_t \<times> c_heap) c_result" where
  "hash_table_insert_fuel 0 th key v = Inl No_Fuel"
| "hash_table_insert_fuel (Suc fuel) th key v =
     c_bind (if load_factor_exceeded (fst th) then rehash (hash_table_insert_fuel fuel) th else Inr th)
       (\<lambda>(t, h).
          c_bind (insert_loop t (word_of_nat (call_hasher (ht_hasher t) t key)) key v [0..<ht_size t])
            (\<lambda>t'. Inr (t', h)))"

declare hash_table_insert_fuel.simps [simp del]

definition hash_table_insert ::
  "'v hash_table_t \<times> c_heap \<Rightarrow> byte list \<Rightarrow> 'v option \<Rightarrow> ('v hash_table_t \<times> c_heap) c_result" where
  "hash_table_insert th key v = hash_table_insert_fuel 2 th key v"

fun lookup_loop :: "'v hash_table_t \<Rightarrow> u32 \<Rightarrow> byte list \<Rightarrow> nat list \<Rightarrow> nat option c_result" where
  "lookup_loop t hash key [] = Inr None"
| "lookup_loop t hash key (i # is) =
     c_bind (probe t hash key i) (\<lambda>idx.
     c_bind (arr_get (ht_values t) idx) (\<lambda>current.
       if \<not> hp_in_use current then lookup_loop t hash key is
       else if call_comparer (ht_comparer t) (hp_key current) key then Inr (Some idx)
       else lookup_loop t hash key is))"

text \<open>The position found, as its index in \<open>values\<close>.\<close>

definition hash_table_lookup_internal :: "'v hash_table_t \<Rightarrow> byte list \<Rightarrow> nat option c_result" where
  "hash_table_lookup_internal t key =
     lookup_loop t (word_of_nat (call_hasher (ht_hasher t) t key)) key [0..<ht_size t]"

definition hash_table_lookup :: "'v hash_table_t \<Rightarrow> byte list \<Rightarrow> 'v option c_result" where
  "hash_table_lookup t key =
     c_bind (hash_table_lookup_internal t key) (\<lambda>val.
       case val of None \<Rightarrow> Inr None
       | Some idx \<Rightarrow> c_bind (arr_get (ht_values t) idx) (\<lambda>p. Inr (hp_value p)))"

definition hash_table_delete :: "'v hash_table_t \<Rightarrow> byte list \<Rightarrow> 'v hash_table_t c_result" where
  "hash_table_delete t key =
     c_bind (hash_table_lookup_internal t key) (\<lambda>node.
       case node of None \<Rightarrow> Inr t
       | Some idx \<Rightarrow>
           Inr (t\<lparr>ht_values := (ht_values t)[idx := \<lparr>hp_in_use = False, hp_key = [], hp_value = None\<rparr>],
                  ht_used := size_sub (ht_used t) 1\<rparr>))"

section \<open>Every probe sequence visits the whole table\<close>

definition power_of_two :: "nat \<Rightarrow> bool" where
  "power_of_two n \<longleftrightarrow> (\<exists>k<32. n = 2 ^ k)"

definition ht_shape :: "'v hash_table_t \<Rightarrow> bool" where
  "ht_shape t \<longleftrightarrow> 0 < ht_size t \<and> ht_size t \<le> 2 ^ 31 \<and> length (ht_values t) = ht_size t \<and>
     (ht_strategy t = PROBE_LINEAR \<or>
      ht_strategy t = PROBE_DOUBLE_HASH \<and> ht_double_hasher t \<noteq> None \<and> power_of_two (ht_size t))"

lemma call_hasher_less: "0 < ht_size t \<Longrightarrow> call_hasher f t key < ht_size t"
  by (cases f) (simp_all add: knuth_hash_def fnv_hash_def Let_def)

lemma scast_small:
  assumes "n < 2 ^ 31"
  shows "(scast (word_of_nat n :: u32) :: u64) = word_of_nat n"
proof -
  have "signed_take_bit 31 (int n) = int n"
    using assms by (intro signed_take_bit_int_eq_self) auto
  then show ?thesis by (simp add: signed_of_nat)
qed

lemma linear_probe_value:
  assumes "hv < 2 ^ 31" and "i < 2 ^ 31"
  shows "linear_probe t (word_of_nat hv) i = (hv + i) mod ht_size t"
proof -
  have "unat (word_of_nat (hv + i) :: u64) = hv + i"
    using assms by (simp only: unat_of_nat) simp
  then show ?thesis using assms by (simp add: linear_probe_def scast_small)
qed

lemma bij_by_inj:
  fixes f :: "nat \<Rightarrow> nat"
  assumes "inj_on f {..<n}" and "\<And>i. i < n \<Longrightarrow> f i < n"
  shows "bij_betw f {..<n} {..<n}"
proof -
  have "f ` {..<n} = {..<n}" by (rule endo_inj_surj) (use assms in auto)
  then show ?thesis using assms(1) by (simp add: bij_betw_def)
qed

lemma mod_add_inj:
  fixes i j n a :: nat
  assumes "i < n" and "j < n" and "(a + i) mod n = (a + j) mod n"
  shows "i = j"
proof -
  obtain q1 q2 where "a + i + n * q1 = a + j + n * q2"
    using assms(3) by (auto simp: nat_mod_eq_iff)
  then have "i mod n = j mod n"
    by (auto simp: nat_mod_eq_iff intro: exI [of _ q1] exI [of _ q2])
  then show ?thesis using assms by simp
qed

lemma odd_second_hash: "odd (unat (scast (w OR 1 :: u32) :: u64))"
proof -
  have "bit (scast (w OR 1 :: u32) :: u64) 0" by (simp add: bit_simps)
  then have "bit (unat (scast (w OR 1 :: u32) :: u64)) 0" unfolding bit_unsigned_iff by simp
  then show ?thesis by (simp only: bit_0 not_False_eq_True)
qed

lemma odd_stride_inj_le:
  fixes x b :: u64
  assumes k: "k \<le> 64" and odd: "odd (unat b)" and ij: "i \<le> j" "j < 2 ^ k"
    and eq: "unat (x + of_nat i * b) mod 2 ^ k = unat (x + of_nat j * b) mod 2 ^ k"
  shows "i = j"
proof -
  have dv: "(2::nat) ^ k dvd 2 ^ 64" using k by (rule le_imp_power_dvd)
  have m: "unat (x + of_nat n * b) mod 2 ^ k = (unat x + n * unat b) mod 2 ^ k" for n
  proof -
    have "unat (x + of_nat n * b) = (unat x + n * unat b) mod 2 ^ 64"
      by (simp add: unat_word_ariths unat_of_nat mod_simps)
    then show ?thesis using dv by (simp only: mod_mod_cancel)
  qed
  have "2 ^ k dvd (unat x + j * unat b) - (unat x + i * unat b)"
    using eq m ij by (metis mod_eq_dvd_iff_nat add_le_cancel_left mult_le_mono1)
  then have "2 ^ k dvd (j - i) * unat b" by (simp add: diff_mult_distrib)
  moreover have "coprime (2 ^ k) (unat b)" using odd by simp
  ultimately have "2 ^ k dvd j - i" by (simp add: coprime_dvd_mult_left_iff)
  then show ?thesis
    using ij by (metis dvd_imp_le diff_is_0_eq le_antisym less_imp_diff_less not_less zero_less_iff_neq_zero)
qed

lemma odd_stride_inj:
  fixes x b :: u64
  assumes "k \<le> 64" and "odd (unat b)" and "i < 2 ^ k" and "j < 2 ^ k"
    and "unat (x + of_nat i * b) mod 2 ^ k = unat (x + of_nat j * b) mod 2 ^ k"
  shows "i = j"
  using odd_stride_inj_le [of k b i j x] odd_stride_inj_le [of k b j i x] assms
  by (cases "i \<le> j") auto

lemma probe_bij:
  assumes shape: "ht_shape t" and hv: "hv < 2 ^ 31"
  shows "\<exists>f. (\<forall>i<ht_size t. probe t (word_of_nat hv) key i = Inr (f i)) \<and>
             bij_betw f {..<ht_size t} {..<ht_size t}"
proof (cases "ht_strategy t = PROBE_LINEAR")
  case True
  let ?f = "\<lambda>i. (hv + i) mod ht_size t"
  have "probe t (word_of_nat hv) key i = Inr (?f i)" if "i < ht_size t" for i
    using True that shape hv linear_probe_value [of hv i t] by (simp add: probe_def ht_shape_def)
  moreover have "bij_betw ?f {..<ht_size t} {..<ht_size t}"
  proof (rule bij_by_inj)
    show "inj_on ?f {..<ht_size t}"
      by (intro inj_onI, rule mod_add_inj [of _ "ht_size t" _ hv]) simp_all
  qed (use shape in \<open>simp add: ht_shape_def\<close>)
  ultimately show ?thesis by (intro exI [of _ ?f] conjI allI impI)
next
  case False
  then obtain g k where g: "ht_strategy t = PROBE_DOUBLE_HASH" "ht_double_hasher t = Some g"
    and k: "k < 32" "ht_size t = 2 ^ k"
    using shape by (auto simp: ht_shape_def power_of_two_def)
  define b where "b = (scast (word_of_nat (call_hasher g t key) OR 1 :: u32) :: u64)"
  let ?f = "\<lambda>i. unat ((scast (word_of_nat hv :: u32) :: u64) + of_nat i * b) mod ht_size t"
  have "probe t (word_of_nat hv) key i = Inr (?f i)" for i
    using g by (simp add: probe_def double_hash_def b_def)
  moreover have "inj_on ?f {..<ht_size t}"
  proof (rule inj_onI)
    fix i j assume "i \<in> {..<ht_size t}" "j \<in> {..<ht_size t}" "?f i = ?f j"
    moreover have "odd (unat b)" unfolding b_def by (rule odd_second_hash)
    moreover have "k \<le> 64" using k(1) by simp
    ultimately show "i = j" using k(2) by (intro odd_stride_inj [of k b i j]) simp_all
  qed
  then have "bij_betw ?f {..<ht_size t} {..<ht_size t}"
    using shape by (intro bij_by_inj) (auto simp: ht_shape_def)
  ultimately show ?thesis by (intro exI [of _ ?f] conjI allI impI)
qed

section \<open>Invariant and abstraction\<close>

definition pos_assoc :: "'v hash_position_t list \<Rightarrow> (byte list \<times> 'v) list" where
  "pos_assoc ps = map (\<lambda>p. (hp_key p, the (hp_value p))) (filter hp_in_use ps)"

definition ht_map :: "'v hash_table_t \<Rightarrow> byte list \<Rightarrow> 'v option" where
  "ht_map t = map_of (pos_assoc (ht_values t))"

definition ht_count :: "'v hash_table_t \<Rightarrow> nat" where
  "ht_count t = length (pos_assoc (ht_values t))"

text \<open>
  \<open>used\<close> counts at least the stored entries (it may start too high, since it is never initialised);
  stored values are not NULL and stored keys are distinct.
\<close>

definition ht_inv :: "'v hash_table_t \<Rightarrow> bool" where
  "ht_inv t \<longleftrightarrow> ht_shape t \<and> ht_count t \<le> ht_used t \<and> ht_used t < 2 ^ 64 \<and>
     list_all (\<lambda>p. hp_in_use p \<longrightarrow> hp_value p \<noteq> None) (ht_values t) \<and>
     distinct (map fst (pos_assoc (ht_values t)))"

lemma pos_assoc_simps [simp]:
  "pos_assoc [] = []"
  "pos_assoc (p # ps) = (if hp_in_use p then (hp_key p, the (hp_value p)) # pos_assoc ps else pos_assoc ps)"
  "pos_assoc (ps @ qs) = pos_assoc ps @ pos_assoc qs"
  by (simp_all add: pos_assoc_def)

lemma pos_assoc_empty [simp]: "pos_assoc (replicate n empty_position) = []"
  by (induction n) (simp_all add: empty_position_def)

lemma empty_no_null [simp]:
  "list_all (\<lambda>p. hp_in_use p \<longrightarrow> (\<exists>y. hp_value p = Some y)) (replicate n empty_position)"
  by (simp add: list_all_length empty_position_def)

lemma pos_assoc_length: "length (pos_assoc ps) \<le> length ps"
  by (simp add: pos_assoc_def)

lemma pos_assoc_full: "length (pos_assoc ps) < length ps \<Longrightarrow> \<exists>p \<in> set ps. \<not> hp_in_use p"
  by (induction ps) (auto split: if_splits)

lemma pos_assoc_split:
  "idx < length ps \<Longrightarrow> pos_assoc ps = pos_assoc (take idx ps) @ pos_assoc [ps ! idx] @ pos_assoc (drop (Suc idx) ps)"
  by (metis append_Cons append_Nil id_take_nth_drop pos_assoc_simps(3))

lemma pos_assoc_update:
  "idx < length ps \<Longrightarrow>
   pos_assoc (ps[idx := q]) = pos_assoc (take idx ps) @ pos_assoc [q] @ pos_assoc (drop (Suc idx) ps)"
  by (metis append_Cons append_Nil upd_conv_take_nth_drop pos_assoc_simps(3))

section \<open>The loops find what they look for\<close>

lemma call_comparer_eq: "call_comparer c a b \<longleftrightarrow> a = b"
  by (cases c) (auto simp: memcmp_comparer_def)

lemma lookup_loop_find:
  assumes "\<And>i. i \<in> set is \<Longrightarrow> probe t hash key i = Inr (f i) \<and> f i < length (ht_values t)"
  shows "lookup_loop t hash key is =
         Inr (find (\<lambda>idx. hp_in_use (ht_values t ! idx) \<and> hp_key (ht_values t ! idx) = key) (map f is))"
  using assms by (induction "is") (auto simp: call_comparer_eq)

lemma insert_loop_find:
  assumes "\<And>i. i \<in> set is \<Longrightarrow> probe t hash key i = Inr (f i) \<and> f i < length (ht_values t)"
  shows "insert_loop t hash key v is =
         (case find (\<lambda>idx. \<not> hp_in_use (ht_values t ! idx)) (map f is) of
            None \<Rightarrow> Inr t
          | Some idx \<Rightarrow>
              Inr (t\<lparr>ht_values := (ht_values t)[idx := \<lparr>hp_in_use = True, hp_key = key, hp_value = v\<rparr>],
                     ht_used := (ht_used t + 1) mod 2 ^ 64\<rparr>))"
  using assms by (induction "is") auto

lemma find_bij:
  assumes "bij_betw f {..<n} {..<n}"
  shows "find P (map f [0..<n]) = None \<longleftrightarrow> (\<forall>i<n. \<not> P i)"
    and "find P (map f [0..<n]) = Some i \<Longrightarrow> i < n \<and> P i"
proof -
  have im: "f ` {..<n} = {..<n}" using assms by (simp add: bij_betw_def)
  then have st: "set (map f [0..<n]) = {..<n}" by (simp add: atLeast0LessThan)
  show "find P (map f [0..<n]) = None \<longleftrightarrow> (\<forall>i<n. \<not> P i)"
    unfolding find_None_iff using st by blast
  assume "find P (map f [0..<n]) = Some i"
  then obtain k where "k < n" and "P (map f [0..<n] ! k)" and "i = map f [0..<n] ! k"
    by (auto simp: find_Some_iff)
  then show "i < n \<and> P i" using im by auto
qed

lemma lookup_internal_spec:
  assumes inv: "ht_inv t"
  obtains "hash_table_lookup_internal t key = Inr None"
      and "\<forall>p \<in> set (ht_values t). hp_in_use p \<longrightarrow> hp_key p \<noteq> key"
  | idx where "hash_table_lookup_internal t key = Inr (Some idx)" and "idx < length (ht_values t)"
      and "hp_in_use (ht_values t ! idx)" and "hp_key (ht_values t ! idx) = key"
proof -
  have shape: "ht_shape t" and len: "length (ht_values t) = ht_size t" and sz: "0 < ht_size t" "ht_size t \<le> 2 ^ 31"
    using inv by (simp_all add: ht_inv_def ht_shape_def)
  let ?hv = "call_hasher (ht_hasher t) t key"
  have "?hv < 2 ^ 31" using call_hasher_less [OF sz(1), of "ht_hasher t" key] sz(2) by linarith
  then obtain f where f: "\<forall>i<ht_size t. probe t (word_of_nat ?hv) key i = Inr (f i)"
    "bij_betw f {..<ht_size t} {..<ht_size t}"
    using probe_bij [OF shape] by blast
  have "f i < ht_size t" if "i < ht_size t" for i using f(2) that by (auto simp: bij_betw_def)
  then have lk: "hash_table_lookup_internal t key =
      Inr (find (\<lambda>idx. hp_in_use (ht_values t ! idx) \<and> hp_key (ht_values t ! idx) = key) (map f [0..<ht_size t]))"
    unfolding hash_table_lookup_internal_def using f(1) len by (intro lookup_loop_find) simp
  show ?thesis
  proof (cases "find (\<lambda>idx. hp_in_use (ht_values t ! idx) \<and> hp_key (ht_values t ! idx) = key) (map f [0..<ht_size t])")
    case None
    then have "\<forall>p \<in> set (ht_values t). hp_in_use p \<longrightarrow> hp_key p \<noteq> key"
      using find_bij(1) [OF f(2)] len by (auto simp: in_set_conv_nth)
    then show ?thesis using that(1) lk None by simp
  next
    case (Some idx)
    then show ?thesis using that(2) lk find_bij(2) [OF f(2) Some] len by simp
  qed
qed

lemma assoc_of_position:
  "idx < length ps \<Longrightarrow> hp_in_use (ps ! idx) \<Longrightarrow> (hp_key (ps ! idx), the (hp_value (ps ! idx))) \<in> set (pos_assoc ps)"
  by (auto simp: pos_assoc_def)

lemma hash_table_lookup_map:
  assumes "ht_inv t"
  shows "hash_table_lookup t key = Inr (ht_map t key)"
  using assms
proof (cases rule: lookup_internal_spec [of t key])
  case 1
  then have "key \<notin> fst ` set (pos_assoc (ht_values t))" by (auto simp: pos_assoc_def)
  then show ?thesis using 1 by (simp add: hash_table_lookup_def ht_map_def map_of_eq_None_iff [THEN iffD2])
next
  case (2 idx)
  have d: "distinct (map fst (pos_assoc (ht_values t)))" using assms by (simp add: ht_inv_def)
  obtain v where v: "hp_value (ht_values t ! idx) = Some v"
    using assms 2(2,3) by (auto simp: ht_inv_def list_all_length)
  then have "map_of (pos_assoc (ht_values t)) key = Some v"
    using 2(4) map_of_eq_Some_iff [OF d] assoc_of_position [OF 2(2,3)] by simp
  then show ?thesis using 2 v by (simp add: hash_table_lookup_def ht_map_def)
qed

section \<open>Insertion\<close>

lemma map_of_insert_mid:
  "k \<notin> fst ` set (xs @ ys) \<Longrightarrow> map_of (xs @ (k, v) # ys) = (map_of (xs @ ys))(k \<mapsto> v)"
  by (induction xs) (auto simp: fun_upd_twist)

lemma insert_loop_ok:
  assumes inv: "ht_inv t" and free: "ht_count t < ht_size t" and fresh: "ht_map t key = None"
    and hv: "hv < 2 ^ 31" and used: "Suc (ht_used t) < 2 ^ 64"
  shows "\<exists>t'. insert_loop t (word_of_nat hv) key (Some v) [0..<ht_size t] = Inr t' \<and> ht_inv t' \<and>
              ht_map t' = (ht_map t)(key \<mapsto> v) \<and> ht_size t' = ht_size t \<and>
              ht_count t' = Suc (ht_count t) \<and> ht_used t' = Suc (ht_used t) \<and> ht_hasher t' = ht_hasher t"
proof -
  have shape: "ht_shape t" and len: "length (ht_values t) = ht_size t"
    using inv by (simp_all add: ht_inv_def ht_shape_def)
  obtain f where f: "\<forall>i<ht_size t. probe t (word_of_nat hv) key i = Inr (f i)"
    "bij_betw f {..<ht_size t} {..<ht_size t}"
    using probe_bij [OF shape hv] by blast
  have fl: "f i < ht_size t" if "i < ht_size t" for i using f(2) that by (auto simp: bij_betw_def)
  let ?P = "\<lambda>idx. \<not> hp_in_use (ht_values t ! idx)"
  have "\<exists>p \<in> set (ht_values t). \<not> hp_in_use p"
    using free len by (intro pos_assoc_full) (simp add: ht_count_def)
  then have "find ?P (map f [0..<ht_size t]) \<noteq> None"
    using find_bij(1) [OF f(2), of ?P] len by (auto simp: in_set_conv_nth)
  then obtain idx where idx: "find ?P (map f [0..<ht_size t]) = Some idx" by blast
  have ib: "idx < length (ht_values t)" "\<not> hp_in_use (ht_values t ! idx)"
    using find_bij(2) [OF f(2) idx] len by simp_all
  let ?q = "\<lparr>hp_in_use = True, hp_key = key, hp_value = Some v\<rparr>"
  let ?t = "t\<lparr>ht_values := (ht_values t)[idx := ?q], ht_used := ht_used t + 1\<rparr>"
  have ins: "insert_loop t (word_of_nat hv) key (Some v) [0..<ht_size t] = Inr ?t"
    using insert_loop_find [of "[0..<ht_size t]" t "word_of_nat hv" key f "Some v"] f(1) fl len idx used by simp
  define A where "A = pos_assoc (take idx (ht_values t))"
  define B where "B = pos_assoc (drop (Suc idx) (ht_values t))"
  have old: "pos_assoc (ht_values t) = A @ B"
    using pos_assoc_split [OF ib(1)] ib(2) by (simp add: A_def B_def)
  have new: "pos_assoc (ht_values ?t) = A @ (key, v) # B"
    using pos_assoc_update [OF ib(1), of ?q] by (simp add: A_def B_def)
  have nk: "key \<notin> fst ` set (A @ B)" using fresh old by (simp add: ht_map_def map_of_eq_None_iff image_Un)
  have "list_all (\<lambda>p. hp_in_use p \<longrightarrow> hp_value p \<noteq> None) (ht_values ?t)"
    using inv ib(1) by (auto simp: ht_inv_def list_all_length nth_list_update)
  then have "ht_inv ?t"
    using inv old new nk shape used by (auto simp: ht_inv_def ht_count_def ht_shape_def image_iff)
  moreover have "ht_map ?t = (ht_map t)(key \<mapsto> v)"
    unfolding ht_map_def new old by (rule map_of_insert_mid [OF nk])
  moreover have "ht_count ?t = Suc (ht_count t)" unfolding ht_count_def new old by simp
  ultimately show ?thesis using ins by auto
qed

lemma not_exceeded_free:
  assumes "ht_inv t" and "\<not> load_factor_exceeded t"
  shows "ht_count t < ht_size t" and "Suc (ht_used t) < 2 ^ 64"
proof -
  have "ht_count t \<le> ht_used t" and "0 < ht_size t" and "ht_size t \<le> 2 ^ 31"
    using assms(1) by (simp_all add: ht_inv_def ht_shape_def)
  moreover have "ht_used t * 16777216 \<le> 10905190 * ht_size t"
    using assms(2) by (simp add: load_factor_exceeded_def)
  ultimately show "ht_count t < ht_size t" and "Suc (ht_used t) < 2 ^ 64" by simp_all
qed

lemma insert_no_rehash:
  assumes inv: "ht_inv t" and calm: "\<not> load_factor_exceeded t" and fresh: "ht_map t key = None"
  shows "\<exists>t'. hash_table_insert_fuel (Suc n) (t, h) key (Some v) = Inr (t', h) \<and> ht_inv t' \<and>
              ht_map t' = (ht_map t)(key \<mapsto> v) \<and> ht_size t' = ht_size t \<and>
              ht_count t' = Suc (ht_count t) \<and> ht_used t' = Suc (ht_used t)"
proof -
  have sz: "0 < ht_size t" "ht_size t \<le> 2 ^ 31" using inv by (simp_all add: ht_inv_def ht_shape_def)
  have hv: "call_hasher (ht_hasher t) t key < 2 ^ 31"
    using call_hasher_less [OF sz(1), of "ht_hasher t" key] sz(2) by linarith
  show ?thesis
    using insert_loop_ok [OF inv not_exceeded_free(1) [OF inv calm] fresh hv not_exceeded_free(2) [OF inv calm], of v] calm
    by (auto simp: hash_table_insert_fuel.simps)
qed

lemma reinsert_ok:
  "ht_inv t \<Longrightarrow> ht_used t = ht_count t \<Longrightarrow> 2 * (ht_count t + length ps) \<le> ht_size t \<Longrightarrow>
   distinct (map fst (pos_assoc ps)) \<Longrightarrow> list_all (\<lambda>p. hp_in_use p \<longrightarrow> hp_value p \<noteq> None) ps \<Longrightarrow>
   fst ` set (pos_assoc ps) \<inter> dom (ht_map t) = {} \<Longrightarrow>
   \<exists>t'. reinsert (hash_table_insert_fuel (Suc n)) ps (t, h) = Inr (t', h) \<and> ht_inv t' \<and>
        ht_used t' = ht_count t' \<and> ht_size t' = ht_size t \<and>
        ht_count t' = ht_count t + length (pos_assoc ps) \<and> ht_map t' = ht_map t ++ map_of (pos_assoc ps)"
proof (induction ps arbitrary: t)
  case Nil
  then show ?case by simp
next
  case (Cons p ps)
  show ?case
  proof (cases "hp_in_use p")
    case False
    then show ?thesis using Cons.IH [of t] Cons.prems by simp
  next
    case True
    obtain v where v: "hp_value p = Some v" using Cons.prems(5) True by auto
    have fresh: "ht_map t (hp_key p) = None" using Cons.prems(6) True by auto
    have calm: "\<not> load_factor_exceeded t" using Cons.prems(2,3) by (simp add: load_factor_exceeded_def)
    obtain t1 where t1: "hash_table_insert_fuel (Suc n) (t, h) (hp_key p) (Some v) = Inr (t1, h)"
      "ht_inv t1" "ht_map t1 = (ht_map t)(hp_key p \<mapsto> v)" "ht_size t1 = ht_size t"
      "ht_count t1 = Suc (ht_count t)" "ht_used t1 = Suc (ht_used t)"
      using insert_no_rehash [OF Cons.prems(1) calm fresh, of n h v] by blast
    have key: "hp_key p \<notin> fst ` set (pos_assoc ps)" using Cons.prems(4) True by simp
    obtain t2 where t2: "reinsert (hash_table_insert_fuel (Suc n)) ps (t1, h) = Inr (t2, h)" "ht_inv t2"
      "ht_used t2 = ht_count t2" "ht_size t2 = ht_size t1"
      "ht_count t2 = ht_count t1 + length (pos_assoc ps)" "ht_map t2 = ht_map t1 ++ map_of (pos_assoc ps)"
    proof -
      have "2 * (ht_count t1 + length ps) \<le> ht_size t1" "ht_used t1 = ht_count t1"
        using Cons.prems(2,3) t1(4,5,6) by simp_all
      moreover have "fst ` set (pos_assoc ps) \<inter> dom (ht_map t1) = {}"
        using Cons.prems(6) t1(3) True key by auto
      ultimately show thesis using Cons.IH [OF t1(2)] Cons.prems(4,5) True that by auto
    qed
    have "ht_map t2 = ht_map t ++ map_of (pos_assoc (p # ps))"
      using t2(6) t1(3) True v key by (simp add: map_add_upd_left map_of_eq_None_iff dom_map_of_conv_image_fst)
    moreover have "reinsert (hash_table_insert_fuel (Suc n)) (p # ps) (t, h) = Inr (t2, h)"
      using t1(1) t2(1) True v by simp
    moreover have "ht_count t2 = ht_count t + length (pos_assoc (p # ps))"
      using t1(5) t2(5) True by simp
    ultimately show ?thesis using t2(2-4) t1(4) by auto
  qed
qed

lemma shape_doubled:
  assumes "ht_shape t" and "2 * ht_size t \<le> 2 ^ 31"
  shows "ht_shape (t\<lparr>ht_size := 2 * ht_size t, ht_used := 0, ht_values := replicate (2 * ht_size t) empty_position\<rparr>)"
proof -
  have "power_of_two (2 * ht_size t)" if pow: "power_of_two (ht_size t)"
  proof -
    obtain k where k: "ht_size t = 2 ^ k" using pow unfolding power_of_two_def by blast
    have "2 ^ Suc k \<le> (2::nat) ^ 31" using assms(2) unfolding k power_Suc .
    then have "Suc k \<le> 31" by (rule power_le_imp_le_exp [rotated]) simp
    then show ?thesis unfolding power_of_two_def k by (intro exI [of _ "Suc k"]) simp
  qed
  then show ?thesis using assms by (auto simp: ht_shape_def)
qed

lemma rehash_ok:
  assumes inv: "ht_inv t" and ok: "heap_ok h" and sz: "2 * ht_size t \<le> 2 ^ 31"
  shows "\<exists>t'. rehash (hash_table_insert_fuel (Suc n)) (t, h) = Inr (t', h) \<and> ht_inv t' \<and>
              ht_map t' = ht_map t \<and> ht_size t' = 2 * ht_size t \<and> ht_count t' = ht_count t \<and>
              ht_used t' = ht_count t'"
proof -
  let ?t = "t\<lparr>ht_size := 2 * ht_size t, ht_used := 0, ht_values := replicate (2 * ht_size t) empty_position\<rparr>"
  have shape: "ht_shape t" using inv by (simp add: ht_inv_def)
  then have len: "length (ht_values t) = ht_size t" by (simp add: ht_shape_def)
  have it: "ht_inv ?t" "ht_count ?t = 0" "ht_map ?t = Map.empty"
    using shape_doubled [OF shape sz] by (simp_all add: ht_inv_def ht_count_def ht_map_def)
  have m: "size_mul (ht_size t) 2 = 2 * ht_size t" using sz by (simp add: size_mul_def mult.commute)
  have pre: "2 * (ht_count ?t + length (ht_values t)) \<le> ht_size ?t" "ht_used ?t = ht_count ?t"
    using it(2) len by simp_all
  have "distinct (map fst (pos_assoc (ht_values t)))"
    "list_all (\<lambda>p. hp_in_use p \<longrightarrow> hp_value p \<noteq> None) (ht_values t)"
    using inv by (simp_all add: ht_inv_def)
  then obtain t' where t': "reinsert (hash_table_insert_fuel (Suc n)) (ht_values t) (?t, h) = Inr (t', h)"
    "ht_inv t'" "ht_used t' = ht_count t'" "ht_size t' = ht_size ?t"
    "ht_count t' = ht_count ?t + length (pos_assoc (ht_values t))"
    "ht_map t' = ht_map ?t ++ map_of (pos_assoc (ht_values t))"
    using reinsert_ok [OF it(1) pre(2,1), of n h] it(3) by auto
  then show ?thesis
    using ok m it by (simp add: rehash_def Let_def ht_map_def ht_count_def)
qed

text \<open>
  \<open>ht_room n t\<close>: \<open>n\<close> more entries can be stored before the table would have to grow past the \<open>2^31\<close>
  positions an \<open>int\<close> hash can address.
\<close>

definition ht_room :: "nat \<Rightarrow> 'v hash_table_t \<Rightarrow> bool" where
  "ht_room n t \<longleftrightarrow> ht_count t + n \<le> 2 ^ 29 \<and> (ht_used t = ht_count t \<or> ht_size t \<le> 2 ^ 30)"

lemma insert_fuel_2:
  assumes inv: "ht_inv t" and ok: "heap_ok h" and room: "ht_room (Suc n) t" and fresh: "ht_map t key = None"
  shows "\<exists>t'. hash_table_insert (t, h) key (Some v) = Inr (t', h) \<and> ht_inv t' \<and>
              ht_map t' = (ht_map t)(key \<mapsto> v) \<and> ht_room n t'"
proof (cases "load_factor_exceeded t")
  case False
  then show ?thesis
    using insert_no_rehash [OF inv False fresh, of 1 h v] room
    by (auto simp: hash_table_insert_def numeral_2_eq_2 ht_room_def)
next
  case True
  have sz: "2 * ht_size t \<le> 2 ^ 31"
    using room True by (auto simp: ht_room_def load_factor_exceeded_def)
  obtain t1 where t1: "rehash (hash_table_insert_fuel (Suc 0)) (t, h) = Inr (t1, h)" "ht_inv t1"
    "ht_map t1 = ht_map t" "ht_size t1 = 2 * ht_size t" "ht_count t1 = ht_count t" "ht_used t1 = ht_count t1"
    using rehash_ok [OF inv ok sz, of 0] by blast
  have "ht_count t \<le> ht_size t"
    using pos_assoc_length [of "ht_values t"] inv by (simp add: ht_count_def ht_inv_def ht_shape_def)
  then have calm: "\<not> load_factor_exceeded t1" using t1 by (simp add: load_factor_exceeded_def)
  have eq: "hash_table_insert_fuel (Suc (Suc 0)) (t, h) key (Some v) =
            hash_table_insert_fuel (Suc (Suc 0)) (t1, h) key (Some v)"
    using True calm t1(1) by (simp add: hash_table_insert_fuel.simps(2) [of "Suc 0"])
  then show ?thesis
    using insert_no_rehash [OF t1(2) calm, of key "Suc 0" h v] t1 fresh room
    by (auto simp: hash_table_insert_def numeral_2_eq_2 ht_room_def)
qed

section \<open>Deletion and initialisation\<close>

lemma map_of_delete_mid:
  "distinct (map fst (xs @ (k, v) # ys)) \<Longrightarrow> map_of (xs @ ys) = (map_of (xs @ (k, v) # ys))(k := None)"
proof (induction xs)
  case Nil
  then have "map_of ys k = None" by (simp add: map_of_eq_None_iff)
  then show ?case by (auto simp: fun_eq_iff)
qed (auto simp: fun_upd_twist)

lemma hash_table_delete_ok:
  assumes inv: "ht_inv t"
  shows "\<exists>t'. hash_table_delete t key = Inr t' \<and> ht_inv t' \<and> ht_map t' = (ht_map t)(key := None)"
  using inv
proof (cases rule: lookup_internal_spec [of t key])
  case 1
  then have "ht_map t key = None" by (auto simp: ht_map_def map_of_eq_None_iff pos_assoc_def)
  then show ?thesis using 1 inv by (simp add: hash_table_delete_def fun_upd_idem)
next
  case (2 idx)
  define A where "A = pos_assoc (take idx (ht_values t))"
  define B where "B = pos_assoc (drop (Suc idx) (ht_values t))"
  let ?q = "\<lparr>hp_in_use = False, hp_key = [], hp_value = None\<rparr>"
  let ?t = "t\<lparr>ht_values := (ht_values t)[idx := ?q], ht_used := size_sub (ht_used t) 1\<rparr>"
  obtain v where old: "pos_assoc (ht_values t) = A @ (key, v) # B"
    using pos_assoc_split [OF 2(2)] 2(3,4) by (simp add: A_def B_def)
  have new: "pos_assoc (ht_values ?t) = A @ B"
    using pos_assoc_update [OF 2(2), of ?q] by (simp add: A_def B_def)
  have d: "distinct (map fst (A @ (key, v) # B))" using inv old by (simp add: ht_inv_def)
  have "list_all (\<lambda>p. hp_in_use p \<longrightarrow> hp_value p \<noteq> None) (ht_values ?t)"
    using inv 2(2) by (auto simp: ht_inv_def list_all_length nth_list_update)
  moreover have "0 < ht_used t" "ht_used t < 2 ^ 64" using inv old by (simp_all add: ht_inv_def ht_count_def)
  then have "size_sub (ht_used t) 1 = ht_used t - 1" by (simp add: size_sub_exact)
  ultimately have "ht_inv ?t" using inv old new d by (auto simp: ht_inv_def ht_count_def ht_shape_def)
  moreover have "ht_map ?t = (ht_map t)(key := None)"
    unfolding ht_map_def new old by (rule map_of_delete_mid [OF d])
  ultimately show ?thesis using 2(1) by (auto simp: hash_table_delete_def)
qed

lemma hash_table_init_ok:
  assumes "heap_ok h"
  shows "\<exists>t. hash_table_init h r t0 = Inr (t, h) \<and> ht_inv t \<and> ht_map t = Map.empty \<and>
             ht_size t = 1024 \<and> (n \<le> 2 ^ 29 \<longrightarrow> ht_room n t)"
proof -
  have "power_of_two 1024" unfolding power_of_two_def by (rule exI [of _ 10]) simp
  then show ?thesis
    using assms by (simp add: hash_table_init_def hash_table_init_ex_def Let_def ht_inv_def ht_shape_def
        ht_count_def ht_map_def ht_room_def)
qed

section \<open>The contract\<close>

text \<open>
  What a client of the table may rely on. \<open>content\<close> is the map the table stands for; a key may only be
  inserted when it is not there yet (the C code does not look for an old entry), and \<open>room n\<close> says
  that \<open>n\<close> more insertions will succeed.
\<close>

locale assoc_table =
  fixes inv :: "'t \<Rightarrow> bool"
    and room :: "nat \<Rightarrow> 't \<Rightarrow> bool"
    and content :: "'t \<Rightarrow> 'k \<Rightarrow> 'v option"
    and lookup :: "'t \<Rightarrow> 'k \<Rightarrow> 'v option c_result"
    and ins :: "'t \<Rightarrow> 'k \<Rightarrow> 'v option \<Rightarrow> 't c_result"
    and del :: "'t \<Rightarrow> 'k \<Rightarrow> 't c_result"
  assumes lookup_ok: "inv t \<Longrightarrow> lookup t k = Inr (content t k)"
    and ins_ok: "inv t \<Longrightarrow> room (Suc n) t \<Longrightarrow> content t k = None \<Longrightarrow>
           \<exists>t'. ins t k (Some v) = Inr t' \<and> inv t' \<and> content t' = (content t)(k \<mapsto> v) \<and> room n t'"
    and del_ok: "inv t \<Longrightarrow> \<exists>t'. del t k = Inr t' \<and> inv t' \<and> content t' = (content t)(k := None)"
begin

primrec ins_all :: "('k \<times> 'v) list \<Rightarrow> 't \<Rightarrow> 't c_result" where
  "ins_all [] t = Inr t"
| "ins_all (kv # kvs) t = c_bind (ins t (fst kv) (Some (snd kv))) (ins_all kvs)"

text \<open>Storing the pairs of a dictionary one by one yields exactly that dictionary.\<close>

lemma ins_all_ok:
  "inv t \<Longrightarrow> room (length kvs) t \<Longrightarrow> distinct (map fst kvs) \<Longrightarrow>
   fst ` set kvs \<inter> dom (content t) = {} \<Longrightarrow>
   \<exists>t'. ins_all kvs t = Inr t' \<and> inv t' \<and> content t' = content t ++ map_of kvs"
proof (induction kvs arbitrary: t)
  case Nil
  then show ?case by simp
next
  case (Cons kv kvs)
  obtain k v where kv: "kv = (k, v)" by (cases kv)
  have "content t k = None" using Cons.prems(4) kv by auto
  then obtain t1 where t1: "ins t k (Some v) = Inr t1" "inv t1" "content t1 = (content t)(k \<mapsto> v)"
    "room (length kvs) t1"
    using ins_ok [OF Cons.prems(1), of "length kvs" k v] Cons.prems(2) by auto
  have nk: "k \<notin> fst ` set kvs" using Cons.prems(3) kv by simp
  then have "fst ` set kvs \<inter> dom (content t1) = {}" using Cons.prems(4) t1(3) kv by auto
  then obtain t2 where t2: "ins_all kvs t1 = Inr t2" "inv t2" "content t2 = content t1 ++ map_of kvs"
    using Cons.IH [OF t1(2,4)] Cons.prems(3) by auto
  have "k \<notin> dom (map_of kvs)" using nk by (simp add: dom_map_of_conv_image_fst)
  then have "content t2 = content t ++ map_of (kv # kvs)"
    using t2(3) t1(3) kv by (simp add: map_add_upd_left)
  moreover have "ins_all (kv # kvs) t = Inr t2" using t1(1) t2(1) kv by simp
  ultimately show ?case using t2(2) by blast
qed

lemma lookup_after_ins_all:
  assumes "inv t" and "room (length kvs) t" and "distinct (map fst kvs)" and "content t = Map.empty"
  shows "\<exists>t'. ins_all kvs t = Inr t' \<and> inv t' \<and> (\<forall>k. lookup t' k = Inr (map_of kvs k))"
proof -
  obtain t' where "ins_all kvs t = Inr t'" "inv t'" "content t' = content t ++ map_of kvs"
    using ins_all_ok [OF assms(1-3)] assms(4) by auto
  then show ?thesis using lookup_ok assms(4) by auto
qed

end

interpretation ht: assoc_table
  "\<lambda>(t, h). ht_inv t \<and> heap_ok h" "\<lambda>n (t, h). ht_room n t" "\<lambda>(t, h). ht_map t"
  "\<lambda>(t, h). hash_table_lookup t" "hash_table_insert"
  "\<lambda>(t, h) k. c_bind (hash_table_delete t k) (\<lambda>t'. Inr (t', h))"
proof (unfold_locales, goal_cases)
  case (1 th k)
  then show ?case by (cases th) (simp add: hash_table_lookup_map)
next
  case (2 th n k v)
  obtain t h where th: "th = (t, h)" by (cases th)
  then show ?case using 2 insert_fuel_2 [of t h n k v] by fastforce
next
  case (3 th k)
  obtain t h where th: "th = (t, h)" by (cases th)
  then show ?case using 3 hash_table_delete_ok [of t k] by fastforce
qed

section \<open>Properties\<close>

text \<open>A sequence of \<open>hash_table_insert\<close> calls.\<close>

fun insert_all :: "(byte list \<times> 'v) list \<Rightarrow> 'v hash_table_t \<times> c_heap \<Rightarrow> ('v hash_table_t \<times> c_heap) c_result" where
  "insert_all [] th = Inr th"
| "insert_all ((k, v) # kvs) th = c_bind (hash_table_insert th k (Some v)) (insert_all kvs)"

lemma insert_all_eq: "insert_all kvs = ht.ins_all kvs"
proof (induction kvs)
  case Nil
  then show ?case by (rule ext) simp
next
  case (Cons kv kvs)
  then show ?case by (cases kv) (auto intro!: ext)
qed

text \<open>
  C10. Insert-lookup round trip. Starting from \<open>hash_table_init\<close>, whatever the uninitialised \<open>used\<close>
  field and the random shift hold, inserting the pairs of an association list with distinct keys and
  then looking any key up gives the value of that key, or NULL when it was never inserted. The
  table may be rehashed on the way any number of times; no call leaves the array or diverges.
\<close>

theorem hash_table_roundtrip:
  assumes "heap_ok h" and "distinct (map fst kvs)" and "length kvs \<le> 2 ^ 29"
  shows "\<exists>t t' h'. hash_table_init h r t0 = Inr (t, h) \<and> insert_all kvs (t, h) = Inr (t', h') \<and>
           (\<forall>k. hash_table_lookup t' k = Inr (map_of kvs k))"
proof -
  obtain t where t: "hash_table_init h r t0 = Inr (t, h)" "ht_inv t" "ht_map t = Map.empty"
    "ht_room (length kvs) t"
    using hash_table_init_ok [OF assms(1), of r t0 "length kvs"] assms(3) by blast
  then obtain th where "ht.ins_all kvs (t, h) = Inr th"
    "\<forall>k. (case th of (t, h) \<Rightarrow> hash_table_lookup t) k = Inr (map_of kvs k)"
    using ht.lookup_after_ins_all [of "(t, h)" kvs] assms by auto
  then show ?thesis using t(1) by (cases th) (auto simp: insert_all_eq)
qed

theorem hash_table_roundtrip_witness:
  "\<exists>t t' h'. hash_table_init calm_heap 5
       (undefined :: nat hash_table_t) = Inr (t, calm_heap) \<and>
     insert_all [([97], 1), ([98], 2)] (t, calm_heap) = Inr (t', h') \<and>
     hash_table_lookup t' [97] = Inr (Some 1) \<and> hash_table_lookup t' [98] = Inr (Some 2) \<and>
     hash_table_lookup t' [99] = Inr None"
  using hash_table_roundtrip [of calm_heap "[([97], 1), ([98], 2::nat)]" 5 undefined] by fastforce

text \<open>
  C39. Both probe strategies visit every position exactly once: for linear probing on any table size,
  and for double hashing on a power-of-two size (the header's claim that an odd second hash makes
  the whole table be searched, with the sign extension and the 64-bit wrap-around of the C code).
\<close>

theorem probe_visits_whole_table:
  assumes "ht_shape t"
  shows "\<exists>f. (\<forall>i<ht_size t. probe t (word_of_nat (call_hasher (ht_hasher t) t key)) key i = Inr (f i)) \<and>
             bij_betw f {..<ht_size t} {..<ht_size t}"
proof (rule probe_bij [OF assms])
  have sz: "0 < ht_size t" "ht_size t \<le> 2 ^ 31" using assms by (simp_all add: ht_shape_def)
  show "call_hasher (ht_hasher t) t key < 2 ^ 31"
    using call_hasher_less [OF sz(1), of "ht_hasher t" key] sz(2) by linarith
qed

definition double_hash_example :: "nat hash_table_t" where
  "double_hash_example = \<lparr>ht_strategy = PROBE_DOUBLE_HASH, ht_hasher = Knuth_Hash,
     ht_comparer = Memcmp_Comparer, ht_double_hasher = Some Fnv_Hash, ht_size = 8, ht_p = 3,
     ht_values = replicate 8 empty_position, ht_used = 0\<rparr>"

theorem probe_visits_whole_table_witness:
  "\<exists>f. (\<forall>i<8. probe double_hash_example (word_of_nat (call_hasher Knuth_Hash double_hash_example [97])) [97] i
              = Inr (f i)) \<and> bij_betw f {..<8} {..<8}"
proof -
  have "power_of_two 8" unfolding power_of_two_def by (rule exI [of _ 3]) simp
  then have "ht_shape double_hash_example" by (simp add: ht_shape_def double_hash_example_def)
  then show ?thesis
    using probe_visits_whole_table [of double_hash_example "[97]"] by (simp add: double_hash_example_def)
qed

text \<open>
  Deletion. On a table with the invariant \<open>hash_table_delete\<close> removes exactly the given key: it is
  no longer found, every other key keeps its value, and the invariant is preserved (lookups skip
  free positions instead of stopping there, so no marker for deleted entries is needed).
\<close>

theorem hash_table_delete_removes:
  assumes "ht_inv t"
  shows "\<exists>t'. hash_table_delete t key = Inr t' \<and> ht_inv t' \<and>
           (\<forall>k. hash_table_lookup t' k = (if k = key then Inr None else hash_table_lookup t k))"
  using hash_table_delete_ok [OF assms, of key] hash_table_lookup_map [OF assms] hash_table_lookup_map
  by fastforce

definition delete_example :: "nat hash_table_t" where
  "delete_example = double_hash_example\<lparr>ht_used := 1, ht_values :=
     \<lparr>hp_in_use = True, hp_key = [97], hp_value = Some 1\<rparr> # replicate 7 empty_position\<rparr>"

theorem hash_table_delete_removes_witness:
  "\<exists>t'. hash_table_delete delete_example [97] = Inr t' \<and> hash_table_lookup t' [97] = Inr None"
proof -
  have "power_of_two 8" unfolding power_of_two_def by (rule exI [of _ 3]) simp
  then have "ht_inv delete_example"
    by (simp add: delete_example_def double_hash_example_def ht_inv_def ht_shape_def ht_count_def)
  then show ?thesis using hash_table_delete_removes [of delete_example "[97]"] by auto
qed

end
