(* ===== verification/Net_Stream.thy ===== *)
theory Net_Stream
  imports Prelude
begin

text \<open>
  A connected stream socket, and the two loops of \<open>src/peer-msg/peer_msg.c\<close> that move whole buffers
  over it (\<open>send_buff\<close> and \<open>peer_recv\<close>).

  The operating system decides how many bytes one \<open>send\<close> or \<open>recv\<close> moves. The model takes these
  decisions from scripts in the socket, so a theorem about every socket is a theorem about every
  fragmentation. The locales \<open>stream_reader\<close> and \<open>stream_writer\<close> say what the loops promise: the next
  bytes of the stream, whatever the fragmentation; the messages rest on these laws only.
\<close>

section \<open>Sockets\<close>

text \<open>
  \<open>sk_in\<close>: the bytes the peer sends and that are not read yet, of which the first \<open>sk_ready\<close> have
  arrived; \<open>sk_frag\<close>: the coming \<open>recv\<close> calls return at most one byte more than the number given
  (and at least one); \<open>sk_broken\<close>: behind \<open>sk_in\<close> a \<open>recv\<close> fails (an error or the receive timeout)
  rather than reporting the end of the stream. \<open>sk_out\<close>: the bytes sent so far; \<open>sk_sfrag\<close>: the same for
  \<open>send\<close>; \<open>sk_room\<close>: when not \<open>None\<close>, the number of bytes after which \<open>send\<close> fails.
\<close>

record sock =
  sk_in :: "byte list"
  sk_ready :: nat
  sk_frag :: "nat list"
  sk_broken :: bool
  sk_out :: "byte list"
  sk_sfrag :: "nat list"
  sk_room :: "nat option"

definition frag_limit :: "nat list \<Rightarrow> nat \<Rightarrow> nat" where
  "frag_limit fr n = (case fr of [] \<Rightarrow> n | f # _ \<Rightarrow> min n (Suc f))"

text \<open>\<open>None\<close> is the return value \<open>-1\<close>, \<open>Some bs\<close> the \<open>length bs\<close> bytes stored in the buffer.\<close>

definition recv :: "sock \<Rightarrow> nat \<Rightarrow> byte list option \<times> sock" where
  "recv sk n =
     (if n = 0 then (Some [], sk)
      else if sk_in sk = [] then (if sk_broken sk then None else Some [], sk)
      else let k = min (length (sk_in sk)) (frag_limit (sk_frag sk) n)
           in (Some (take k (sk_in sk)),
               sk\<lparr>sk_in := drop k (sk_in sk), sk_ready := sk_ready sk - k, sk_frag := tl (sk_frag sk)\<rparr>))"

text \<open>\<open>None\<close> is \<open>-1\<close>, \<open>Some k\<close> says that the first \<open>k\<close> bytes were sent.\<close>

definition send :: "sock \<Rightarrow> byte list \<Rightarrow> nat option \<times> sock" where
  "send sk bs =
     (if bs = [] then (Some 0, sk)
      else if sk_room sk = Some 0 then (None, sk)
      else let k0 = frag_limit (sk_sfrag sk) (length bs);
               k = (case sk_room sk of None \<Rightarrow> k0 | Some r \<Rightarrow> min k0 r)
           in (Some k, sk\<lparr>sk_out := sk_out sk @ take k bs, sk_sfrag := tl (sk_sfrag sk),
                          sk_room := map_option (\<lambda>r. r - k) (sk_room sk)\<rparr>))"

lemma frag_limit_bounds: "0 < n \<Longrightarrow> 0 < frag_limit fr n \<and> frag_limit fr n \<le> n"
  by (cases fr) (auto simp: frag_limit_def)

lemma recv_length: "recv sk n = (Some bs, sk') \<Longrightarrow> length bs \<le> n"
  using frag_limit_bounds [of n "sk_frag sk"] by (auto simp: recv_def Let_def split: if_splits)

lemma send_progress: "bs \<noteq> [] \<Longrightarrow> send sk bs = (Some k, sk') \<Longrightarrow> 0 < k \<and> k \<le> length bs"
  using frag_limit_bounds [of "length bs" "sk_sfrag sk"]
  by (auto simp: send_def Let_def split: if_splits option.splits)

section \<open>\<open>send_buff\<close> and \<open>peer_recv\<close>\<close>

text \<open>The loop of \<open>send_buff\<close> from \<open>total_sent\<close> on, with the test behind it.\<close>

function send_loop :: "sock \<Rightarrow> byte list \<Rightarrow> nat \<Rightarrow> int \<times> sock" where
  "send_loop sk buff total_sent =
     (if total_sent < length buff \<or> length buff = 0 then
        (case send sk (drop total_sent buff) of
           (None, sk') \<Rightarrow> (-1, sk')
         | (Some n, sk') \<Rightarrow>
             if length buff = 0 then (if total_sent + n = length buff then 0 else -1, sk')
             else send_loop sk' buff (total_sent + n))
      else (if total_sent = length buff then 0 else -1, sk))"
  by pat_completeness auto
termination
proof (relation "measure (\<lambda>(sk, buff, total). length buff - total)", goal_cases)
  case (2 sk buff total_sent r sk' n)
  then have "0 < n" using send_progress [of "drop total_sent buff" sk n sk'] by auto
  with 2 show ?case by auto
qed simp

declare send_loop.simps [simp del]

definition send_buff :: "sock \<Rightarrow> byte list \<Rightarrow> int \<times> sock" where
  "send_buff sk buff = send_loop sk buff 0"

text \<open>
  The loop of \<open>peer_recv\<close>; \<open>outbuff\<close> is what has been stored in the buffer so far. It is returned in
  the failure case as well, where the buffer has been filled in part.
\<close>

function recv_loop :: "sock \<Rightarrow> byte list \<Rightarrow> nat \<Rightarrow> int \<times> byte list \<times> sock" where
  "recv_loop sk outbuff len =
     (case recv sk (len - length outbuff) of
        (None, sk') \<Rightarrow> (-1, outbuff, sk')
      | (Some bs, sk') \<Rightarrow>
          if 0 < length bs \<and> length outbuff + length bs < len then recv_loop sk' (outbuff @ bs) len
          else (if length outbuff + length bs = len then 0 else -1, outbuff @ bs, sk'))"
  by pat_completeness auto
termination
  by (relation "measure (\<lambda>(sk, outbuff, len). len - length outbuff)") (simp, simp del: length_greater_0_conv, linarith)

declare recv_loop.simps [simp del]

definition peer_recv :: "sock \<Rightarrow> nat \<Rightarrow> int \<times> byte list \<times> sock" where
  "peer_recv sk len = recv_loop sk [] len"

section \<open>What the loops promise\<close>

text \<open>
  A reader delivers the next bytes of what is \<open>pending\<close>; when there are too few it fails after taking
  them all. \<open>frame\<close> is the part of the stream that reading leaves alone.
\<close>

locale stream_reader =
  fixes rd :: "'s \<Rightarrow> nat \<Rightarrow> int \<times> byte list \<times> 's"
    and pending :: "'s \<Rightarrow> byte list"
    and frame :: "'s \<Rightarrow> 'f"
  assumes rd_enough: "n \<le> length (pending s) \<Longrightarrow>
      \<exists>s'. rd s n = (0, take n (pending s), s') \<and> pending s' = drop n (pending s) \<and> frame s' = frame s"
    and rd_short: "length (pending s) < n \<Longrightarrow>
      \<exists>s'. rd s n = (-1, pending s, s') \<and> pending s' = [] \<and> frame s' = frame s"
begin

lemma rd_append:
  assumes "pending s = bs @ rest" and "length bs = n"
  obtains s' where "rd s n = (0, bs, s')" "pending s' = rest" "frame s' = frame s"
  using rd_enough [of n s] assms by auto

lemma rd_cases:
  obtains (enough) s' where "n \<le> length (pending s)" "rd s n = (0, take n (pending s), s')"
      "pending s' = drop n (pending s)" "frame s' = frame s"
  | (short) s' where "length (pending s) < n" "rd s n = (-1, pending s, s')" "pending s' = []" "frame s' = frame s"
  using rd_enough [of n s] rd_short [of s n] by (cases "n \<le> length (pending s)") auto

lemma rd_prefix: "rd s n = (rc, bs, s') \<Longrightarrow> pending s = bs @ pending s'"
  by (rule rd_cases [of n s]) auto

lemma rd_ok_iff: "fst (rd s n) = 0 \<longleftrightarrow> n \<le> length (pending s)"
  by (rule rd_cases [of n s]) auto

lemma rd_rc: "rd s n = (rc, bs, s') \<Longrightarrow> rc = 0 \<and> length bs = n \<or> rc = -1 \<and> length bs < n"
  by (rule rd_cases [of n s]) auto

lemma rd_frame: "rd s n = (rc, bs, s') \<Longrightarrow> frame s' = frame s"
  by (rule rd_cases [of n s]) auto

end

text \<open>A writer appends to what was \<open>sent\<close>; it either sends all or fails, having sent a proper prefix.\<close>

locale stream_writer =
  fixes wr :: "'s \<Rightarrow> byte list \<Rightarrow> int \<times> 's"
    and sent :: "'s \<Rightarrow> byte list"
    and room :: "'s \<Rightarrow> nat option"
    and frame :: "'s \<Rightarrow> 'f"
  assumes wr_fits: "(case room s of None \<Rightarrow> True | Some r \<Rightarrow> length bs \<le> r) \<Longrightarrow>
      \<exists>s'. wr s bs = (0, s') \<and> sent s' = sent s @ bs \<and> room s' = map_option (\<lambda>r. r - length bs) (room s) \<and>
           frame s' = frame s"
    and wr_full: "room s = Some r \<Longrightarrow> r < length bs \<Longrightarrow>
      \<exists>s'. wr s bs = (-1, s') \<and> sent s' = sent s @ take r bs \<and> room s' = Some 0 \<and> frame s' = frame s"
begin

definition open_end :: "'s \<Rightarrow> bool" where
  "open_end s \<longleftrightarrow> room s = None"

lemma wr_open:
  assumes "open_end s"
  obtains s' where "wr s bs = (0, s')" "sent s' = sent s @ bs" "open_end s'" "frame s' = frame s"
  using wr_fits [of bs s] assms by (auto simp: open_end_def)

lemma wr_cases:
  obtains (all) s' where "wr s bs = (0, s')" "sent s' = sent s @ bs" "frame s' = frame s"
  | (part) s' r where "wr s bs = (-1, s')" "r < length bs" "sent s' = sent s @ take r bs" "frame s' = frame s"
proof (cases "case room s of None \<Rightarrow> True | Some r \<Rightarrow> length bs \<le> r")
  case True
  then show ?thesis using wr_fits [of bs s] all by blast
next
  case False
  then obtain r where "room s = Some r" "r < length bs" by (auto split: option.splits)
  then show ?thesis using wr_full [of s r bs] part by blast
qed

lemma wr_rc: "wr s bs = (rc, s') \<Longrightarrow> rc = 0 \<or> rc = -1"
  by (rule wr_cases [of s bs]) auto

lemma wr_frame: "wr s bs = (rc, s') \<Longrightarrow> frame s' = frame s"
  by (rule wr_cases [of s bs]) auto

lemma wr_sent: "wr s bs = (rc, s') \<Longrightarrow> \<exists>k. sent s' = sent s @ take k bs"
  by (rule wr_cases [of s bs]) (auto intro: exI [of _ "length bs"])

end

section \<open>The loops keep their promise\<close>

type_synonym read_frame = "bool \<times> byte list \<times> nat list \<times> nat option"

definition out_part :: "sock \<Rightarrow> read_frame" where
  "out_part sk = (sk_broken sk, sk_out sk, sk_sfrag sk, sk_room sk)"

definition in_part :: "sock \<Rightarrow> byte list \<times> nat \<times> nat list \<times> bool" where
  "in_part sk = (sk_in sk, sk_ready sk, sk_frag sk, sk_broken sk)"

lemma recv_some:
  assumes "0 < n" and "sk_in sk \<noteq> []"
  obtains k sk' where "recv sk n = (Some (take k (sk_in sk)), sk')" "0 < k" "k \<le> n" "k \<le> length (sk_in sk)"
    "sk_in sk' = drop k (sk_in sk)" "out_part sk' = out_part sk"
proof -
  let ?k = "min (length (sk_in sk)) (frag_limit (sk_frag sk) n)"
  show thesis
    using assms frag_limit_bounds [of n "sk_frag sk"]
    by (intro that [of ?k "sk\<lparr>sk_in := drop ?k (sk_in sk), sk_ready := sk_ready sk - ?k, sk_frag := tl (sk_frag sk)\<rparr>"])
       (auto simp: recv_def Let_def out_part_def)
qed

lemma recv_loop_enough:
  "length outbuff \<le> len \<Longrightarrow> len - length outbuff \<le> length (sk_in sk) \<Longrightarrow>
   \<exists>sk'. recv_loop sk outbuff len = (0, outbuff @ take (len - length outbuff) (sk_in sk), sk') \<and>
         sk_in sk' = drop (len - length outbuff) (sk_in sk) \<and> out_part sk' = out_part sk"
proof (induction "len - length outbuff" arbitrary: sk outbuff rule: less_induct)
  case less
  let ?n = "len - length outbuff"
  show ?case
  proof (cases "?n = 0")
    case True
    then show ?thesis using less.prems by (simp add: recv_loop.simps recv_def)
  next
    case False
    then have "0 < ?n" "sk_in sk \<noteq> []" using less.prems(2) by auto
    then obtain k sk1 where r: "recv sk ?n = (Some (take k (sk_in sk)), sk1)" "0 < k" "k \<le> ?n" "k \<le> length (sk_in sk)"
      "sk_in sk1 = drop k (sk_in sk)" "out_part sk1 = out_part sk"
      using recv_some [of ?n sk] by blast
    have len: "length (take k (sk_in sk)) = k" using r(4) by simp
    show ?thesis
    proof (cases "k = ?n")
      case True
      then show ?thesis
        using r len less.prems recv_loop.simps [of sk outbuff len] by simp
    next
      case False
      then have lt: "k < ?n" "length outbuff + k < len" using r(3) by simp_all
      have split: "take k (sk_in sk) @ take (?n - k) (drop k (sk_in sk)) = take ?n (sk_in sk)"
        using r(3) by (metis le_add_diff_inverse take_add)
      have "\<exists>sk'. recv_loop sk1 (outbuff @ take k (sk_in sk)) len =
          (0, (outbuff @ take k (sk_in sk)) @ take (len - length (outbuff @ take k (sk_in sk))) (sk_in sk1), sk') \<and>
          sk_in sk' = drop (len - length (outbuff @ take k (sk_in sk))) (sk_in sk1) \<and> out_part sk' = out_part sk1"
        using lt r less.prems len by (intro less.hyps) simp_all
      then show ?thesis
        using lt r(1,2,5,6) len split recv_loop.simps [of sk outbuff len] by (simp add: diff_diff_left)
    qed
  qed
qed

lemma recv_loop_short:
  "length outbuff + length (sk_in sk) < len \<Longrightarrow>
   \<exists>sk'. recv_loop sk outbuff len = (-1, outbuff @ sk_in sk, sk') \<and> sk_in sk' = [] \<and> out_part sk' = out_part sk"
proof (induction "length (sk_in sk)" arbitrary: sk outbuff rule: less_induct)
  case less
  show ?case
  proof (cases "sk_in sk = []")
    case True
    then show ?thesis using less.prems by (simp add: recv_loop.simps recv_def)
  next
    case False
    moreover have "0 < len - length outbuff" using less.prems by simp
    ultimately obtain k sk1 where r: "recv sk (len - length outbuff) = (Some (take k (sk_in sk)), sk1)" "0 < k"
      "k \<le> len - length outbuff" "k \<le> length (sk_in sk)" "sk_in sk1 = drop k (sk_in sk)" "out_part sk1 = out_part sk"
      using recv_some [of "len - length outbuff" sk] by blast
    have "\<exists>sk'. recv_loop sk1 (outbuff @ take k (sk_in sk)) len =
        (-1, (outbuff @ take k (sk_in sk)) @ sk_in sk1, sk') \<and> sk_in sk' = [] \<and> out_part sk' = out_part sk1"
      using r less.prems by (intro less.hyps) auto
    then show ?thesis
      using r less.prems recv_loop.simps [of sk outbuff len] by simp
  qed
qed

interpretation rd: stream_reader peer_recv sk_in out_part
  using recv_loop_enough [of "[]"] recv_loop_short [of "[]"]
  by unfold_locales (simp_all add: peer_recv_def)

text \<open>Everything the peer sends has arrived; reading keeps this.\<close>

definition arrived :: "sock \<Rightarrow> bool" where
  "arrived sk \<longleftrightarrow> sk_ready sk = length (sk_in sk)"

lemma recv_arrived: "recv sk n = (r, sk') \<Longrightarrow> arrived sk \<Longrightarrow> arrived sk'"
  by (auto simp: recv_def arrived_def Let_def split: if_splits)

lemma recv_loop_arrived: "recv_loop sk outbuff len = (rc, bs, sk') \<Longrightarrow> arrived sk \<Longrightarrow> arrived sk'"
proof (induction sk outbuff len rule: recv_loop.induct)
  case (1 sk outbuff len)
  obtain r sk1 where r: "recv sk (len - length outbuff) = (r, sk1)" by (cases "recv sk (len - length outbuff)")
  show ?case
    using 1 r recv_arrived [OF r] by (auto simp: recv_loop.simps [of sk outbuff len] split: option.splits if_splits)
qed

lemma peer_recv_arrived: "peer_recv sk n = (rc, bs, sk') \<Longrightarrow> arrived sk \<Longrightarrow> arrived sk'"
  by (simp add: peer_recv_def recv_loop_arrived)

lemma send_some:
  assumes "bs \<noteq> []" and "sk_room sk \<noteq> Some 0"
  obtains k sk' where "send sk bs = (Some k, sk')" "0 < k" "k \<le> length bs"
    "case sk_room sk of None \<Rightarrow> True | Some r \<Rightarrow> k \<le> r" "sk_out sk' = sk_out sk @ take k bs"
    "sk_room sk' = map_option (\<lambda>r. r - k) (sk_room sk)" "in_part sk' = in_part sk"
proof -
  let ?k0 = "frag_limit (sk_sfrag sk) (length bs)"
  let ?k = "case sk_room sk of None \<Rightarrow> ?k0 | Some r \<Rightarrow> min ?k0 r"
  show thesis
    using assms frag_limit_bounds [of "length bs" "sk_sfrag sk"]
    by (intro that [of ?k "sk\<lparr>sk_out := sk_out sk @ take ?k bs, sk_sfrag := tl (sk_sfrag sk),
                            sk_room := map_option (\<lambda>r. r - ?k) (sk_room sk)\<rparr>"])
       (auto simp: send_def Let_def in_part_def split: option.splits)
qed

lemma send_loop_fits:
  "n \<le> length buff \<Longrightarrow> (case sk_room sk of None \<Rightarrow> True | Some r \<Rightarrow> length buff - n \<le> r) \<Longrightarrow>
   \<exists>sk'. send_loop sk buff n = (0, sk') \<and> sk_out sk' = sk_out sk @ drop n buff \<and>
         sk_room sk' = map_option (\<lambda>r. r - (length buff - n)) (sk_room sk) \<and> in_part sk' = in_part sk"
proof (induction "length buff - n" arbitrary: sk n rule: less_induct)
  case less
  show ?case
  proof (cases "n = length buff")
    case True
    then show ?thesis by (cases "buff = []") (simp_all add: send_loop.simps send_def option.map_ident)
  next
    case False
    then have n: "n < length buff" "drop n buff \<noteq> []" "sk_room sk \<noteq> Some 0" using less.prems by auto
    then obtain k sk1 where s: "send sk (drop n buff) = (Some k, sk1)" "0 < k" "k \<le> length (drop n buff)"
      "case sk_room sk of None \<Rightarrow> True | Some r \<Rightarrow> k \<le> r" "sk_out sk1 = sk_out sk @ take k (drop n buff)"
      "sk_room sk1 = map_option (\<lambda>r. r - k) (sk_room sk)" "in_part sk1 = in_part sk"
      using send_some [of "drop n buff" sk] by blast
    have "\<exists>sk'. send_loop sk1 buff (n + k) = (0, sk') \<and> sk_out sk' = sk_out sk1 @ drop (n + k) buff \<and>
         sk_room sk' = map_option (\<lambda>r. r - (length buff - (n + k))) (sk_room sk1) \<and> in_part sk' = in_part sk1"
      using s n less.prems by (intro less.hyps) (auto split: option.splits)
    moreover have "take k (drop n buff) @ drop (n + k) buff = drop n buff"
      by (metis add.commute append_take_drop_id drop_drop)
    moreover have "map_option (\<lambda>r. r - (length buff - (n + k))) (sk_room sk1) =
        map_option (\<lambda>r. r - (length buff - n)) (sk_room sk)"
      using s(3,6) n(1) by (cases "sk_room sk") auto
    ultimately show ?thesis using s n send_loop.simps [of sk buff n] by auto
  qed
qed

lemma send_loop_full:
  "n \<le> length buff \<Longrightarrow> sk_room sk = Some r \<Longrightarrow> r < length buff - n \<Longrightarrow>
   \<exists>sk'. send_loop sk buff n = (-1, sk') \<and> sk_out sk' = sk_out sk @ take r (drop n buff) \<and>
         sk_room sk' = Some 0 \<and> in_part sk' = in_part sk"
proof (induction r arbitrary: sk n rule: less_induct)
  case (less r)
  show ?case
  proof (cases "r = 0")
    case True
    then show ?thesis using less.prems by (simp add: send_loop.simps send_def)
  next
    case False
    then have n: "n < length buff" "drop n buff \<noteq> []" "sk_room sk \<noteq> Some 0" using less.prems by auto
    then obtain k sk1 where s: "send sk (drop n buff) = (Some k, sk1)" "0 < k" "k \<le> length (drop n buff)"
      "case sk_room sk of None \<Rightarrow> True | Some r \<Rightarrow> k \<le> r" "sk_out sk1 = sk_out sk @ take k (drop n buff)"
      "sk_room sk1 = map_option (\<lambda>r. r - k) (sk_room sk)" "in_part sk1 = in_part sk"
      using send_some [of "drop n buff" sk] by blast
    have k: "k \<le> r" using s(4) less.prems(2) by simp
    have "\<exists>sk'. send_loop sk1 buff (n + k) = (-1, sk') \<and> sk_out sk' = sk_out sk1 @ take (r - k) (drop (n + k) buff) \<and>
         sk_room sk' = Some 0 \<and> in_part sk' = in_part sk1"
      using s n k less.prems False by (intro less.IH) auto
    moreover have "take k (drop n buff) @ take (r - k) (drop (n + k) buff) = take r (drop n buff)"
      using k by (metis add.commute drop_drop le_add_diff_inverse take_add)
    ultimately show ?thesis using s n send_loop.simps [of sk buff n] by auto
  qed
qed

interpretation wr: stream_writer send_buff sk_out sk_room in_part
proof (unfold_locales, goal_cases)
  case (1 bs s)
  then show ?case using send_loop_fits [of 0 bs s] unfolding send_buff_def by (cases "sk_room s") simp_all
next
  case (2 s r bs)
  then show ?case using send_loop_full [of 0 bs s r] by (simp add: send_buff_def)
qed

section \<open>Properties\<close>

text \<open>
  C37. However the network cuts the stream, \<open>peer_recv\<close> stores exactly the next \<open>n\<close> bytes and returns 0,
  or, when the stream ends before that, stores what there is and returns \<open>-1\<close>; nothing is lost,
  repeated or reordered.
\<close>
theorem peer_recv_exact:
  "\<exists>sk'. peer_recv sk n = (if n \<le> length (sk_in sk) then 0 else -1, take n (sk_in sk), sk') \<and>
         sk_in sk' = drop n (sk_in sk) \<and> out_part sk' = out_part sk"
  using rd.rd_enough [of n sk] rd.rd_short [of sk n] by (cases "n \<le> length (sk_in sk)") auto

text \<open>
  C38. However \<open>send\<close> splits a buffer, \<open>send_buff\<close> puts all its bytes on the wire in order and returns 0,
  or it returns \<open>-1\<close> because the connection took only a proper prefix of them.
\<close>
theorem send_buff_exact:
  "\<exists>sk'. send_buff sk buff =
      (if sk_room sk = None \<or> length buff \<le> the (sk_room sk) then 0 else -1, sk') \<and>
    sk_out sk' = sk_out sk @ (case sk_room sk of None \<Rightarrow> buff | Some r \<Rightarrow> take r buff) \<and>
    in_part sk' = in_part sk"
  using wr.wr_fits [of buff sk] wr.wr_full [of sk _ buff] by (cases "sk_room sk") (auto simp: not_le)

end
