(* ===== verification/Metainfo.thy ===== *)
theory Metainfo
  imports Dyn_Array
begin

text \<open>
  The data the components share: a file being downloaded (\<open>src/dl-file\<close>), the description of a
  torrent and its state shared between the connection threads (\<open>src/file-parser/file-parser.h\<close>), and
  a peer's address (\<open>src/tracker/tracker_announce.h\<close>). Mutexes are left out of the records: the
  sections they protect are single steps of the model.
\<close>

section \<open>Files being downloaded\<close>

text \<open>\<open>df_data\<close> is the memory mapping of the file: \<open>df_size\<close> bytes shared with the file system.\<close>

record dl_file_t =
  df_size :: nat
  df_data :: "byte list"
  df_path :: string

text \<open>
  A \<open>void *\<close> into the mapping of the \<open>fm_file\<close>-th file of the torrent, \<open>fm_off\<close> bytes from its start.
\<close>

record filemem_t =
  fm_file :: nat
  fm_off :: nat
  fm_size :: nat

definition dl_file_getfilemem :: "nat \<Rightarrow> dl_file_t \<Rightarrow> filemem_t" where
  "dl_file_getfilemem i file = \<lparr>fm_file = i, fm_off = 0, fm_size = df_size file\<rparr>"

section \<open>The torrent\<close>

datatype piece_state_t = PIECE_STATE_NOT_REQUESTED | PIECE_STATE_REQUESTED | PIECE_STATE_HAVE

datatype torrent_state_t = TORRENT_STATE_LEECHING | TORRENT_STATE_SEEDING

datatype info_mode_t = INFO_SINGLE | INFO_MULTI

text \<open>The \<open>path_size\<close> entries of \<open>path\<close>; \<open>None\<close> is a NULL entry.\<close>

record file_info_t =
  fi_length :: nat
  fi_path :: "string option list"

record info_t =
  info_mode :: info_mode_t
  info_piece_length :: nat
  info_name :: "string option"
  info_num_pieces :: nat
  info_pieces :: "byte list list"
  info_length :: nat
  info_files :: "file_info_t list"

text \<open>IPv4 address and port as they lie in memory, in network order.\<close>

record peer_t =
  peer_ip :: u32
  peer_port :: u16
  peer_peer_id :: "byte list"

record peer_connection_t =
  conn_peer :: peer_t
  conn_thread :: nat

record sh_t =
  sh_state :: torrent_state_t
  sh_peer_connections :: "peer_connection_t da"
  sh_piece_states :: "piece_state_t list"
  sh_pieces_left :: nat
  sh_completed :: bool

text \<open>\<open>mi_files\<close> is the array \<open>files\<close> of pointers as it was allocated; \<open>None\<close> is a NULL entry.\<close>

record metainfo_t =
  mi_announce :: "string option"
  mi_announce_list :: "string option list"
  mi_info :: info_t
  mi_info_hash :: "byte list"
  mi_max_peers :: nat
  mi_sh :: sh_t
  mi_files :: "dl_file_t option list"

section \<open>Positions in the concatenation of all files\<close>

text \<open>
  A torrent's files, laid end to end, form one byte sequence; pieces are cut from it. \<open>file_start fs i\<close>
  is the position of the first byte of file \<open>i\<close>, \<open>mem_span\<close> the positions a memory range covers and
  \<open>mem_ok\<close> says that the range lies inside its file.
\<close>

definition total_size :: "dl_file_t list \<Rightarrow> nat" where
  "total_size fs = sum_list (map df_size fs)"

definition file_start :: "dl_file_t list \<Rightarrow> nat \<Rightarrow> nat" where
  "file_start fs i = sum_list (map df_size (take i fs))"

definition mem_span :: "dl_file_t list \<Rightarrow> filemem_t \<Rightarrow> nat list" where
  "mem_span fs m = [file_start fs (fm_file m) + fm_off m..<file_start fs (fm_file m) + fm_off m + fm_size m]"

definition mem_ok :: "dl_file_t list \<Rightarrow> filemem_t \<Rightarrow> bool" where
  "mem_ok fs m \<longleftrightarrow> fm_file m < length fs \<and> fm_off m + fm_size m \<le> df_size (fs ! fm_file m)"

definition files_wf :: "dl_file_t list \<Rightarrow> bool" where
  "files_wf fs \<longleftrightarrow> list_all (\<lambda>f. length (df_data f) = df_size f) fs"

definition all_data :: "dl_file_t list \<Rightarrow> byte list" where
  "all_data fs = concat (map df_data fs)"

lemma file_start_0 [simp]: "file_start fs 0 = 0"
  by (simp add: file_start_def)

lemma file_start_Suc: "i < length fs \<Longrightarrow> file_start fs (Suc i) = file_start fs i + df_size (fs ! i)"
  by (simp add: file_start_def take_Suc_conv_app_nth)

lemma file_start_all [simp]: "file_start fs (length fs) = total_size fs"
  by (simp add: file_start_def total_size_def)

lemma file_start_le_total: "file_start fs i \<le> total_size fs"
proof -
  have "total_size fs = sum_list (map df_size (take i fs @ drop i fs))" by (simp add: total_size_def)
  then show ?thesis unfolding file_start_def map_append sum_list_append by linarith
qed

lemma file_end_le_total: "i < length fs \<Longrightarrow> file_start fs i + df_size (fs ! i) \<le> total_size fs"
  using file_start_le_total [of fs "Suc i"] by (simp add: file_start_Suc)

lemma all_data_length: "files_wf fs \<Longrightarrow> length (all_data fs) = total_size fs"
  by (induction fs) (auto simp: files_wf_def all_data_def total_size_def)

lemma all_data_nth:
  "files_wf fs \<Longrightarrow> i < length fs \<Longrightarrow> k < df_size (fs ! i) \<Longrightarrow>
   all_data fs ! (file_start fs i + k) = df_data (fs ! i) ! k"
proof (induction fs arbitrary: i)
  case Nil
  then show ?case by simp
next
  case (Cons f fs)
  have wf: "length (df_data f) = df_size f" "files_wf fs" using Cons.prems(1) by (simp_all add: files_wf_def)
  show ?case
  proof (cases i)
    case 0
    then show ?thesis using Cons.prems wf by (simp add: all_data_def nth_append)
  next
    case (Suc j)
    have "file_start (f # fs) i = df_size f + file_start fs j" using Suc by (simp add: file_start_def)
    then show ?thesis
      using Cons.IH [of j] Cons.prems wf Suc by (simp add: all_data_def nth_append add.assoc)
  qed
qed

lemma mem_span_data:
  assumes "files_wf fs" and "mem_ok fs m"
  shows "take (fm_size m) (drop (fm_off m) (df_data (fs ! fm_file m))) = map ((!) (all_data fs)) (mem_span fs m)"
proof (rule nth_equalityI)
  have len: "length (df_data (fs ! fm_file m)) = df_size (fs ! fm_file m)"
    using assms by (auto simp: files_wf_def mem_ok_def list_all_length)
  then show "length (take (fm_size m) (drop (fm_off m) (df_data (fs ! fm_file m)))) =
        length (map ((!) (all_data fs)) (mem_span fs m))"
    using assms(2) by (auto simp: mem_span_def mem_ok_def min_def)
  fix k assume "k < length (take (fm_size m) (drop (fm_off m) (df_data (fs ! fm_file m))))"
  then have k: "k < fm_size m" by simp
  then have "all_data fs ! (file_start fs (fm_file m) + (fm_off m + k)) = df_data (fs ! fm_file m) ! (fm_off m + k)"
    using assms by (intro all_data_nth) (auto simp: mem_ok_def)
  then show "take (fm_size m) (drop (fm_off m) (df_data (fs ! fm_file m))) ! k =
        map ((!) (all_data fs)) (mem_span fs m) ! k"
    using k len assms(2) by (simp add: mem_span_def mem_ok_def add.assoc)
qed

end
