(* ===== verification/Piece_Request.thy ===== *)
theory Piece_Request
  imports Metainfo
begin

text \<open>
  \<open>src/piece-request\<close>: cutting a piece into the block requests of 16 KiB that are sent to a peer, each
  with the ranges of file memory its bytes belong to. The loops walk the torrent's \<open>files\<close> array with
  a cursor (file index and offset) and count the bytes of the piece that are \<open>left\<close>.

  The main result is \<open>create_blocks\<close>: on an array that ends with a NULL entry, the blocks tile exactly
  the bytes of the piece. Two deviations are proved as well: without the NULL entry the last piece
  reads past the array, and a piece length that is no multiple of the block size is not respected.
\<close>

definition KB :: nat where
  "KB = 2 ^ 10"

definition PEER_REQUEST_SIZE :: nat where
  "PEER_REQUEST_SIZE = 16 * KB"

lemma PEER_REQUEST_SIZE_eq: "PEER_REQUEST_SIZE = 16384"
  by (simp add: PEER_REQUEST_SIZE_def KB_def)

record block_request_t =
  br_filemems :: "filemem_t da"
  br_begin :: int
  br_len :: nat
  br_completed :: bool

text \<open>
  \<open>pr_freed\<close>: the arrays behind \<open>block_requests->values\<close> have been freed. Copies of the struct share
  the pointer, so they share this flag.
\<close>

record piece_request_t =
  pr_piece_index :: u32
  pr_block_requests :: "block_request_t da"
  pr_blocks_left :: u32
  pr_freed :: bool

section \<open>Skipping to a piece\<close>

function skip_loop :: "dl_file_t option list \<Rightarrow> nat \<Rightarrow> nat \<Rightarrow> nat \<Rightarrow> (nat \<times> nat) c_result" where
  "skip_loop files cur_file_index offset skip =
     (if skip > 0 then
        c_bind (arr_get files cur_file_index) (\<lambda>fp.
          case fp of
            None \<Rightarrow> Inl Null_Deref
          | Some f \<Rightarrow>
              let mem = dl_file_getfilemem cur_file_index f in
              if fm_size mem > skip then Inr (cur_file_index, skip)
              else skip_loop files (cur_file_index + 1) offset (skip - fm_size mem))
      else Inr (cur_file_index, offset))"
  by pat_completeness auto
termination
  by (relation "measure (\<lambda>(files, cur, offset, skip). length files - cur)")
     (auto simp: arr_get_def split: if_splits)

declare skip_loop.simps [simp del]

text \<open>The cursor \<open>(*cur_file_index, *offset)\<close> starts at \<open>(0, 0)\<close>.\<close>

definition skip_until_index :: "dl_file_t option list \<Rightarrow> u32 \<Rightarrow> metainfo_t \<Rightarrow> (nat \<times> nat) c_result" where
  "skip_until_index files index torrent =
     skip_loop files 0 0 (size_mul (info_piece_length (mi_info torrent)) (unat index))"

section \<open>One block\<close>

text \<open>
  One round of the \<open>do \<dots> while\<close> loop in file \<open>f\<close>: the range it takes, and \<open>*offset\<close> and
  \<open>*cur_file_index\<close> after it.
\<close>

definition block_round :: "nat \<Rightarrow> dl_file_t \<Rightarrow> nat \<Rightarrow> u32 \<Rightarrow> filemem_t \<times> nat \<times> nat" where
  "block_round cur_file_index f offset curr_size =
     (let mem0 = dl_file_getfilemem cur_file_index f;
          mem1 = mem0\<lparr>fm_off := fm_off mem0 + offset, fm_size := size_sub (fm_size mem0) offset\<rparr>;
          avail = unat (of_nat PEER_REQUEST_SIZE - curr_size :: u32)
      in if fm_size mem1 > avail then (mem1\<lparr>fm_size := avail\<rparr>, offset + avail, cur_file_index)
         else (mem1, 0, cur_file_index + 1))"

lemma block_round_progress:
  "block_round cur f off c = (mem, off', cur') \<Longrightarrow>
   c + of_nat (fm_size mem) < of_nat PEER_REQUEST_SIZE \<Longrightarrow> cur' = Suc cur"
  by (auto simp: block_round_def Let_def split: if_splits)

text \<open>The loop; it returns the cursor, \<open>left\<close>, the collected ranges and \<open>curr_size\<close>.\<close>

function block_loop ::
  "dl_file_t option list \<Rightarrow> nat \<Rightarrow> nat \<Rightarrow> nat \<Rightarrow> filemem_t da \<Rightarrow> u32 \<Rightarrow> c_heap \<Rightarrow>
   (nat \<times> nat \<times> nat \<times> filemem_t da \<times> u32 \<times> c_heap) c_result" where
  "block_loop files cur_file_index offset left filemems curr_size h =
     c_bind (arr_get files cur_file_index) (\<lambda>fp.
       case fp of
         None \<Rightarrow> Inl Assert_Failed
       | Some f \<Rightarrow>
           (case block_round cur_file_index f offset curr_size of (mem, offset', cur') \<Rightarrow>
             let left' = size_sub left (fm_size mem);
                 curr' = curr_size + of_nat (fm_size mem)
             in c_bind (da_append h filemems mem) (\<lambda>(filemems', h').
                  if curr' < of_nat PEER_REQUEST_SIZE then
                    c_bind (arr_get files cur') (\<lambda>next.
                      if next \<noteq> None then block_loop files cur' offset' left' filemems' curr' h'
                      else Inr (cur', offset', left', filemems', curr', h'))
                  else Inr (cur', offset', left', filemems', curr', h'))))"
  by pat_completeness auto
termination
  by (relation "measure (\<lambda>(files, cur, _). length files - cur)")
     (auto simp: arr_get_def dest!: block_round_progress [OF sym] split: if_splits)

declare block_loop.simps [simp del]

text \<open>\<open>None\<close> is the return value \<open>-1\<close>, \<open>Some block\<close> is 0 with \<open>*out = block\<close>.\<close>

definition next_block_request ::
  "c_heap \<Rightarrow> dl_file_t option list \<Rightarrow> nat \<Rightarrow> nat \<Rightarrow> nat \<Rightarrow> nat \<Rightarrow>
   (block_request_t option \<times> nat \<times> nat \<times> nat \<times> c_heap) c_result" where
  "next_block_request h files offset left piecelen cur_file_index =
     c_bind (arr_get files cur_file_index) (\<lambda>fp.
       if fp = None \<or> left = 0 then Inr (None, offset, left, cur_file_index, h) else
       case alloc h of (ok1, h1) \<Rightarrow>
         if \<not> ok1 then Inr (None, offset, left, cur_file_index, h1) else
         case da_init h1 of
           (None, h2) \<Rightarrow> Inr (None, offset, left, cur_file_index, h2)
         | (Some filemems, h2) \<Rightarrow>
             c_bind (block_loop files cur_file_index offset left filemems 0 h2)
               (\<lambda>(cur', offset', left', filemems', curr_size, h3).
                  Inr (Some \<lparr>br_filemems = filemems',
                             br_begin = sint (of_nat (size_sub piecelen left) :: u64),
                             br_len = unat curr_size, br_completed = False\<rparr>,
                       offset', left', cur', h3)))"

section \<open>A piece\<close>

text \<open>
  The loop over the blocks. Every round consumes a byte or a file, so the fuel of
  \<open>piece_request_create\<close> (all bytes plus all files) is enough; see \<open>create_loop_ok\<close>.
\<close>

primrec create_loop ::
  "nat \<Rightarrow> c_heap \<Rightarrow> dl_file_t option list \<Rightarrow> nat \<Rightarrow> nat \<Rightarrow> nat \<Rightarrow> nat \<Rightarrow> block_request_t da \<Rightarrow>
   (block_request_t da \<times> c_heap) c_result" where
  "create_loop 0 h files offset left piecelen cur blocks = Inl No_Fuel"
| "create_loop (Suc fuel) h files offset left piecelen cur blocks =
     c_bind (next_block_request h files offset left piecelen cur) (\<lambda>(r, offset', left', cur', h1).
       case r of
         None \<Rightarrow> Inr (blocks, h1)
       | Some block \<Rightarrow>
           c_bind (da_append h1 blocks block) (\<lambda>(blocks', h2).
             create_loop fuel h2 files offset' left' piecelen cur' blocks'))"

definition files_fuel :: "dl_file_t option list \<Rightarrow> nat" where
  "files_fuel files = Suc (sum_list (map (\<lambda>fp. case fp of None \<Rightarrow> 0 | Some f \<Rightarrow> df_size f) files) + length files)"

text \<open>
  When the second \<open>malloc\<close> fails the code frees \<open>ret\<close> and then goes on to use \<open>ret->block_requests\<close>.
\<close>

definition piece_request_create ::
  "c_heap \<Rightarrow> metainfo_t \<Rightarrow> u32 \<Rightarrow> (piece_request_t option \<times> c_heap) c_result" where
  "piece_request_create h torrent index =
     (case alloc h of (ok1, h1) \<Rightarrow>
        if \<not> ok1 then Inr (None, h1) else
        case alloc h1 of (ok2, h2) \<Rightarrow>
          if \<not> ok2 then Inl Use_After_Free else
          case da_init h2 of
            (None, h3) \<Rightarrow> Inr (None, h3)
          | (Some blocks, h3) \<Rightarrow>
              c_bind (skip_until_index (mi_files torrent) index torrent) (\<lambda>(cur, offset).
              c_bind (create_loop (files_fuel (mi_files torrent)) h3 (mi_files torrent) offset
                        (info_piece_length (mi_info torrent)) (info_piece_length (mi_info torrent)) cur blocks)
                (\<lambda>(blocks', h4).
                   Inr (Some \<lparr>pr_piece_index = index, pr_block_requests = blocks',
                              pr_blocks_left = of_nat (da_len blocks'), pr_freed = False\<rparr>, h4))))"

definition piece_request_block_at :: "piece_request_t \<Rightarrow> int \<Rightarrow> block_request_t option c_result" where
  "piece_request_block_at request offset =
     (if pr_freed request \<and> da_values (pr_block_requests request) \<noteq> [] then Inl Use_After_Free
      else Inr (find (\<lambda>br. br_begin br = offset) (da_values (pr_block_requests request))))"

definition piece_request_free :: "piece_request_t \<Rightarrow> piece_request_t c_result" where
  "piece_request_free request =
     (if pr_freed request then Inl Use_After_Free else Inr (request\<lparr>pr_freed := True\<rparr>))"

section \<open>The cursor\<close>

text \<open>
  \<open>at_pos fs cur off g\<close>: the cursor \<open>(cur, off)\<close> stands at position \<open>g\<close> of the concatenation of the
  files, on the file that holds the byte \<open>g\<close> (behind the last file at the end).
\<close>

definition at_pos :: "dl_file_t list \<Rightarrow> nat \<Rightarrow> nat \<Rightarrow> nat \<Rightarrow> bool" where
  "at_pos fs cur off g \<longleftrightarrow>
     g = file_start fs cur + off \<and>
     (if cur < length fs then off < df_size (fs ! cur) else cur = length fs \<and> off = 0)"

text \<open>What \<open>piece_request_create\<close> relies on: no empty file, and sizes that fit in \<open>off_t\<close>.\<close>

definition files_ok :: "dl_file_t list \<Rightarrow> bool" where
  "files_ok fs \<longleftrightarrow> list_all (\<lambda>f. 0 < df_size f) fs \<and> total_size fs < 2 ^ 63"

lemma files_ok_size: "files_ok fs \<Longrightarrow> total_size fs < 2 ^ 64"
  by (simp add: files_ok_def)

lemma files_ok_nth: "files_ok fs \<Longrightarrow> i < length fs \<Longrightarrow> 0 < df_size (fs ! i)"
  by (simp add: files_ok_def list_all_length)

lemma at_pos_le: "at_pos fs cur off g \<Longrightarrow> g \<le> total_size fs"
  using file_end_le_total [of cur fs] by (auto simp: at_pos_def split: if_splits)

lemma at_pos_end: "at_pos fs cur off g \<Longrightarrow> cur < length fs \<longleftrightarrow> g < total_size fs"
  using file_end_le_total [of cur fs] by (auto simp: at_pos_def split: if_splits)

lemma at_pos_cur: "at_pos fs cur off g \<Longrightarrow> cur \<le> length fs"
  by (auto simp: at_pos_def split: if_splits)

lemma at_pos_total: "at_pos fs cur off (total_size fs) \<Longrightarrow> cur = length fs"
  using at_pos_end [of fs cur off "total_size fs"] at_pos_cur [of fs cur off] by auto

lemma at_pos_next:
  assumes "files_ok fs" and "cur < length fs"
  shows "at_pos fs (Suc cur) 0 (file_start fs (Suc cur))"
  using assms files_ok_nth [OF assms(1), of "Suc cur"] by (auto simp: at_pos_def)

lemma files_get: "cur < length fs \<Longrightarrow> arr_get (map Some fs @ None # xs) cur = Inr (Some (fs ! cur))"
  by (simp add: nth_append)

lemma files_get_end: "arr_get (map Some fs @ None # xs) (length fs) = Inr None"
  by (simp add: nth_append)

lemma skip_loop_ok:
  assumes "files_ok fs" and get: "\<And>i. i < length fs \<Longrightarrow> arr_get files i = Inr (Some (fs ! i))"
  shows "cur \<le> length fs \<Longrightarrow> file_start fs cur + skip \<le> total_size fs \<Longrightarrow>
    \<exists>cur' off'. skip_loop files cur 0 skip = Inr (cur', off') \<and>
                at_pos fs cur' off' (file_start fs cur + skip)"
proof (induction "length fs - cur" arbitrary: cur skip rule: less_induct)
  case less
  show ?case
  proof (cases "skip = 0")
    case True
    then show ?thesis
      using less.prems files_ok_nth [OF assms(1), of cur]
      by (auto simp: skip_loop.simps at_pos_def)
  next
    case False
    then have cur: "cur < length fs"
      using less.prems by (cases "cur = length fs") auto
    show ?thesis
    proof (cases "skip < df_size (fs ! cur)")
      case True
      then show ?thesis
        using False cur
        by (simp add: skip_loop.simps get dl_file_getfilemem_def at_pos_def del: arr_get_in)
    next
      case big: False
      have "\<exists>cur' off'. skip_loop files (Suc cur) 0 (skip - df_size (fs ! cur)) = Inr (cur', off') \<and>
                at_pos fs cur' off' (file_start fs (Suc cur) + (skip - df_size (fs ! cur)))"
        using less.prems cur big by (intro less.hyps) (auto simp: file_start_Suc)
      then show ?thesis
        using False cur big skip_loop.simps [of files cur 0 skip]
        by (simp add: get dl_file_getfilemem_def file_start_Suc del: arr_get_in)
    qed
  qed
qed

text \<open>Past the end of the last file the loop meets the NULL entry and goes through it.\<close>

lemma skip_loop_past:
  "cur \<le> length fs \<Longrightarrow> total_size fs < file_start fs cur + skip \<Longrightarrow>
   skip_loop (map Some fs @ None # xs) cur off skip = Inl Null_Deref"
proof (induction "length fs - cur" arbitrary: cur skip rule: less_induct)
  case less
  then have "0 < skip" using file_start_le_total [of fs cur] by linarith
  show ?case
  proof (cases "cur = length fs")
    case True
    then show ?thesis using \<open>0 < skip\<close> by (simp add: skip_loop.simps nth_append)
  next
    case False
    then have cur: "cur < length fs" using less.prems by simp
    then have le: "df_size (fs ! cur) \<le> skip" using less.prems file_end_le_total [of cur fs] by linarith
    then have "skip_loop (map Some fs @ None # xs) (Suc cur) off (skip - df_size (fs ! cur)) = Inl Null_Deref"
      using less.prems cur by (intro less.hyps) (auto simp: file_start_Suc)
    then show ?thesis
      using cur le \<open>0 < skip\<close> skip_loop.simps [of "map Some fs @ None # xs" cur off skip]
      by (simp add: files_get dl_file_getfilemem_def del: arr_get_in)
  qed
qed

section \<open>One block covers the next bytes\<close>

lemma avail_unat: "c \<le> 16384 \<Longrightarrow> unat (of_nat PEER_REQUEST_SIZE - of_nat c :: u32) = 16384 - c"
proof -
  assume c: "c \<le> 16384"
  have "(of_nat PEER_REQUEST_SIZE - of_nat c :: u32) = of_nat (16384 - c)"
    using c by (simp add: PEER_REQUEST_SIZE_eq of_nat_diff)
  moreover have "unat (of_nat (16384 - c) :: u32) = 16384 - c"
    by (simp only: unat_of_nat) simp
  ultimately show ?thesis by simp
qed

lemma curr_less: "c \<le> 16384 \<Longrightarrow> (of_nat c :: u32) < of_nat PEER_REQUEST_SIZE \<longleftrightarrow> c < 16384"
  unfolding PEER_REQUEST_SIZE_eq word_less_nat_alt unat_of_nat by simp

text \<open>
  One round of the loop: the range it adds covers the next \<open>d\<close> bytes, as many as the file and the
  block allow.
\<close>

definition round_len :: "dl_file_t list \<Rightarrow> nat \<Rightarrow> nat \<Rightarrow> nat \<Rightarrow> nat" where
  "round_len fs cur off c = min (df_size (fs ! cur) - off) (16384 - c)"

definition round_cursor :: "dl_file_t list \<Rightarrow> nat \<Rightarrow> nat \<Rightarrow> nat \<Rightarrow> nat \<times> nat" where
  "round_cursor fs cur off c =
     (if df_size (fs ! cur) - off > 16384 - c then (cur, off + (16384 - c)) else (Suc cur, 0))"

lemma round_cursor_at_pos:
  assumes "files_ok fs" and "at_pos fs cur off g" and "cur < length fs"
    and "round_cursor fs cur off c = (cur', off')"
  shows "at_pos fs cur' off' (g + round_len fs cur off c)"
proof (cases "df_size (fs ! cur) - off > 16384 - c")
  case True
  then show ?thesis using assms by (auto simp: round_cursor_def round_len_def at_pos_def)
next
  case False
  then have "g + round_len fs cur off c = file_start fs (Suc cur)"
    using assms(2,3) by (auto simp: round_len_def at_pos_def file_start_Suc)
  then show ?thesis using False assms(4) at_pos_next [OF assms(1,3)] by (auto simp: round_cursor_def)
qed

lemma block_loop_round:
  assumes "files_ok fs" and "heap_ok h" and "cur < length fs" and "off < df_size (fs ! cur)"
    and "c < 16384" and "round_cursor fs cur off c = (cur', off')"
  obtains fm' where
    "da_values fm' = da_values fm @ [\<lparr>fm_file = cur, fm_off = off, fm_size = round_len fs cur off c\<rparr>]"
    "block_loop (map Some fs @ None # xs) cur off left fm (of_nat c) h =
      (if c + round_len fs cur off c < 16384 \<and> cur' < length fs then
         block_loop (map Some fs @ None # xs) cur' off' (size_sub left (round_len fs cur off c)) fm'
           (of_nat (c + round_len fs cur off c)) h
       else Inr (cur', off', size_sub left (round_len fs cur off c), fm',
                 of_nat (c + round_len fs cur off c), h))"
proof -
  let ?n = "round_len fs cur off c"
  let ?m = "\<lparr>fm_file = cur, fm_off = off, fm_size = ?n\<rparr>"
  obtain fm' where app: "da_append h fm ?m = Inr (fm', h)" "da_values fm' = da_values fm @ [?m]"
    using da_append_ok [OF assms(2), of fm ?m] by blast
  have sz: "df_size (fs ! cur) < 2 ^ 64"
    using file_end_le_total [OF assms(3)] files_ok_size [OF assms(1)] by simp
  have "size_sub (df_size (fs ! cur)) off = df_size (fs ! cur) - off"
    using sz assms(4) by (simp add: size_sub_exact)
  then have round: "block_round cur (fs ! cur) off (of_nat c) = (?m, off', cur')"
    using assms(5,6)
    by (auto simp: block_round_def round_len_def round_cursor_def dl_file_getfilemem_def avail_unat Let_def min_def
          split: if_splits)
  have n: "c + ?n \<le> 16384" using assms(5) by (simp add: round_len_def)
  have next': "arr_get (map Some fs @ None # xs) cur' = Inr (if cur' < length fs then Some (fs ! cur') else None)"
    using assms(3,6) by (auto simp: round_cursor_def arr_get_def nth_append split: if_splits)
  have "block_loop (map Some fs @ None # xs) cur off left fm (of_nat c) h =
      (if c + ?n < 16384 \<and> cur' < length fs then
         block_loop (map Some fs @ None # xs) cur' off' (size_sub left ?n) fm' (of_nat (c + ?n)) h
       else Inr (cur', off', size_sub left ?n, fm', of_nat (c + ?n), h))"
    using round app assms(3) next' curr_less [OF n]
    unfolding block_loop.simps [of _ cur]
    by (simp add: files_get Let_def flip: of_nat_add del: arr_get_in)
  with app(2) that show thesis by blast
qed

lemma block_loop_ok:
  assumes ok: "files_ok fs" and h: "heap_ok h"
  shows "at_pos fs cur off g \<Longrightarrow> cur < length fs \<Longrightarrow> c < 16384 \<Longrightarrow>
    \<exists>cur' off' fm' ms. block_loop (map Some fs @ None # xs) cur off left fm (of_nat c) h =
        Inr (cur', off', size_sub left (min (16384 - c) (total_size fs - g)), fm',
             of_nat (c + min (16384 - c) (total_size fs - g)), h) \<and>
      at_pos fs cur' off' (g + min (16384 - c) (total_size fs - g)) \<and>
      da_values fm' = da_values fm @ ms \<and> list_all (mem_ok fs) ms \<and>
      concat (map (mem_span fs) ms) = [g..<g + min (16384 - c) (total_size fs - g)]"
proof (induction "length fs - cur" arbitrary: cur off g c left fm rule: less_induct)
  case less
  let ?n = "round_len fs cur off c"
  let ?m = "\<lparr>fm_file = cur, fm_off = off, fm_size = ?n\<rparr>"
  obtain cur' off' where rc: "round_cursor fs cur off c = (cur', off')" by fastforce
  have off: "off < df_size (fs ! cur)" and g: "g = file_start fs cur + off"
    using less.prems by (simp_all add: at_pos_def)
  have at': "at_pos fs cur' off' (g + ?n)" using round_cursor_at_pos [OF ok less.prems(1,2) rc] .
  have m: "mem_ok fs ?m" "mem_span fs ?m = [g..<g + ?n]"
    using less.prems(2) off g by (auto simp: mem_ok_def mem_span_def round_len_def)
  have n_le: "c + ?n \<le> 16384" "g + ?n \<le> total_size fs"
    using less.prems(3) at_pos_le [OF at'] by (auto simp: round_len_def)
  obtain fm' where fm': "da_values fm' = da_values fm @ [?m]"
    and step: "block_loop (map Some fs @ None # xs) cur off left fm (of_nat c) h =
      (if c + ?n < 16384 \<and> cur' < length fs then
         block_loop (map Some fs @ None # xs) cur' off' (size_sub left ?n) fm' (of_nat (c + ?n)) h
       else Inr (cur', off', size_sub left ?n, fm', of_nat (c + ?n), h))"
    using block_loop_round [OF ok h less.prems(2) off less.prems(3) rc] by blast
  show ?case
  proof (cases "c + ?n < 16384 \<and> cur' < length fs")
    case True
    then have "cur' = Suc cur" using rc by (auto simp: round_cursor_def round_len_def split: if_splits)
    then have dec: "length fs - cur' < length fs - cur" using less.prems(2) by simp
    have d: "?n + min (16384 - (c + ?n)) (total_size fs - (g + ?n)) = min (16384 - c) (total_size fs - g)"
      using n_le by (simp add: min_def) linarith
    from less.hyps [OF dec at', of "c + ?n" "size_sub left ?n" fm'] True
    obtain cur2 off2 fm2 ms where ih:
      "block_loop (map Some fs @ None # xs) cur' off' (size_sub left ?n) fm' (of_nat (c + ?n)) h =
        Inr (cur2, off2, size_sub (size_sub left ?n) (min (16384 - (c + ?n)) (total_size fs - (g + ?n))), fm2,
             of_nat (c + ?n + min (16384 - (c + ?n)) (total_size fs - (g + ?n))), h)"
      "at_pos fs cur2 off2 (g + ?n + min (16384 - (c + ?n)) (total_size fs - (g + ?n)))"
      "da_values fm2 = da_values fm' @ ms" "list_all (mem_ok fs) ms"
      "concat (map (mem_span fs) ms) = [g + ?n..<g + ?n + min (16384 - (c + ?n)) (total_size fs - (g + ?n))]"
      by blast
    have "?n \<le> min (16384 - c) (total_size fs - g)" using n_le by linarith
    then have "concat (map (mem_span fs) (?m # ms)) = [g..<g + min (16384 - c) (total_size fs - g)]"
      using ih(5) m(2) upt_split [of g "g + ?n" "g + min (16384 - c) (total_size fs - g)"] d
      by (simp add: add.assoc)
    moreover have "block_loop (map Some fs @ None # xs) cur off left fm (of_nat c) h =
        Inr (cur2, off2, size_sub left (min (16384 - c) (total_size fs - g)), fm2,
             of_nat (c + min (16384 - c) (total_size fs - g)), h)"
      using step True ih(1) by (simp only: if_True simp_thms size_sub_size_sub add.assoc d)
    moreover have "at_pos fs cur2 off2 (g + min (16384 - c) (total_size fs - g))"
      using ih(2) by (simp only: add.assoc d)
    moreover have "da_values fm2 = da_values fm @ ?m # ms" "list_all (mem_ok fs) (?m # ms)"
      using ih(3,4) fm' m(1) by simp_all
    ultimately show ?thesis by metis
  next
    case False
    then have "c + ?n = 16384 \<or> g + ?n = total_size fs"
      using n_le at_pos_end [OF at'] by auto
    then have "min (16384 - c) (total_size fs - g) = ?n" using n_le by (auto simp: min_def)
    moreover have "concat (map (mem_span fs) [?m]) = [g..<g + ?n]" "list_all (mem_ok fs) [?m]"
      using m by simp_all
    ultimately show ?thesis using False fm' step at' by (metis (no_types, lifting))
  qed
qed

lemma next_block_request_ok:
  assumes "files_ok fs" and "heap_ok h" and "at_pos fs cur off g" and "g < total_size fs" and "left \<noteq> 0"
  obtains block off' cur' where
    "next_block_request h (map Some fs @ None # xs) off left piecelen cur =
       Inr (Some block, off', size_sub left (min 16384 (total_size fs - g)), cur', h)"
    "at_pos fs cur' off' (g + min 16384 (total_size fs - g))"
    "br_begin block = sint (of_nat (size_sub piecelen left) :: u64)"
    "br_len block = min 16384 (total_size fs - g)" "\<not> br_completed block"
    "list_all (mem_ok fs) (da_values (br_filemems block))"
    "concat (map (mem_span fs) (da_values (br_filemems block))) = [g..<g + min 16384 (total_size fs - g)]"
proof -
  let ?d = "min 16384 (total_size fs - g)"
  let ?da = "\<lparr>da_cap = 16, da_values = []\<rparr> :: filemem_t da"
  have cur: "cur < length fs" using at_pos_end [OF assms(3)] assms(4) by simp
  obtain cur' off' fm' ms where
    l: "block_loop (map Some fs @ None # xs) cur off left ?da 0 h = Inr (cur', off', size_sub left ?d, fm', of_nat ?d, h)"
    "at_pos fs cur' off' (g + ?d)" "da_values fm' = ms" "list_all (mem_ok fs) ms"
    "concat (map (mem_span fs) ms) = [g..<g + ?d]"
    using block_loop_ok [OF assms(1,2,3) cur, where c = 0 and left = left and fm = ?da and xs = xs] by auto
  have "unat (of_nat ?d :: u32) = ?d" by (simp only: unat_of_nat) (simp add: min_def)
  then show thesis
    using that [of "\<lparr>br_filemems = fm', br_begin = sint (of_nat (size_sub piecelen left) :: u64),
                     br_len = ?d, br_completed = False\<rparr>" off' cur'] l cur assms(2,5)
    by (simp add: next_block_request_def files_get del: arr_get_in)
qed

section \<open>The blocks of a piece\<close>

text \<open>
  The specification: \<open>n\<close> bytes are cut into blocks of 16 KiB, the last one shorter. \<open>block_covers fs p\<close>
  relates a block request to its entry in the plan: its ranges cover, in order, exactly the bytes of
  the block of a piece that starts at position \<open>p\<close>.
\<close>

definition block_count :: "nat \<Rightarrow> nat" where
  "block_count n = (n + 16383) div 16384"

definition plan_block :: "nat \<Rightarrow> nat \<Rightarrow> nat \<times> nat" where
  "plan_block n i = (16384 * i, min 16384 (n - 16384 * i))"

definition block_plan :: "nat \<Rightarrow> (nat \<times> nat) list" where
  "block_plan n = map (plan_block n) [0..<block_count n]"

definition block_covers :: "dl_file_t list \<Rightarrow> nat \<Rightarrow> block_request_t \<Rightarrow> nat \<times> nat \<Rightarrow> bool" where
  "block_covers fs p br bl \<longleftrightarrow>
     br_begin br = int (fst bl) \<and> br_len br = snd bl \<and> \<not> br_completed br \<and>
     list_all (mem_ok fs) (da_values (br_filemems br)) \<and>
     concat (map (mem_span fs) (da_values (br_filemems br))) = [p + fst bl..<p + fst bl + snd bl]"

lemma block_count_le: "block_count n \<le> n"
  unfolding block_count_def by (cases "n = 0") linarith+

lemma block_count_less: "i < block_count n \<longleftrightarrow> 16384 * i < n"
  unfolding block_count_def by linarith

lemma block_count_reached: "n \<le> 16384 * block_count n"
  unfolding block_count_def by linarith

text \<open>
  How many bytes the blocks cover: \<open>left\<close> reaches 0 only when the piece length is a multiple of the
  block size; otherwise it wraps around and only the end of the files stops the loop.
\<close>

definition covered :: "nat \<Rightarrow> nat \<Rightarrow> nat" where
  "covered L rest = (if 16384 dvd L then min L rest else rest)"

lemma covered_le: "covered L rest \<le> rest"
  by (simp add: covered_def)

lemma covered_step:
  assumes "16384 * i < covered L rest"
  shows "16384 * i \<noteq> L" and "16384 * i < rest"
    and "16384 * i + min 16384 (rest - 16384 * i) = min (16384 * Suc i) (covered L rest)"
    and "min 16384 (rest - 16384 * i) = min 16384 (covered L rest - 16384 * i)"
proof -
  show "16384 * i \<noteq> L" and "16384 * i < rest"
    using assms by (auto simp: covered_def split: if_splits)
  have "16384 * Suc i \<le> L" if "16384 dvd L" "16384 * i < L"
    using that by (auto simp: dvd_def)
  then show "16384 * i + min 16384 (rest - 16384 * i) = min (16384 * Suc i) (covered L rest)"
    and "min 16384 (rest - 16384 * i) = min 16384 (covered L rest - 16384 * i)"
    using assms by (auto simp: covered_def min_def split: if_splits)
qed

lemma next_block_request_stop:
  "arr_get files cur = Inr fp \<Longrightarrow> fp = None \<or> left = 0 \<Longrightarrow>
   next_block_request h files off left piecelen cur = Inr (None, off, left, cur, h)"
  by (auto simp: next_block_request_def)

text \<open>
  The state of the loop after \<open>i\<close> blocks of a piece of nominal length \<open>L\<close> at position \<open>p\<close>, with \<open>D\<close>
  bytes to cover in all.
\<close>

definition piece_cursor :: "dl_file_t list \<Rightarrow> nat \<Rightarrow> nat \<Rightarrow> nat \<Rightarrow> nat \<Rightarrow> nat \<Rightarrow> nat \<Rightarrow> nat \<Rightarrow> bool" where
  "piece_cursor fs p L D i cur off left \<longleftrightarrow>
     at_pos fs cur off (p + min (16384 * i) D) \<and> left = size_sub L (min (16384 * i) D)"

lemma next_block_request_last:
  assumes "L < 2 ^ 64" and "p \<le> total_size fs" and D: "D = covered L (total_size fs - p)"
    and "block_count D \<le> i" and st: "piece_cursor fs p L D i cur off left"
  shows "next_block_request h (map Some fs @ None # xs) off left L cur = Inr (None, off, left, cur, h)"
proof -
  have m: "min (16384 * i) D = D" using block_count_reached [of D] assms(4) by simp
  have at: "at_pos fs cur off (p + D)" and left: "left = size_sub L D"
    using st by (simp_all add: piece_cursor_def m)
  have "cur = length fs \<or> left = 0"
  proof (cases "D = total_size fs - p")
    case True
    then show ?thesis using at assms(2) at_pos_total [of fs cur off] by simp
  next
    case False
    then have "D = L" by (auto simp: D covered_def min_def split: if_splits)
    then show ?thesis using left assms(1) by (simp add: size_sub_eq_0)
  qed
  moreover have "arr_get (map Some fs @ None # xs) cur = Inr (if cur < length fs then Some (fs ! cur) else None)"
    using at_pos_cur [OF at] by (auto simp: arr_get_def nth_append)
  from next_block_request_stop [OF this, of left h off L]
  show ?thesis using calculation by auto
qed

lemma next_block_request_plan:
  assumes ok: "files_ok fs" and h: "heap_ok h" and L: "L < 2 ^ 64" and p: "p \<le> total_size fs"
    and D: "D = covered L (total_size fs - p)"
    and i: "i < block_count D" and st: "piece_cursor fs p L D i cur off left"
  obtains block off' left' cur' where
    "next_block_request h (map Some fs @ None # xs) off left L cur = Inr (Some block, off', left', cur', h)"
    "block_covers fs p block (plan_block D i)" "piece_cursor fs p L D (Suc i) cur' off' left'"
proof -
  have lt: "16384 * i < D" using i block_count_less [of i D] by simp
  then have m: "min (16384 * i) D = 16384 * i" by simp
  let ?g = "p + 16384 * i"
  note step = covered_step [of i L "total_size fs - p", folded D, OF lt]
  have at: "at_pos fs cur off ?g" and left: "left = size_sub L (16384 * i)"
    using st unfolding piece_cursor_def m by simp_all
  have g: "?g < total_size fs" using step(2) p by simp
  then have k: "16384 * i < 2 ^ 63" "16384 * i < 2 ^ 64" using ok by (auto simp: files_ok_def)
  have "left \<noteq> 0" using left step(1) L k by (simp add: size_sub_eq_0)
  from next_block_request_ok [OF ok h at g this, where piecelen = L and xs = xs]
  obtain block off' cur' where nb:
    "next_block_request h (map Some fs @ None # xs) off left L cur =
       Inr (Some block, off', size_sub left (min 16384 (total_size fs - ?g)), cur', h)"
    "at_pos fs cur' off' (?g + min 16384 (total_size fs - ?g))"
    "br_begin block = sint (of_nat (size_sub L left) :: u64)"
    "br_len block = min 16384 (total_size fs - ?g)" "\<not> br_completed block"
    "list_all (mem_ok fs) (da_values (br_filemems block))"
    "concat (map (mem_span fs) (da_values (br_filemems block))) = [?g..<?g + min 16384 (total_size fs - ?g)]"
    by blast
  have beg: "sint (of_nat (size_sub L left) :: u64) = int (16384 * i)"
    using left k size_sub_back [of "16384 * i" L] by (simp only: sint_of_nat_small)
  have e: "min 16384 (total_size fs - ?g) = min 16384 (D - 16384 * i)"
    using step(4) by (simp only: diff_diff_left)
  have d: "16384 * i + min 16384 (total_size fs - ?g) = min (16384 * Suc i) D"
    using step(3) by (simp only: diff_diff_left)
  have "block_covers fs p block (plan_block D i)"
    using nb(3-7) [unfolded beg e] unfolding block_covers_def plan_block_def fst_conv snd_conv
    by (simp only: simp_thms)
  moreover have "piece_cursor fs p L D (Suc i) cur' off' (size_sub left (min 16384 (total_size fs - ?g)))"
    using nb(2) unfolding piece_cursor_def d [symmetric] left size_sub_size_sub add.assoc by simp
  ultimately show thesis using that nb(1) by blast
qed

lemma create_loop_ok:
  assumes ok: "files_ok fs" and h: "heap_ok h" and L: "L < 2 ^ 64" and p: "p \<le> total_size fs"
    and D: "D = covered L (total_size fs - p)"
  shows "i \<le> block_count D \<Longrightarrow> block_count D - i < fuel \<Longrightarrow> piece_cursor fs p L D i cur off left \<Longrightarrow>
    \<exists>blocks' bs. create_loop fuel h (map Some fs @ None # xs) off left L cur blocks = Inr (blocks', h) \<and>
      da_values blocks' = da_values blocks @ bs \<and>
      list_all2 (block_covers fs p) bs (map (plan_block D) [i..<block_count D])"
proof (induction fuel arbitrary: i cur off left blocks)
  case 0
  then show ?case by simp
next
  case (Suc fuel)
  show ?case
  proof (cases "i = block_count D")
    case True
    then show ?thesis using next_block_request_last [OF L p D _ Suc.prems(3)] by simp
  next
    case False
    then have i: "i < block_count D" using Suc.prems(1) by simp
    obtain block off' left' cur' where nb:
      "next_block_request h (map Some fs @ None # xs) off left L cur = Inr (Some block, off', left', cur', h)"
      "block_covers fs p block (plan_block D i)" "piece_cursor fs p L D (Suc i) cur' off' left'"
      using next_block_request_plan [OF ok h L p D i Suc.prems(3)] by blast
    obtain blocks1 where app: "da_append h blocks block = Inr (blocks1, h)" "da_values blocks1 = da_values blocks @ [block]"
      using da_append_ok [OF h, of blocks block] by blast
    have "Suc i \<le> block_count D" "block_count D - Suc i < fuel" using i Suc.prems(2) by simp_all
    from Suc.IH [OF this nb(3), of blocks1] obtain blocks' bs where
      "create_loop fuel h (map Some fs @ None # xs) off' left' L cur' blocks1 = Inr (blocks', h)"
      "da_values blocks' = da_values blocks1 @ bs"
      "list_all2 (block_covers fs p) bs (map (plan_block D) [Suc i..<block_count D])" by blast
    then show ?thesis
      using nb(1,2) app i by (intro exI [of _ blocks'] exI [of _ "block # bs"]) (simp add: upt_conv_Cons)
  qed
qed

lemma files_fuel_enough: "block_count (covered L (total_size fs - p)) < files_fuel (map Some fs @ xs)"
proof -
  have "block_count (covered L (total_size fs - p)) \<le> total_size fs"
    using block_count_le [of "covered L (total_size fs - p)"] covered_le [of L "total_size fs - p"] by linarith
  also have "total_size fs < files_fuel (map Some fs @ xs)"
    by (simp add: files_fuel_def total_size_def comp_def)
  finally show ?thesis .
qed

text \<open>What the whole call returns, for any piece length: the blocks of the plan for \<open>covered\<close> bytes.\<close>

lemma piece_request_create_any:
  assumes "heap_ok h" and "files_ok fs" and "mi_files torrent = map Some fs @ None # xs"
    and "L = info_piece_length (mi_info torrent)" and "L < 2 ^ 64"
    and "p = size_mul L (unat index)" and "p \<le> total_size fs" and "D = covered L (total_size fs - p)"
  obtains pr where "piece_request_create h torrent index = Inr (Some pr, h)" "pr_piece_index pr = index"
    "\<not> pr_freed pr" "pr_blocks_left pr = of_nat (block_count D)"
    "list_all2 (block_covers fs p) (da_values (pr_block_requests pr)) (block_plan D)"
proof -
  have "\<exists>cur' off'. skip_loop (map Some fs @ None # xs) 0 0 p = Inr (cur', off') \<and> at_pos fs cur' off' (file_start fs 0 + p)"
    using assms(2,7) by (intro skip_loop_ok) (auto simp: nth_append)
  then obtain cur off where cur: "skip_until_index (map Some fs @ None # xs) index torrent = Inr (cur, off)" "at_pos fs cur off p"
    using assms(4,6) by (auto simp: skip_until_index_def)
  have st: "piece_cursor fs p L D 0 cur off L" using cur(2) assms(5) by (simp add: piece_cursor_def)
  have fuel: "block_count D - 0 < files_fuel (map Some fs @ None # xs)"
    using files_fuel_enough [of L fs p "None # xs"] assms(8) by simp
  obtain blocks' where cl:
    "create_loop (files_fuel (map Some fs @ None # xs)) h (map Some fs @ None # xs) off L L cur \<lparr>da_cap = 16, da_values = []\<rparr> = Inr (blocks', h)"
    "list_all2 (block_covers fs p) (da_values blocks') (block_plan D)"
    using create_loop_ok [OF assms(2,1,5,7,8) _ fuel st, where blocks = "\<lparr>da_cap = 16, da_values = []\<rparr>" and xs = xs]
    by (auto simp: block_plan_def)
  have "da_len blocks' = block_count D"
    using list_all2_lengthD [OF cl(2)] by (simp add: da_len_def block_plan_def)
  then show thesis
    using that [of "\<lparr>pr_piece_index = index, pr_block_requests = blocks',
                     pr_blocks_left = of_nat (block_count D), pr_freed = False\<rparr>"] cl cur(1) assms(1,3,4)
    by (simp add: piece_request_create_def)
qed

text \<open>The product \<open>piece_length * index\<close> is exact when the piece starts inside the files.\<close>

lemma size_mul_piece: "files_ok fs \<Longrightarrow> L * i \<le> total_size fs \<Longrightarrow> size_mul L i = L * i"
  using files_ok_size [of fs] by (simp add: size_mul_exact)

lemma piece_request_create_ok:
  assumes "heap_ok h" and "files_ok fs" and "mi_files torrent = map Some fs @ None # xs"
    and "L = info_piece_length (mi_info torrent)" and "L < 2 ^ 64"
    and "p = L * unat index" and "p \<le> total_size fs" and "D = covered L (total_size fs - p)"
  obtains pr where "piece_request_create h torrent index = Inr (Some pr, h)" "pr_piece_index pr = index"
    "\<not> pr_freed pr" "pr_blocks_left pr = of_nat (block_count D)"
    "list_all2 (block_covers fs p) (da_values (pr_block_requests pr)) (block_plan D)"
proof -
  have "p = size_mul L (unat index)" using size_mul_piece [of fs L "unat index"] assms(2,6,7) by simp
  then show thesis using piece_request_create_any [OF assms(1-5) _ assms(7,8)] that by metis
qed

lemma piece_request_create_past:
  assumes "heap_ok h" and "mi_files torrent = map Some fs @ None # xs"
    and "L = info_piece_length (mi_info torrent)" and "total_size fs < size_mul L (unat index)"
  shows "piece_request_create h torrent index = Inl Null_Deref"
  using assms skip_loop_past [where cur = 0 and fs = fs and skip = "size_mul L (unat index)" and off = 0 and xs = xs]
  by (simp add: piece_request_create_def skip_until_index_def)

section \<open>Properties\<close>

text \<open>All memory ranges of a piece, in order.\<close>

definition piece_mems :: "piece_request_t \<Rightarrow> filemem_t list" where
  "piece_mems pr = concat (map (\<lambda>br. da_values (br_filemems br)) (da_values (pr_block_requests pr)))"

lemma block_plan_tiles:
  "n \<le> block_count D \<Longrightarrow>
   concat (map (\<lambda>i. [p + fst (plan_block D i)..<p + fst (plan_block D i) + snd (plan_block D i)]) [0..<n]) =
   [p..<p + min (16384 * n) D]"
proof (induction n)
  case 0
  then show ?case by simp
next
  case (Suc n)
  then have "16384 * n < D" using block_count_less [of n D] by simp
  then have "min (16384 * n) D = 16384 * n" "16384 * n + min 16384 (D - 16384 * n) = min (16384 * Suc n) D"
    by (auto simp: min_def)
  then show ?case
    using Suc upt_split [of p "p + 16384 * n" "p + 16384 * n + min 16384 (D - 16384 * n)"]
    by (simp add: plan_block_def add.assoc)
qed

lemma covers_spans:
  "list_all2 (block_covers fs p) bs bls \<Longrightarrow>
   concat (map (mem_span fs) (concat (map (\<lambda>br. da_values (br_filemems br)) bs))) =
   concat (map (\<lambda>bl. [p + fst bl..<p + fst bl + snd bl]) bls)"
  by (induction rule: list_all2_induct) (auto simp: block_covers_def)

lemma covers_mem_ok:
  "list_all2 (block_covers fs p) bs bls \<Longrightarrow>
   list_all (mem_ok fs) (concat (map (\<lambda>br. da_values (br_filemems br)) bs))"
  by (induction rule: list_all2_induct) (auto simp: block_covers_def)

lemma plan_spans:
  assumes "list_all2 (block_covers fs p) (da_values (pr_block_requests pr)) (block_plan D)"
  shows "concat (map (mem_span fs) (piece_mems pr)) = [p..<p + D]"
  using covers_spans [OF assms] block_plan_tiles [of "block_count D" D p] block_count_reached [of D]
  by (simp add: piece_mems_def block_plan_def comp_def)

text \<open>A two-file torrent with pieces of one block, used by the examples: 20000 and 30000 bytes.\<close>

definition sample_files :: "dl_file_t list" where
  "sample_files = [\<lparr>df_size = 20000, df_data = replicate 20000 1, df_path = ''a''\<rparr>,
                   \<lparr>df_size = 30000, df_data = replicate 30000 2, df_path = ''b''\<rparr>]"

definition sample_torrent :: "nat \<Rightarrow> dl_file_t option list \<Rightarrow> metainfo_t" where
  "sample_torrent L files =
     \<lparr>mi_announce = None, mi_announce_list = [],
      mi_info = \<lparr>info_mode = INFO_MULTI, info_piece_length = L, info_name = Some ''s'', info_num_pieces = 0,
                 info_pieces = [], info_length = 0, info_files = []\<rparr>,
      mi_info_hash = replicate 20 0, mi_max_peers = 1,
      mi_sh = \<lparr>sh_state = TORRENT_STATE_LEECHING, sh_peer_connections = \<lparr>da_cap = 16, da_values = []\<rparr>,
               sh_piece_states = [], sh_pieces_left = 0, sh_completed = False\<rparr>,
      mi_files = files\<rparr>"

lemma sample_files_simps [simp]:
  "total_size sample_files = 50000" "files_ok sample_files"
  "mi_files (sample_torrent L files) = files"
  "info_piece_length (mi_info (sample_torrent L files)) = L"
  by (simp_all add: sample_files_def sample_torrent_def total_size_def files_ok_def)

text \<open>
  C3. Requesting a piece cuts it exactly: when the piece length is a multiple of the 16 KiB block size
  (and the array of files ends with NULL), \<open>piece_request_create\<close> returns the planned blocks (offsets
  0, 16384, \<dots>; all of 16 KiB but the last of a shortened last piece), every range lies inside its
  file, and the ranges laid end to end are the positions of the piece, each once and in order, also
  where the piece crosses files.
\<close>
theorem piece_request_tiles_piece:
  assumes "heap_ok h" and "files_ok fs" and "mi_files torrent = map Some fs @ None # xs"
    and "L = info_piece_length (mi_info torrent)" and "L < 2 ^ 64" and "16384 dvd L"
    and "p = L * unat index" and "p \<le> total_size fs" and "n = min L (total_size fs - p)"
  shows "\<exists>pr. piece_request_create h torrent index = Inr (Some pr, h) \<and>
    pr_piece_index pr = index \<and> pr_blocks_left pr = of_nat (length (da_values (pr_block_requests pr))) \<and>
    list_all2 (block_covers fs p) (da_values (pr_block_requests pr)) (block_plan n) \<and>
    list_all (mem_ok fs) (piece_mems pr) \<and>
    concat (map (mem_span fs) (piece_mems pr)) = [p..<p + n]"
proof -
  have n: "n = covered L (total_size fs - p)" using assms(6,9) by (simp add: covered_def)
  obtain pr where pr: "piece_request_create h torrent index = Inr (Some pr, h)" "pr_piece_index pr = index"
    "pr_blocks_left pr = of_nat (block_count n)"
    "list_all2 (block_covers fs p) (da_values (pr_block_requests pr)) (block_plan n)"
    using piece_request_create_ok [OF assms(1-5,7,8) n] by blast
  then show ?thesis
    using plan_spans [OF pr(4)] covers_mem_ok [OF pr(4)] list_all2_lengthD [OF pr(4)]
    by (auto simp: piece_mems_def block_plan_def)
qed

theorem piece_request_tiles_piece_witness:
  "\<exists>pr. piece_request_create calm_heap (sample_torrent 32768 (map Some sample_files @ [None])) 1 = Inr (Some pr, calm_heap) \<and>
    pr_piece_index pr = 1 \<and> pr_blocks_left pr = of_nat (length (da_values (pr_block_requests pr))) \<and>
    list_all2 (block_covers sample_files 32768) (da_values (pr_block_requests pr)) (block_plan 17232) \<and>
    list_all (mem_ok sample_files) (piece_mems pr) \<and>
    concat (map (mem_span sample_files) (piece_mems pr)) = [32768..<32768 + 17232]"
  by (rule piece_request_tiles_piece [where L = 32768 and xs = "[]"]) simp_all

lemma block_at_finds:
  assumes "list_all2 (block_covers fs p) (da_values (pr_block_requests pr)) (block_plan n)" and "\<not> pr_freed pr"
  shows "piece_request_block_at pr offset =
    (if 0 \<le> offset \<and> offset < int n \<and> 16384 dvd offset
     then Inr (Some (da_values (pr_block_requests pr) ! (nat offset div 16384)))
     else Inr None)"
proof -
  let ?bs = "da_values (pr_block_requests pr)"
  have len: "length ?bs = block_count n" using list_all2_lengthD [OF assms(1)] by (simp add: block_plan_def)
  have beg: "br_begin (?bs ! i) = int (16384 * i)" if "i < block_count n" for i
    using list_all2_nthD2 [OF assms(1), of i] that by (simp add: block_plan_def block_covers_def plan_block_def)
  have "find (\<lambda>br. br_begin br = offset) ?bs =
    (if 0 \<le> offset \<and> offset < int n \<and> 16384 dvd offset then Some (?bs ! (nat offset div 16384)) else None)"
  proof (cases "0 \<le> offset \<and> offset < int n \<and> 16384 dvd offset")
    case True
    then obtain k where k: "offset = int (16384 * k)" "16384 * k < n" by (auto elim!: dvdE) (metis nat_0_le of_nat_mult of_nat_numeral zero_le_mult_iff)
    then have "k < block_count n" by (simp add: block_count_less)
    then show ?thesis
      using k len beg True by (auto simp: find_Some_iff nat_mult_distrib intro!: exI [of _ k])
  next
    case False
    have "br_begin (?bs ! i) \<noteq> offset" if "i < length ?bs" for i
      using that False beg [of i] len block_count_less [of i n] by auto
    then show ?thesis using False by (auto simp: find_None_iff in_set_conv_nth)
  qed
  then show ?thesis using assms(2) by (simp add: piece_request_block_at_def)
qed

text \<open>
  \<open>piece_request_block_at\<close> finds the block that starts at a given offset, and answers NULL for
  every offset at which no block of the piece starts.
\<close>
theorem piece_request_block_at_finds:
  assumes "list_all2 (block_covers fs p) (da_values (pr_block_requests pr)) (block_plan n)" and "\<not> pr_freed pr"
  shows "piece_request_block_at pr offset =
    (if 0 \<le> offset \<and> offset < int n \<and> 16384 dvd offset
     then Inr (Some (da_values (pr_block_requests pr) ! (nat offset div 16384)))
     else Inr None)"
  by (rule block_at_finds [OF assms])

theorem piece_request_block_at_finds_witness:
  "let pr = \<lparr>pr_piece_index = 0,
              pr_block_requests = \<lparr>da_cap = 16, da_values =
                [\<lparr>br_filemems = \<lparr>da_cap = 16, da_values = [\<lparr>fm_file = 0, fm_off = 5, fm_size = 7\<rparr>]\<rparr>,
                  br_begin = 0, br_len = 7, br_completed = False\<rparr>]\<rparr>,
              pr_blocks_left = 1, pr_freed = False\<rparr>
   in piece_request_block_at pr 0 = Inr (Some (da_values (pr_block_requests pr) ! 0)) \<and>
      piece_request_block_at pr 5 = Inr None"
proof -
  let ?br = "\<lparr>br_filemems = \<lparr>da_cap = 16, da_values = [\<lparr>fm_file = 0, fm_off = 5, fm_size = 7\<rparr>]\<rparr>,
               br_begin = 0, br_len = 7, br_completed = False\<rparr>"
  let ?pr = "\<lparr>pr_piece_index = 0, pr_block_requests = \<lparr>da_cap = 16, da_values = [?br]\<rparr>,
               pr_blocks_left = 1, pr_freed = False\<rparr> :: piece_request_t"
  have "list_all2 (block_covers sample_files 5) (da_values (pr_block_requests ?pr)) (block_plan 7)"
    by (simp add: block_plan_def block_count_def plan_block_def block_covers_def mem_ok_def mem_span_def sample_files_def)
  from piece_request_block_at_finds [OF this, of 0] piece_request_block_at_finds [OF this, of 5]
  show ?thesis by (simp add: Let_def)
qed

text \<open>
  A piece length that is no multiple of the block size is not respected: the counter \<open>left\<close> skips
  zero and wraps around, so the blocks of such a piece run on to the end of the last file.
\<close>
theorem piece_request_overruns:
  assumes "heap_ok h" and "files_ok fs" and "mi_files torrent = map Some fs @ None # xs"
    and "L = info_piece_length (mi_info torrent)" and "L < 2 ^ 64" and "\<not> 16384 dvd L"
    and "p = L * unat index" and "p \<le> total_size fs"
  shows "\<exists>pr. piece_request_create h torrent index = Inr (Some pr, h) \<and>
    concat (map (mem_span fs) (piece_mems pr)) = [p..<total_size fs]"
proof -
  let ?D = "total_size fs - p"
  have D: "?D = covered L (total_size fs - p)" using assms(6) by (simp add: covered_def)
  obtain pr where pr: "piece_request_create h torrent index = Inr (Some pr, h)"
    "list_all2 (block_covers fs p) (da_values (pr_block_requests pr)) (block_plan ?D)"
    using piece_request_create_ok [OF assms(1-5,7,8) D] by blast
  then show ?thesis using plan_spans [OF pr(2)] assms(8) by auto
qed

theorem piece_request_overruns_witness:
  "\<exists>pr. piece_request_create calm_heap (sample_torrent 10000 (map Some sample_files @ [None])) 1 = Inr (Some pr, calm_heap) \<and>
    concat (map (mem_span sample_files) (piece_mems pr)) = [10000..<total_size sample_files]"
  by (rule piece_request_overruns [where L = 10000 and xs = "[]"]) simp_all

text \<open>
  The index is not checked: for a piece that starts behind the end of the files,
  \<open>piece_request_create\<close> dereferences the NULL entry that ends the array.
\<close>
theorem piece_request_index_unchecked:
  assumes "heap_ok h" and "mi_files torrent = map Some fs @ None # xs"
    and "L = info_piece_length (mi_info torrent)" and "L * unat index < 2 ^ 64"
    and "total_size fs < L * unat index"
  shows "piece_request_create h torrent index = Inl Null_Deref"
  using assms by (intro piece_request_create_past [where fs = fs and L = L and xs = xs]) (simp_all add: size_mul_exact)

theorem piece_request_index_unchecked_witness:
  "piece_request_create calm_heap (sample_torrent 32768 (map Some sample_files @ [None])) 2 = Inl Null_Deref"
  by (rule piece_request_index_unchecked [where fs = sample_files and L = 32768 and xs = "[]"]) simp_all

section \<open>Without the terminating NULL\<close>

text \<open>
  The loops of \<open>next_block_request\<close> either read behind the array or do what they do with the NULL
  entry in place.
\<close>

lemma block_loop_no_null:
  "block_loop files cur off left fm c h = Inl Out_Of_Bounds \<or>
   block_loop files cur off left fm c h = block_loop (files @ [None]) cur off left fm c h"
proof (induction files cur off left fm c h rule: block_loop.induct)
  case (1 files cur off left fm c h)
  show ?case
  proof (cases "cur < length files \<and> files ! cur \<noteq> None")
    case False
    then show ?thesis by (auto simp: block_loop.simps arr_get_def nth_append)
  next
    case True
    then obtain f where get: "arr_get files cur = Inr (Some f)" "arr_get (files @ [None]) cur = Inr (Some f)"
      by (auto simp: nth_append)
    obtain mem off' cur' where round: "block_round cur f off c = (mem, off', cur')" by (metis prod_cases3)
    show ?thesis
    proof (cases "da_append h fm mem")
      case (Inl e)
      then show ?thesis using get round by (simp add: block_loop.simps)
    next
      case (Inr r)
      obtain fm' h' where r: "r = (fm', h')" by fastforce
      note eqs = block_loop.simps [of files cur off left fm c h] block_loop.simps [of "files @ [None]" cur off left fm c h]
      show ?thesis
      proof (cases "c + of_nat (fm_size mem) < of_nat PEER_REQUEST_SIZE \<and> cur' < length files \<and> files ! cur' \<noteq> None")
        case True
        then show ?thesis
          using "1.IH" [OF get(1) refl round [symmetric] refl refl refl Inr r [symmetric]] Inr r get round
          by (auto simp: eqs nth_append)
      next
        case False
        then show ?thesis using Inr r get round by (cases "cur' < length files") (auto simp: eqs Let_def nth_append)
      qed
    qed
  qed
qed

lemma c_bind_oob:
  "m = Inl Out_Of_Bounds \<or> m = m' \<Longrightarrow> c_bind m f = Inl Out_Of_Bounds \<or> c_bind m f = c_bind m' f"
  by auto

lemma next_block_request_no_null:
  "next_block_request h files off left L cur = Inl Out_Of_Bounds \<or>
   next_block_request h files off left L cur = next_block_request h (files @ [None]) off left L cur"
proof (cases "cur < length files \<and> files ! cur \<noteq> None \<and> left \<noteq> 0")
  case True
  then show ?thesis
    using c_bind_oob [OF block_loop_no_null [of files cur off left]]
    by (auto simp: next_block_request_def nth_append split: prod.splits option.splits)
next
  case False
  then show ?thesis by (cases "cur < length files") (auto simp: next_block_request_def nth_append)
qed

lemma create_loop_no_null:
  assumes ok: "files_ok fs" and h: "heap_ok h" and L: "L < 2 ^ 64" and p: "p \<le> total_size fs"
    and D: "D = covered L (total_size fs - p)" and all: "D = total_size fs - p"
  shows "i \<le> block_count D \<Longrightarrow> block_count D - i < fuel \<Longrightarrow> piece_cursor fs p L D i cur off left \<Longrightarrow>
    create_loop fuel h (map Some fs) off left L cur blocks = Inl Out_Of_Bounds"
proof (induction fuel arbitrary: i cur off left blocks)
  case 0
  then show ?case by simp
next
  case (Suc fuel)
  show ?case
  proof (cases "i = block_count D")
    case True
    then have "min (16384 * i) D = D" using block_count_reached [of D] by simp
    then have "at_pos fs cur off (total_size fs)" using Suc.prems(3) all p by (simp add: piece_cursor_def)
    then show ?thesis using at_pos_total [of fs cur off] by (simp add: next_block_request_def)
  next
    case False
    then have i: "i < block_count D" using Suc.prems(1) by simp
    obtain block off' left' cur' where nb:
      "next_block_request h (map Some fs @ [None]) off left L cur = Inr (Some block, off', left', cur', h)"
      "block_covers fs p block (plan_block D i)" "piece_cursor fs p L D (Suc i) cur' off' left'"
      using next_block_request_plan [OF ok h L p D i Suc.prems(3)] by blast
    obtain blocks1 where app: "da_append h blocks block = Inr (blocks1, h)"
      using da_append_ok [OF h, of blocks block] by blast
    have "create_loop fuel h (map Some fs) off' left' L cur' blocks1 = Inl Out_Of_Bounds"
      using i Suc.prems(2) by (intro Suc.IH [OF _ _ nb(3)]) simp_all
    then show ?thesis using next_block_request_no_null [of h "map Some fs" off left L cur] nb(1) app by auto
  qed
qed

text \<open>
  The array of files of a multi-file torrent has no terminating NULL entry; requesting a piece
  that reaches the end of the files (the last piece) then reads behind the array.
\<close>
theorem piece_request_needs_null:
  assumes "heap_ok h" and "files_ok fs" and "mi_files torrent = map Some fs"
    and "L = info_piece_length (mi_info torrent)" and "L < 2 ^ 64"
    and "p = L * unat index" and "p \<le> total_size fs" and "total_size fs \<le> p + L"
  shows "piece_request_create h torrent index = Inl Out_Of_Bounds"
proof -
  let ?D = "covered L (total_size fs - p)"
  have D: "?D = total_size fs - p" using assms(7,8) by (simp add: covered_def)
  have "p < 2 ^ 64" using assms(2,7) by (auto simp: files_ok_def)
  then have sk: "size_mul L (unat index) = p" using assms(6) by (simp add: size_mul_exact)
  have "\<exists>cur' off'. skip_loop (map Some fs) 0 0 p = Inr (cur', off') \<and> at_pos fs cur' off' (file_start fs 0 + p)"
    using assms(2,7) by (intro skip_loop_ok) auto
  then obtain cur off where cur: "skip_until_index (map Some fs) index torrent = Inr (cur, off)" "at_pos fs cur off p"
    using sk assms(4) by (auto simp: skip_until_index_def)
  have "piece_cursor fs p L ?D 0 cur off L" using cur(2) assms(5) by (simp add: piece_cursor_def)
  then have "create_loop (files_fuel (map Some fs)) h (map Some fs) off L L cur \<lparr>da_cap = 16, da_values = []\<rparr> = Inl Out_Of_Bounds"
    using files_fuel_enough [of L fs p "[]"]
    by (intro create_loop_no_null [OF assms(2,1,5,7) refl D]) auto
  then show ?thesis using cur(1) assms(1,3,4) by (simp add: piece_request_create_def)
qed

theorem piece_request_needs_null_witness:
  "piece_request_create calm_heap (sample_torrent 32768 (map Some sample_files)) 1 = Inl Out_Of_Bounds"
  by (rule piece_request_needs_null [of _ sample_files _ 32768 32768]) simp_all

text \<open>After \<open>piece_request_free\<close> the copy of the struct that is still in use reads freed memory.\<close>

lemma piece_request_block_at_freed:
  "piece_request_free pr = Inr pr' \<Longrightarrow> da_values (pr_block_requests pr) \<noteq> [] \<Longrightarrow>
   piece_request_block_at pr' off = Inl Use_After_Free"
  by (auto simp: piece_request_free_def piece_request_block_at_def split: if_splits)

end
