(* ===== verification/Peer_Msg.thy ===== *)
theory Peer_Msg
  imports Net_Stream Bitfield Piece_Request
begin

text \<open>
  \<open>src/peer-msg\<close> and \<open>src/byte-str\<close>: the handshake and the messages of the peer wire protocol, on top of
  the stream of \<open>Net_Stream\<close>. Receiving a block writes its bytes into the mapped files, so
  \<open>peer_msg_recv\<close> returns the torrent as well.
\<close>

section \<open>Byte strings\<close>

record byte_str_t =
  bs_size :: nat
  bs_str :: "byte list"

text \<open>
  \<open>str\<close> is the memory that can be read from the pointer on: copying more than its length reads outside
  the object. The stored string is \<open>size\<close> bytes and a NUL.
\<close>

definition byte_str_new :: "c_heap \<Rightarrow> nat \<Rightarrow> byte list \<Rightarrow> (byte_str_t option \<times> c_heap) c_result" where
  "byte_str_new h n str =
     (case alloc h of (ok, h') \<Rightarrow>
        if ok then c_bind (mem_read str 0 n) (\<lambda>bs. Inr (Some \<lparr>bs_size = n, bs_str = bs @ [0]\<rparr>, h'))
        else Inr (None, h'))"

section \<open>Handshake\<close>

definition pstr :: "byte list" where
  "pstr = map (\<lambda>c. of_nat (of_char c)) ''BitTorrent protocol''"

definition HANDSHAKE_LEN :: nat where
  "HANDSHAKE_LEN = 1 + length pstr + 8 + 20 + 20"

text \<open>
  \<open>req_buf\<close> is filled piece by piece; \<open>junk\<close> is its content before. \<open>peer_id\<close> is the global array of 20
  bytes.
\<close>

definition handshake_buf :: "byte list \<Rightarrow> byte list \<Rightarrow> byte list \<Rightarrow> byte list c_result" where
  "handshake_buf junk peer_id info_hash =
     (let pstrlen = length pstr in
      c_bind (mem_write junk 0 [of_nat pstrlen]) (\<lambda>b1.
      c_bind (mem_write b1 1 pstr) (\<lambda>b2.
      c_bind (mem_write b2 (int (1 + pstrlen)) (replicate 8 0)) (\<lambda>b3.
      c_bind (mem_read info_hash 0 20) (\<lambda>ih.
      c_bind (mem_write b3 (int (1 + pstrlen + 8)) ih) (\<lambda>b4.
      c_bind (mem_read peer_id 0 20) (\<lambda>pid.
      c_bind (mem_write b4 (int (1 + pstrlen + 8 + 20)) pid) (\<lambda>b5.
      c_bind (c_assert (1 + pstrlen + 8 + 20 + 20 = HANDSHAKE_LEN)) (\<lambda>_. Inr b5)))))))))"

definition peer_send_handshake ::
  "(nat \<Rightarrow> byte) \<Rightarrow> byte list \<Rightarrow> sock \<Rightarrow> byte list \<Rightarrow> (int \<times> sock) c_result" where
  "peer_send_handshake junk peer_id sk info_hash =
     c_bind (handshake_buf (map junk [0..<HANDSHAKE_LEN]) peer_id info_hash) (\<lambda>req_buf.
       Inr (send_buff sk req_buf))"

text \<open>\<open>strncmp (a, b, n) == 0\<close>: the comparison stops at the first difference or common NUL.\<close>

fun strncmp_eq :: "nat \<Rightarrow> byte list \<Rightarrow> byte list \<Rightarrow> bool c_result" where
  "strncmp_eq 0 as bs = Inr True"
| "strncmp_eq (Suc n) (a # as) (b # bs) =
     (if a \<noteq> b then Inr False else if a = 0 then Inr True else strncmp_eq n as bs)"
| "strncmp_eq (Suc n) as bs = Inl Out_Of_Bounds"

text \<open>\<open>Some id\<close>: return value 0 with \<open>out_peer_id\<close> set to \<open>id\<close>; \<open>None\<close>: \<open>-1\<close>.\<close>

definition peer_recv_handshake :: "sock \<Rightarrow> byte list \<Rightarrow> (byte list option \<times> sock) c_result" where
  "peer_recv_handshake sk info_hash =
     (case peer_recv sk HANDSHAKE_LEN of (rc, buff, sk') \<Rightarrow>
        if rc < 0 then Inr (None, sk') else
        c_bind (arr_get buff 0) (\<lambda>b0.
          if b0 \<noteq> of_nat (length pstr) then Inr (None, sk') else
          c_bind (strncmp_eq (length pstr) (drop 1 buff) pstr) (\<lambda>same_pstr.
            if \<not> same_pstr then Inr (None, sk') else
            c_bind (strncmp_eq 20 (drop (1 + length pstr + 8) buff) info_hash) (\<lambda>same_hash.
              if \<not> same_hash then Inr (None, sk') else
              c_bind (mem_read buff (int (1 + length pstr + 8 + 20)) 20) (\<lambda>out_peer_id.
                Inr (Some out_peer_id, sk'))))))"

section \<open>Messages\<close>

datatype msg_type_t =
    MSG_CHOKE | MSG_UNCHOKE | MSG_INTERESTED | MSG_NOT_INTERESTED | MSG_HAVE | MSG_BITFIELD
  | MSG_REQUEST | MSG_PIECE | MSG_CANCEL | MSG_PORT | MSG_KEEPALIVE | MSG_MAX

text \<open>The value of an enumerator, and the enumerator of a received type byte.\<close>

definition msg_types :: "msg_type_t list" where
  "msg_types = [MSG_CHOKE, MSG_UNCHOKE, MSG_INTERESTED, MSG_NOT_INTERESTED, MSG_HAVE, MSG_BITFIELD,
                MSG_REQUEST, MSG_PIECE, MSG_CANCEL, MSG_PORT, MSG_KEEPALIVE, MSG_MAX]"

primrec msg_code :: "msg_type_t \<Rightarrow> nat" where
  "msg_code MSG_CHOKE = 0"
| "msg_code MSG_UNCHOKE = 1"
| "msg_code MSG_INTERESTED = 2"
| "msg_code MSG_NOT_INTERESTED = 3"
| "msg_code MSG_HAVE = 4"
| "msg_code MSG_BITFIELD = 5"
| "msg_code MSG_REQUEST = 6"
| "msg_code MSG_PIECE = 7"
| "msg_code MSG_CANCEL = 8"
| "msg_code MSG_PORT = 9"
| "msg_code MSG_KEEPALIVE = 10"
| "msg_code MSG_MAX = 11"

record request_msg_t =
  rq_index :: u32
  rq_begin :: u32
  rq_length :: u32

record piece_msg_t =
  pc_index :: u32
  pc_begin :: u32
  pc_blocklen :: nat

text \<open>The struct with its union: each message type carries the member of the union it uses.\<close>

datatype peer_msg_t =
    Choke
  | Unchoke
  | Interested
  | Not_Interested
  | Have u32
  | Bitfield "byte_str_t option"
  | Request request_msg_t
  | Piece piece_msg_t
  | Cancel
  | Port u32
  | Keepalive
  | Max

primrec pm_type :: "peer_msg_t \<Rightarrow> msg_type_t" where
  "pm_type Choke = MSG_CHOKE"
| "pm_type Unchoke = MSG_UNCHOKE"
| "pm_type Interested = MSG_INTERESTED"
| "pm_type Not_Interested = MSG_NOT_INTERESTED"
| "pm_type (Have x) = MSG_HAVE"
| "pm_type (Bitfield b) = MSG_BITFIELD"
| "pm_type (Request r) = MSG_REQUEST"
| "pm_type (Piece p) = MSG_PIECE"
| "pm_type Cancel = MSG_CANCEL"
| "pm_type (Port x) = MSG_PORT"
| "pm_type Keepalive = MSG_KEEPALIVE"
| "pm_type Max = MSG_MAX"

definition msgbuf_len :: "msg_type_t \<Rightarrow> metainfo_t \<Rightarrow> u32" where
  "msgbuf_len type torrent =
     (case type of
        MSG_KEEPALIVE \<Rightarrow> 0
      | MSG_PIECE \<Rightarrow> of_nat (1 + 2 * 4 + PEER_REQUEST_SIZE)
      | MSG_BITFIELD \<Rightarrow> of_nat (1 + BITFIELD_NUM_BYTES (info_num_pieces (mi_info torrent)))
      | MSG_REQUEST \<Rightarrow> of_nat (1 + 3 * 4)
      | MSG_HAVE \<Rightarrow> of_nat (1 + 4)
      | MSG_PORT \<Rightarrow> of_nat (1 + 4)
      | _ \<Rightarrow> 1)"

section \<open>Sending\<close>

text \<open>\<open>if (send_buff (sockfd, bs, n) < 0) return -1; \<dots>\<close>\<close>

definition send_then ::
  "sock \<Rightarrow> byte list \<Rightarrow> (sock \<Rightarrow> (int \<times> sock) c_result) \<Rightarrow> (int \<times> sock) c_result" where
  "send_then sk bs k = (case send_buff sk bs of (rc, sk') \<Rightarrow> if rc < 0 then Inr (-1, sk') else k sk')"

text \<open>The \<open>switch\<close> at the end of \<open>peer_msg_send\<close>.\<close>

definition send_payload :: "sock \<Rightarrow> peer_msg_t \<Rightarrow> u32 \<Rightarrow> (int \<times> sock) c_result" where
  "send_payload sk msg len =
     (case msg of
        Keepalive \<Rightarrow> send_then sk [] (\<lambda>sk'. c_bind (c_assert (ntohl len = 1)) (\<lambda>_. Inr (0, sk')))
      | Choke \<Rightarrow> c_bind (c_assert (ntohl len = 1)) (\<lambda>_. Inr (0, sk))
      | Unchoke \<Rightarrow> c_bind (c_assert (ntohl len = 1)) (\<lambda>_. Inr (0, sk))
      | Interested \<Rightarrow> c_bind (c_assert (ntohl len = 1)) (\<lambda>_. Inr (0, sk))
      | Not_Interested \<Rightarrow> c_bind (c_assert (ntohl len = 1)) (\<lambda>_. Inr (0, sk))
      | Piece p \<Rightarrow> Inr (0, sk)
      | Bitfield b \<Rightarrow>
          (case b of
             None \<Rightarrow> Inl Assert_Failed
           | Some s \<Rightarrow> c_bind (mem_read (bs_str s) 0 (bs_size s)) (\<lambda>bs. Inr (send_buff sk bs)))
      | Request r \<Rightarrow>
          send_then sk (u32_mem (htonl (rq_index r))) (\<lambda>sk1.
          send_then sk1 (u32_mem (htonl (rq_begin r))) (\<lambda>sk2.
          send_then sk2 (u32_mem (htonl (rq_length r))) (\<lambda>sk3. Inr (0, sk3))))
      | Have x \<Rightarrow> Inr (send_buff sk (u32_mem (htonl x)))
      | Port x \<Rightarrow> Inr (send_buff sk (u32_mem (htonl x)))
      | Cancel \<Rightarrow> Inr (-1, sk)
      | Max \<Rightarrow> Inr (-1, sk))"

definition peer_msg_send :: "sock \<Rightarrow> peer_msg_t \<Rightarrow> metainfo_t \<Rightarrow> (int \<times> sock) c_result" where
  "peer_msg_send sk msg torrent =
     (let len = htonl (msgbuf_len (pm_type msg) torrent) in
      send_then sk (u32_mem len) (\<lambda>sk1.
        if pm_type msg = MSG_KEEPALIVE then Inr (0, sk1) else
        send_then sk1 [of_nat (msg_code (pm_type msg))] (\<lambda>sk2. send_payload sk2 msg len)))"

section \<open>Receiving\<close>

text \<open>\<open>if (peer_recv (sockfd, buf, n) < 0) return -1; \<dots>\<close>, with what \<open>-1\<close> stands for as a parameter.\<close>

definition recv_then :: "sock \<Rightarrow> nat \<Rightarrow> (sock \<Rightarrow> 'r) \<Rightarrow> (byte list \<Rightarrow> sock \<Rightarrow> 'r) \<Rightarrow> 'r" where
  "recv_then sk n fail k = (case peer_recv sk n of (rc, bs, sk') \<Rightarrow> if rc < 0 then fail sk' else k bs sk')"

definition valid_len :: "msg_type_t \<Rightarrow> metainfo_t \<Rightarrow> u32 \<Rightarrow> bool" where
  "valid_len type torrent len =
     (if type = MSG_PIECE then 1 + 2 * 4 + 1 \<le> unat len \<and> unat len \<le> 1 + 2 * 4 + PEER_REQUEST_SIZE
      else len = msgbuf_len type torrent)"

text \<open>\<open>recv\<close> stores \<open>bs\<close> at the start of the memory range.\<close>

definition filemem_write :: "dl_file_t option list \<Rightarrow> filemem_t \<Rightarrow> byte list \<Rightarrow> dl_file_t option list c_result" where
  "filemem_write files mem bs =
     c_bind (arr_get files (fm_file mem)) (\<lambda>fp.
       case fp of None \<Rightarrow> Inl Null_Deref
       | Some f \<Rightarrow> c_bind (mem_write (df_data f) (int (fm_off mem)) bs) (\<lambda>d.
                    arr_set files (fm_file mem) (Some (f\<lparr>df_data := d\<rparr>))))"

primrec recv_mems ::
  "sock \<Rightarrow> dl_file_t option list \<Rightarrow> filemem_t list \<Rightarrow> (int \<times> sock \<times> dl_file_t option list) c_result" where
  "recv_mems sk files [] = Inr (0, sk, files)"
| "recv_mems sk files (mem # mems) =
     (case peer_recv sk (fm_size mem) of (rc, bs, sk') \<Rightarrow>
        c_bind (filemem_write files mem bs) (\<lambda>files'.
          if rc < 0 then Inr (-1, sk', files') else recv_mems sk' files' mems))"

text \<open>The payload, or \<open>None\<close> for \<open>-1\<close>.\<close>

definition peer_msg_recv_piece ::
  "c_heap \<Rightarrow> sock \<Rightarrow> metainfo_t \<Rightarrow> u32 \<Rightarrow> (piece_msg_t option \<times> sock \<times> metainfo_t \<times> c_heap) c_result" where
  "peer_msg_recv_piece h sk torrent len =
     recv_then sk 4 (\<lambda>sk1. Inr (None, sk1, torrent, h)) (\<lambda>b1 sk1.
     let index = ntohl (mem_u32 b1); left1 = len - 4 in
     recv_then sk1 4 (\<lambda>sk2. Inr (None, sk2, torrent, h)) (\<lambda>b2 sk2.
     let begin = ntohl (mem_u32 b2); left2 = left1 - 4;
         out = \<lparr>pc_index = index, pc_begin = begin, pc_blocklen = unat left2\<rparr> in
     c_bind (piece_request_create h torrent index) (\<lambda>(r, h1).
       case r of
         None \<Rightarrow> Inr (None, sk2, torrent, h1)
       | Some pr \<Rightarrow>
           c_bind (piece_request_block_at pr (int (unat begin))) (\<lambda>b.
             case b of
               None \<Rightarrow> Inr (None, sk2, torrent, h1)
             | Some br \<Rightarrow>
                 c_bind (recv_mems sk2 (mi_files torrent) (da_values (br_filemems br))) (\<lambda>(rc, sk3, files').
                 c_bind (piece_request_free pr) (\<lambda>_.
                   Inr (if rc < 0 then None else Some out, sk3, torrent\<lparr>mi_files := files'\<rparr>, h1)))))))"

text \<open>
  The \<open>switch\<close> of \<open>peer_msg_recv\<close>: the message, or \<open>None\<close> for \<open>-1\<close>. \<open>lit\<close> is the memory that can be read
  at the address of the literal \<open>""\<close>, from which \<open>byte_str_new (left, "")\<close> copies \<open>left\<close> bytes; C
  guarantees only its NUL byte.
\<close>

type_synonym recv_result = "(peer_msg_t option \<times> sock \<times> metainfo_t \<times> c_heap) c_result"

definition recv_payload :: "byte list \<Rightarrow> c_heap \<Rightarrow> sock \<Rightarrow> metainfo_t \<Rightarrow> msg_type_t \<Rightarrow> u32 \<Rightarrow> recv_result" where
  "recv_payload lit h sk torrent type left =
     (let fail = (\<lambda>sk'. Inr (None, sk', torrent, h)); done = (\<lambda>m sk'. Inr (Some m, sk', torrent, h)) in
      case type of
        MSG_CHOKE \<Rightarrow> c_bind (c_assert (left = 0)) (\<lambda>_. done Choke sk)
      | MSG_UNCHOKE \<Rightarrow> c_bind (c_assert (left = 0)) (\<lambda>_. done Unchoke sk)
      | MSG_INTERESTED \<Rightarrow> c_bind (c_assert (left = 0)) (\<lambda>_. done Interested sk)
      | MSG_NOT_INTERESTED \<Rightarrow> c_bind (c_assert (left = 0)) (\<lambda>_. done Not_Interested sk)
      | MSG_PIECE \<Rightarrow>
          c_bind (c_assert (left > 0)) (\<lambda>_.
          c_bind (peer_msg_recv_piece h sk torrent left) (\<lambda>(r, sk', torrent', h').
            Inr (map_option Piece r, sk', torrent', h')))
      | MSG_BITFIELD \<Rightarrow>
          recv_then sk (unat left) fail (\<lambda>buf sk'.
            c_bind (byte_str_new h (unat left) lit) (\<lambda>(s, h').
              case s of
                None \<Rightarrow> Inr (None, sk', torrent, h')
              | Some str \<Rightarrow>
                  c_bind (mem_write (bs_str str) 0 buf) (\<lambda>d.
                    Inr (Some (Bitfield (Some (str\<lparr>bs_str := d\<rparr>))), sk', torrent, h'))))
      | MSG_REQUEST \<Rightarrow>
          recv_then sk (unat left) fail (\<lambda>buf sk'.
            c_bind (c_assert (unat left = 3 * 4)) (\<lambda>_.
            c_bind (mem_read buf 0 4) (\<lambda>w0.
            c_bind (mem_read buf 4 4) (\<lambda>w1.
            c_bind (mem_read buf 8 4) (\<lambda>w2.
              done (Request \<lparr>rq_index = ntohl (mem_u32 w0), rq_begin = ntohl (mem_u32 w1),
                             rq_length = ntohl (mem_u32 w2)\<rparr>) sk')))))
      | MSG_HAVE \<Rightarrow>
          c_bind (c_assert (unat left = 4)) (\<lambda>_.
          recv_then sk (unat left) fail (\<lambda>b sk'. done (Have (ntohl (mem_u32 b))) sk'))
      | MSG_PORT \<Rightarrow>
          c_bind (c_assert (unat left = 4)) (\<lambda>_.
          recv_then sk (unat left) fail (\<lambda>b sk'. done (Port (ntohl (mem_u32 b))) sk'))
      | _ \<Rightarrow> fail sk)"

definition peer_msg_recv :: "byte list \<Rightarrow> c_heap \<Rightarrow> sock \<Rightarrow> metainfo_t \<Rightarrow> recv_result" where
  "peer_msg_recv lit h sk torrent =
     (let fail = (\<lambda>sk'. Inr (None, sk', torrent, h)) in
      recv_then sk 4 fail (\<lambda>b0 sk0.
        let len = ntohl (mem_u32 b0) in
        if len = 0 then Inr (Some Keepalive, sk0, torrent, h) else
        recv_then sk0 1 fail (\<lambda>bt sk1.
          if unat (hd bt) \<ge> msg_code MSG_MAX then fail sk1 else
          let type = msg_types ! unat (hd bt) in
          if \<not> valid_len type torrent len then fail sk1
          else recv_payload lit h sk1 torrent type (len - 1))))"

text \<open>
  Whether a message seems to have arrived. \<open>peek\<close> is what \<open>recv (\<dots>, 4, MSG_PEEK | MSG_DONTWAIT)\<close>
  returns: \<open>None\<close> (\<open>-1\<close>) when nothing has arrived on an open stream; then \<open>len\<close> stays uninitialised
  (\<open>junk\<close>), and the cast of \<open>-1\<close> to \<open>uint32_t\<close> passes the size test. The sum with \<open>sizeof (uint16_t)\<close> is
  computed in 64 bits.
\<close>

definition peek :: "sock \<Rightarrow> byte list option" where
  "peek sk =
     (if sk_ready sk = 0 \<and> (sk_in sk \<noteq> [] \<or> sk_broken sk) then None
      else Some (take 4 (take (sk_ready sk) (sk_in sk))))"

definition peer_msg_buff_nonempty :: "u32 \<Rightarrow> sock \<Rightarrow> bool" where
  "peer_msg_buff_nonempty junk sk =
     (let n = (case peek sk of None \<Rightarrow> -1 | Some bs \<Rightarrow> of_nat (length bs)) :: u32;
          len = (case peek sk of None \<Rightarrow> junk | Some bs \<Rightarrow> mem_u32 bs)
      in if unat n < 4 then False
         else sk_ready sk \<ge> unat (ntohl len) + 2)"

section \<open>The wire format\<close>

text \<open>The specification of the format: length prefix, type byte, payload.\<close>

definition payload_bytes :: "peer_msg_t \<Rightarrow> byte list" where
  "payload_bytes msg =
     (case msg of
        Have x \<Rightarrow> be32 x
      | Port x \<Rightarrow> be32 x
      | Request r \<Rightarrow> be32 (rq_index r) @ be32 (rq_begin r) @ be32 (rq_length r)
      | Bitfield (Some s) \<Rightarrow> take (bs_size s) (bs_str s)
      | _ \<Rightarrow> [])"

definition msg_bytes :: "metainfo_t \<Rightarrow> peer_msg_t \<Rightarrow> byte list" where
  "msg_bytes torrent msg =
     (if msg = Keepalive then be32 0
      else be32 (msgbuf_len (pm_type msg) torrent) @ [of_nat (msg_code (pm_type msg))] @ payload_bytes msg)"

text \<open>
  The messages whose bytes determine them: all that carry no block, with a bitfield of the size the
  torrent asks for (its buffer holds a terminating NUL).
\<close>

definition wire_msg :: "metainfo_t \<Rightarrow> peer_msg_t \<Rightarrow> bool" where
  "wire_msg torrent msg =
     (case msg of
        Piece p \<Rightarrow> False
      | Cancel \<Rightarrow> False
      | Max \<Rightarrow> False
      | Bitfield b \<Rightarrow>
          (case b of None \<Rightarrow> False
           | Some s \<Rightarrow> bs_size s = BITFIELD_NUM_BYTES (info_num_pieces (mi_info torrent)) \<and>
                      Suc (bs_size s) < 2 ^ 32 \<and> length (bs_str s) = Suc (bs_size s) \<and> last (bs_str s) = 0)
      | _ \<Rightarrow> True)"

lemma msg_code_less [simp]: "msg_code t \<le> 11"
  by (cases t) simp_all

lemma msg_types_msg_code [simp]: "msg_types ! msg_code t = t"
  by (cases t) (simp_all add: msg_types_def)

lemma msg_code_byte [simp]: "unat (of_nat (msg_code t) :: byte) = msg_code t"
  by (cases t) simp_all

lemma send_then_open:
  assumes "wr.open_end sk"
  obtains sk' where "send_then sk bs = (\<lambda>k. k sk')" "sk_out sk' = sk_out sk @ bs" "wr.open_end sk'"
    "in_part sk' = in_part sk"
proof -
  obtain sk' where "send_buff sk bs = (0, sk')" "sk_out sk' = sk_out sk @ bs" "wr.open_end sk'" "in_part sk' = in_part sk"
    using wr.wr_open [OF assms, of bs] by metis
  then show thesis using that [of sk'] by (simp add: send_then_def fun_eq_iff)
qed

lemma recv_then_append:
  assumes "sk_in sk = bs @ rest" and "length bs = n"
  obtains sk' where "recv_then sk n = (\<lambda>fail k. k bs sk')" "sk_in sk' = rest" "out_part sk' = out_part sk"
proof -
  obtain sk' where "peer_recv sk n = (0, bs, sk')" "sk_in sk' = rest" "out_part sk' = out_part sk"
    using rd.rd_append [OF assms] by metis
  then show thesis using that [of sk'] by (simp add: recv_then_def fun_eq_iff)
qed

lemma send_payload_ok:
  assumes "wire_msg torrent msg" and "msg \<noteq> Keepalive" and "wr.open_end sk"
    and "len = htonl (msgbuf_len (pm_type msg) torrent)"
  obtains sk' where "send_payload sk msg len = Inr (0, sk')" "sk_out sk' = sk_out sk @ payload_bytes msg"
    "wr.open_end sk'" "in_part sk' = in_part sk"
proof (cases "\<exists>r. msg = Request r")
  case True
  then obtain r where msg: "msg = Request r" by blast
  obtain sk1 where s1: "send_then sk (be32 (rq_index r)) = (\<lambda>k. k sk1)" "sk_out sk1 = sk_out sk @ be32 (rq_index r)"
    "wr.open_end sk1" "in_part sk1 = in_part sk" by (rule send_then_open [OF assms(3), of "be32 (rq_index r)"])
  obtain sk2 where s2: "send_then sk1 (be32 (rq_begin r)) = (\<lambda>k. k sk2)" "sk_out sk2 = sk_out sk1 @ be32 (rq_begin r)"
    "wr.open_end sk2" "in_part sk2 = in_part sk1" by (rule send_then_open [OF s1(3), of "be32 (rq_begin r)"])
  obtain sk3 where s3: "send_then sk2 (be32 (rq_length r)) = (\<lambda>k. k sk3)" "sk_out sk3 = sk_out sk2 @ be32 (rq_length r)"
    "wr.open_end sk3" "in_part sk3 = in_part sk2" by (rule send_then_open [OF s2(3), of "be32 (rq_length r)"])
  show thesis
    using that [of sk3] s1 s2 s3 by (simp add: msg send_payload_def payload_bytes_def flip: be32_def)
next
  case False
  obtain sk' where w: "send_buff sk (payload_bytes msg) = (0, sk')" "sk_out sk' = sk_out sk @ payload_bytes msg"
    "wr.open_end sk'" "in_part sk' = in_part sk" by (rule wr.wr_open [OF assms(3), of "payload_bytes msg"])
  show thesis
    using assms False that [of sk'] that [of sk] w
    by (auto simp: send_payload_def payload_bytes_def be32_def wire_msg_def msgbuf_len_def mem_read_def
          split: peer_msg_t.splits option.splits)
qed

lemma peer_msg_send_ok:
  assumes "wire_msg torrent msg" and "wr.open_end sk"
  obtains sk' where "peer_msg_send sk msg torrent = Inr (0, sk')" "sk_out sk' = sk_out sk @ msg_bytes torrent msg"
    "wr.open_end sk'" "in_part sk' = in_part sk"
proof -
  let ?len = "msgbuf_len (pm_type msg) torrent"
  obtain sk1 where s1: "send_then sk (be32 ?len) = (\<lambda>k. k sk1)"
    "sk_out sk1 = sk_out sk @ be32 ?len" "wr.open_end sk1" "in_part sk1 = in_part sk"
    by (rule send_then_open [OF assms(2), of "be32 ?len"])
  show thesis
  proof (cases "msg = Keepalive")
    case True
    then show thesis
      using that [of sk1] s1 by (simp add: peer_msg_send_def msg_bytes_def msgbuf_len_def Let_def flip: be32_def)
  next
    case False
    then have t: "pm_type msg \<noteq> MSG_KEEPALIVE" by (cases msg) simp_all
    obtain sk2 where s2: "send_then sk1 [of_nat (msg_code (pm_type msg))] = (\<lambda>k. k sk2)"
      "sk_out sk2 = sk_out sk1 @ [of_nat (msg_code (pm_type msg))]" "wr.open_end sk2" "in_part sk2 = in_part sk1"
      by (rule send_then_open [OF s1(3), of "[of_nat (msg_code (pm_type msg))]"])
    obtain sk3 where s3: "send_payload sk2 msg (htonl ?len) = Inr (0, sk3)" "sk_out sk3 = sk_out sk2 @ payload_bytes msg"
      "wr.open_end sk3" "in_part sk3 = in_part sk2"
      by (rule send_payload_ok [OF assms(1) False s2(3) refl])
    show thesis
      using that [of sk3] s1 s2 s3 t False by (simp add: peer_msg_send_def msg_bytes_def Let_def flip: be32_def)
  qed
qed

lemma bitfield_len_minus_1: "n < 2 ^ 32 - 1 \<Longrightarrow> unat (of_nat (1 + n) - 1 :: u32) = n"
  by (simp add: unat_of_nat)

lemma byte_str_overwrite:
  assumes "length (bs_str s) = Suc (bs_size s)" and "last (bs_str s) = 0" and "bs_size s \<le> length lit"
  shows "mem_write (take (bs_size s) lit @ [0]) 0 (take (bs_size s) (bs_str s)) = Inr (bs_str s)"
proof -
  have "bs_str s = take (bs_size s) (bs_str s) @ [0]"
    using assms(1,2) by (metis append_butlast_last_id butlast_conv_take diff_Suc_1 length_0_conv nat.distinct(1))
  then show ?thesis using assms by (simp add: mem_write_def min_def)
qed

lemma recv_payload_ok:
  assumes "wire_msg torrent msg" and "msg \<noteq> Keepalive" and "sk_in sk = payload_bytes msg @ rest" and "heap_ok h"
    and "BITFIELD_NUM_BYTES (info_num_pieces (mi_info torrent)) \<le> length lit"
  obtains sk' where "recv_payload lit h sk torrent (pm_type msg) (msgbuf_len (pm_type msg) torrent - 1) =
      Inr (Some msg, sk', torrent, h)" "sk_in sk' = rest" "out_part sk' = out_part sk"
proof -
  let ?n = "length (payload_bytes msg)"
  obtain sk' where r: "recv_then sk ?n = (\<lambda>fail (k :: byte list \<Rightarrow> sock \<Rightarrow> recv_result). k (payload_bytes msg) sk')"
    "sk_in sk' = rest" "out_part sk' = out_part sk"
    by (rule recv_then_append [OF assms(3) refl])
  show thesis
  proof (cases msg)
    case (Bitfield b)
    then obtain s where s: "msg = Bitfield (Some s)" "bs_size s = BITFIELD_NUM_BYTES (info_num_pieces (mi_info torrent))"
      "Suc (bs_size s) < 2 ^ 32" "length (bs_str s) = Suc (bs_size s)" "last (bs_str s) = 0"
      using assms(1) by (auto simp: wire_msg_def split: option.splits)
    have n: "unat (msgbuf_len MSG_BITFIELD torrent - 1) = bs_size s"
      using bitfield_len_minus_1 [of "bs_size s"] s(2,3) by (simp add: msgbuf_len_def)
    show thesis
      using that [of sk'] r s n assms(4,5) byte_str_overwrite [OF s(4,5), of lit]
      by (simp add: recv_payload_def payload_bytes_def byte_str_new_def mem_read_def)
  next
    case (Request q)
    then show thesis
      using that [of sk'] r by (simp add: recv_payload_def payload_bytes_def msgbuf_len_def mem_read_def)
  next
    case (Have x)
    then show thesis using that [of sk'] r by (simp add: recv_payload_def payload_bytes_def msgbuf_len_def)
  next
    case (Port x)
    then show thesis using that [of sk'] r by (simp add: recv_payload_def payload_bytes_def msgbuf_len_def)
  qed (use assms(1-3) that [of sk] in
        \<open>simp_all add: recv_payload_def payload_bytes_def msgbuf_len_def wire_msg_def\<close>)
qed

lemma msgbuf_len_nonzero:
  "wire_msg torrent msg \<Longrightarrow> msg \<noteq> Keepalive \<Longrightarrow> msgbuf_len (pm_type msg) torrent \<noteq> 0"
proof (cases msg)
  case (Bitfield b)
  assume "wire_msg torrent msg"
  then have "Suc (BITFIELD_NUM_BYTES (info_num_pieces (mi_info torrent))) < 2 ^ 32"
    using Bitfield by (auto simp: wire_msg_def split: option.splits)
  then show ?thesis
    using Bitfield by (simp add: msgbuf_len_def word_unat_eq_iff unat_of_nat del: of_nat_Suc)
qed (simp_all add: msgbuf_len_def wire_msg_def)

lemma peer_msg_recv_ok:
  assumes "wire_msg torrent msg" and "sk_in sk = msg_bytes torrent msg @ rest" and "heap_ok h"
    and "BITFIELD_NUM_BYTES (info_num_pieces (mi_info torrent)) \<le> length lit"
  obtains sk' where "peer_msg_recv lit h sk torrent = Inr (Some msg, sk', torrent, h)" "sk_in sk' = rest"
    "out_part sk' = out_part sk"
proof (cases "msg = Keepalive")
  case True
  then have "sk_in sk = be32 0 @ rest" using assms(2) by (simp add: msg_bytes_def)
  then obtain sk' where "recv_then sk 4 = (\<lambda>fail (k :: byte list \<Rightarrow> sock \<Rightarrow> recv_result). k (be32 0) sk')"
    "sk_in sk' = rest" "out_part sk' = out_part sk" by (rule recv_then_append) simp
  then show thesis using True that [of sk'] by (simp add: peer_msg_recv_def Let_def)
next
  case False
  let ?len = "msgbuf_len (pm_type msg) torrent" and ?t = "of_nat (msg_code (pm_type msg)) :: byte"
  have "sk_in sk = be32 ?len @ ([?t] @ payload_bytes msg @ rest)" using False assms(2) by (simp add: msg_bytes_def)
  then obtain sk0 where s0: "recv_then sk 4 = (\<lambda>fail (k :: byte list \<Rightarrow> sock \<Rightarrow> recv_result). k (be32 ?len) sk0)"
    "sk_in sk0 = [?t] @ payload_bytes msg @ rest" "out_part sk0 = out_part sk" by (rule recv_then_append) simp
  have one: "length [?t] = 1" by simp
  obtain sk1 where s1: "recv_then sk0 1 = (\<lambda>fail (k :: byte list \<Rightarrow> sock \<Rightarrow> recv_result). k [?t] sk1)"
    "sk_in sk1 = payload_bytes msg @ rest" "out_part sk1 = out_part sk0"
    by (rule recv_then_append [OF s0(2) one])
  obtain sk2 where s2: "recv_payload lit h sk1 torrent (pm_type msg) (?len - 1) = Inr (Some msg, sk2, torrent, h)"
    "sk_in sk2 = rest" "out_part sk2 = out_part sk1"
    by (rule recv_payload_ok [OF assms(1) False s1(2) assms(3,4)])
  have t: "\<not> 11 \<le> msg_code (pm_type msg)" "valid_len (pm_type msg) torrent ?len"
    using assms(1) by (cases msg; simp add: wire_msg_def valid_len_def)+
  show thesis
    using that [of sk2] s0 s1 s2 t msgbuf_len_nonzero [OF assms(1) False]
    by (simp add: peer_msg_recv_def Let_def)
qed

section \<open>Properties\<close>

text \<open>
  C4. Round trip of the wire format: a message that carries no block (a bitfield of the right size, a
  have, a request, a port, a keep-alive, a choke or interest message) sent with \<open>peer_msg_send\<close> over a
  working connection is what \<open>peer_msg_recv\<close> returns at the other end, however the bytes are split
  into segments on the way, and the bytes behind it stay in the stream.
\<close>
theorem peer_msg_roundtrip:
  assumes "wire_msg torrent msg" and "sk_room sk = None" and "heap_ok h"
    and "BITFIELD_NUM_BYTES (info_num_pieces (mi_info torrent)) \<le> length lit"
  shows "\<exists>sk1 bs. peer_msg_send sk msg torrent = Inr (0, sk1) \<and> sk_out sk1 = sk_out sk @ bs \<and>
    (\<forall>sk2 rest. sk_in sk2 = bs @ rest \<longrightarrow>
      (\<exists>sk3. peer_msg_recv lit h sk2 torrent = Inr (Some msg, sk3, torrent, h) \<and> sk_in sk3 = rest))"
proof -
  have "wr.open_end sk" using assms(2) by (simp add: wr.open_end_def)
  then obtain sk1 where "peer_msg_send sk msg torrent = Inr (0, sk1)" "sk_out sk1 = sk_out sk @ msg_bytes torrent msg"
    by (rule peer_msg_send_ok [OF assms(1)])
  moreover have "\<exists>sk3. peer_msg_recv lit h sk2 torrent = Inr (Some msg, sk3, torrent, h) \<and> sk_in sk3 = rest"
    if "sk_in sk2 = msg_bytes torrent msg @ rest" for sk2 rest
    by (rule peer_msg_recv_ok [OF assms(1) that assms(3,4)]) blast
  ultimately show ?thesis by blast
qed

theorem peer_msg_roundtrip_witness:
  "let torrent = sample_torrent 32768 []; msg = Request \<lparr>rq_index = 7, rq_begin = 16384, rq_length = 16384\<rparr>;
       sk = \<lparr>sk_in = [], sk_ready = 0, sk_frag = [], sk_broken = False, sk_out = [9], sk_sfrag = [0, 2], sk_room = None\<rparr>
   in \<exists>sk1 bs. peer_msg_send sk msg torrent = Inr (0, sk1) \<and> sk_out sk1 = sk_out sk @ bs \<and>
    (\<forall>sk2 rest. sk_in sk2 = bs @ rest \<longrightarrow>
      (\<exists>sk3. peer_msg_recv [0] calm_heap sk2 torrent = Inr (Some msg, sk3, torrent, calm_heap) \<and> sk_in sk3 = rest))"
  unfolding Let_def
  by (rule peer_msg_roundtrip) (simp_all add: wire_msg_def sample_torrent_def BITFIELD_NUM_BYTES_def CHAR_BIT_def)

lemma pstr_length [simp]: "length pstr = 19"
  by (simp add: pstr_def)

lemma pstr_no_nul: "0 \<notin> set pstr"
  by (simp add: pstr_def)

lemma handshake_buf_ok:
  assumes "length junk = HANDSHAKE_LEN" and "length info_hash = 20" and "length peer_id = 20"
  shows "handshake_buf junk peer_id info_hash = Inr ([19] @ pstr @ replicate 8 0 @ info_hash @ peer_id)"
  using assms by (simp add: handshake_buf_def HANDSHAKE_LEN_def mem_write_def mem_read_def)

text \<open>What \<open>strncmp\<close> compares is the part before the first NUL.\<close>

definition c_string :: "byte list \<Rightarrow> byte list" where
  "c_string bs = takeWhile (\<lambda>b. b \<noteq> 0) bs"

lemma strncmp_eq_iff:
  "n \<le> length as \<Longrightarrow> n \<le> length bs \<Longrightarrow>
   strncmp_eq n as bs = Inr (c_string (take n as) = c_string (take n bs))"
proof (induction n as bs rule: strncmp_eq.induct)
  case (2 n a as b bs)
  then show ?case by (auto simp: c_string_def)
qed (auto simp: c_string_def)

lemma c_string_pstr:
  assumes "length bs = 19"
  shows "c_string bs = c_string pstr \<longleftrightarrow> bs = pstr"
proof
  have p: "c_string pstr = pstr" using pstr_no_nul by (auto simp: c_string_def takeWhile_eq_all_conv)
  assume eq: "c_string bs = c_string pstr"
  then have "length (c_string bs) = length bs" using assms p by simp
  then have "c_string bs = bs" unfolding c_string_def
    by (metis takeWhile_eq_take take_all_iff order_refl)
  then show "bs = pstr" using eq p by simp
qed simp

lemma handshake_decision:
  assumes "length info_hash = 20"
  shows "\<exists>sk'. sk_in sk' = drop 68 (sk_in sk) \<and>
    peer_recv_handshake sk info_hash =
      Inr (if 68 \<le> length (sk_in sk) \<and> take 20 (sk_in sk) = 19 # pstr \<and>
              c_string (take 20 (drop 28 (sk_in sk))) = c_string info_hash
           then Some (take 20 (drop 48 (sk_in sk))) else None, sk')"
proof (rule rd.rd_cases [of HANDSHAKE_LEN sk])
  fix sk' assume r: "HANDSHAKE_LEN \<le> length (sk_in sk)" "peer_recv sk HANDSHAKE_LEN = (0, take HANDSHAKE_LEN (sk_in sk), sk')"
    "sk_in sk' = drop HANDSHAKE_LEN (sk_in sk)"
  have n: "HANDSHAKE_LEN = 68" by (simp add: HANDSHAKE_LEN_def)
  obtain b bs where sk: "sk_in sk = b # bs" using r(1) n by (cases "sk_in sk") auto
  have len: "67 \<le> length bs" using r(1) n sk by simp
  have s1: "strncmp_eq 19 (take 67 bs) pstr = Inr (take 19 bs = pstr)"
    using strncmp_eq_iff [of 19 "take 67 bs" pstr] c_string_pstr [of "take 19 bs"] len by (simp add: min_def)
  have s2: "strncmp_eq 20 (drop 27 (take 67 bs)) info_hash = Inr (c_string (take 20 (drop 27 bs)) = c_string info_hash)"
    using strncmp_eq_iff [of 20 "drop 27 (take 67 bs)" info_hash] len assms by (simp add: drop_take)
  have s3: "take 20 (drop 47 (take 67 bs)) = take 20 (drop 47 bs)" by (simp add: drop_take)
  show ?thesis
    using r [unfolded n sk] sk len s1 s2 s3
    by (intro exI [of _ sk']) (simp add: peer_recv_handshake_def n mem_read_def)
next
  fix sk' assume "length (sk_in sk) < HANDSHAKE_LEN" "peer_recv sk HANDSHAKE_LEN = (-1, sk_in sk, sk')" "sk_in sk' = []"
  then show ?thesis by (intro exI [of _ sk']) (simp add: peer_recv_handshake_def HANDSHAKE_LEN_def)
qed

text \<open>
  The handshake is accepted exactly when 68 bytes arrive, the first 20 are the protocol header and
  the received info hash agrees with the torrent's up to the first NUL byte; the peer id returned is
  the last 20 bytes, and nothing behind the handshake is consumed. (The reserved bytes are ignored, as
  they should be; the comparison with \<open>strncmp\<close> is weaker than equality of the hashes.)
\<close>
theorem peer_recv_handshake_accepts:
  assumes "length info_hash = 20"
  shows "\<exists>sk'. sk_in sk' = drop 68 (sk_in sk) \<and>
    peer_recv_handshake sk info_hash =
      Inr (if 68 \<le> length (sk_in sk) \<and> take 20 (sk_in sk) = 19 # pstr \<and>
              c_string (take 20 (drop 28 (sk_in sk))) = c_string info_hash
           then Some (take 20 (drop 48 (sk_in sk))) else None, sk')"
  by (rule handshake_decision [OF assms])

definition plain_sock :: "byte list \<Rightarrow> sock" where
  "plain_sock bs = \<lparr>sk_in = bs, sk_ready = length bs, sk_frag = [], sk_broken = False, sk_out = [], sk_sfrag = [], sk_room = None\<rparr>"

lemma plain_sock_simps [simp]: "sk_in (plain_sock bs) = bs" "sk_room (plain_sock bs) = None" "sk_ready (plain_sock bs) = length bs"
  by (simp_all add: plain_sock_def)

text \<open>The example is a peer of another torrent that is let in: the hashes agree only up to their NUL.\<close>

theorem peer_recv_handshake_accepts_witness:
  "\<exists>sk'. peer_recv_handshake
      (plain_sock ((19 # pstr) @ replicate 8 0 @ (7 # 0 # replicate 18 1) @ replicate 20 5)) (7 # 0 # replicate 18 2) =
    Inr (Some (replicate 20 5), sk')"
  using peer_recv_handshake_accepts [of "7 # 0 # replicate 18 2"
    "plain_sock ((19 # pstr) @ replicate 8 0 @ (7 # 0 # replicate 18 1) @ replicate 20 5)"]
  by (auto simp: c_string_def)

text \<open>
  C33. Handshake round trip: what \<open>peer_send_handshake\<close> sends, \<open>peer_recv_handshake\<close> of a peer with the
  same torrent accepts, and it learns the sender's peer id.
\<close>
theorem handshake_roundtrip:
  assumes "length info_hash = 20" and "length peer_id = 20" and "sk_room sk = None"
  shows "\<exists>sk1 bs. peer_send_handshake junk peer_id sk info_hash = Inr (0, sk1) \<and> sk_out sk1 = sk_out sk @ bs \<and>
    (\<forall>sk2 rest. sk_in sk2 = bs @ rest \<longrightarrow>
      (\<exists>sk3. peer_recv_handshake sk2 info_hash = Inr (Some peer_id, sk3) \<and> sk_in sk3 = rest))"
proof -
  let ?bs = "[19] @ pstr @ replicate 8 0 @ info_hash @ peer_id"
  have "wr.open_end sk" using assms(3) by (simp add: wr.open_end_def)
  then obtain sk1 where s: "send_buff sk ?bs = (0, sk1)" "sk_out sk1 = sk_out sk @ ?bs"
    by (rule wr.wr_open [of _ ?bs])
  have "handshake_buf (map junk [0..<HANDSHAKE_LEN]) peer_id info_hash = Inr ?bs"
    by (rule handshake_buf_ok) (simp_all add: assms)
  then have "peer_send_handshake junk peer_id sk info_hash = Inr (0, sk1)"
    using s by (simp add: peer_send_handshake_def)
  moreover have "\<exists>sk3. peer_recv_handshake sk2 info_hash = Inr (Some peer_id, sk3) \<and> sk_in sk3 = rest"
    if "sk_in sk2 = ?bs @ rest" for sk2 rest
    using handshake_decision [OF assms(1), of sk2] that assms by (auto simp: c_string_def)
  ultimately show ?thesis using s(2) by blast
qed

theorem handshake_roundtrip_witness:
  "\<exists>sk1 bs. peer_send_handshake (\<lambda>_. 255) (replicate 20 6) (plain_sock []) (replicate 20 3) = Inr (0, sk1) \<and>
    sk_out sk1 = sk_out (plain_sock []) @ bs \<and>
    (\<forall>sk2 rest. sk_in sk2 = bs @ rest \<longrightarrow>
      (\<exists>sk3. peer_recv_handshake sk2 (replicate 20 3) = Inr (Some (replicate 20 6), sk3) \<and> sk_in sk3 = rest))"
  by (rule handshake_roundtrip) simp_all

section \<open>Receiving a block\<close>

text \<open>Overwriting part of a byte sequence; \<open>same_shape\<close>: only the contents of the files differ.\<close>

definition overwrite :: "'a list \<Rightarrow> nat \<Rightarrow> 'a list \<Rightarrow> 'a list" where
  "overwrite xs off ys = take off xs @ ys @ drop (off + length ys) xs"

definition same_shape :: "dl_file_t list \<Rightarrow> dl_file_t list \<Rightarrow> bool" where
  "same_shape fs fs' \<longleftrightarrow> map df_size fs' = map df_size fs \<and> map df_path fs' = map df_path fs"

lemma overwrite_Nil [simp]: "overwrite xs off [] = xs"
  by (simp add: overwrite_def)

lemma overwrite_length [simp]: "off + length ys \<le> length xs \<Longrightarrow> length (overwrite xs off ys) = length xs"
  by (simp add: overwrite_def)

lemma overwrite_overwrite:
  "off + length (ys @ zs) \<le> length xs \<Longrightarrow> overwrite (overwrite xs off ys) (off + length ys) zs = overwrite xs off (ys @ zs)"
  by (simp add: overwrite_def add.commute add.left_commute)

lemma overwrite_append_middle:
  "off + length ys \<le> length xs \<Longrightarrow> overwrite (as @ xs @ bs) (length as + off) ys = as @ overwrite xs off ys @ bs"
  by (simp add: overwrite_def)

lemma same_shape_refl [simp]: "same_shape fs fs"
  by (simp add: same_shape_def)

lemma same_shape_trans: "same_shape fs gs \<Longrightarrow> same_shape gs hs \<Longrightarrow> same_shape fs hs"
  by (simp add: same_shape_def)

lemma same_shape_facts:
  assumes "same_shape fs gs"
  shows "length gs = length fs" "file_start gs i = file_start fs i" "mem_span gs m = mem_span fs m"
    "mem_ok gs m = mem_ok fs m" "total_size gs = total_size fs"
proof -
  have sz: "map df_size gs = map df_size fs" using assms by (simp add: same_shape_def)
  show len: "length gs = length fs" using arg_cong [OF sz, of length] by simp
  show st: "file_start gs i = file_start fs i" for i using sz by (simp add: file_start_def take_map [symmetric])
  show "mem_span gs m = mem_span fs m" by (simp add: mem_span_def st)
  have "df_size (gs ! i) = df_size (fs ! i)" if "i < length fs" for i
    using sz len that by (metis nth_map)
  then show "mem_ok gs m = mem_ok fs m" by (auto simp: mem_ok_def len)
  show "total_size gs = total_size fs" by (simp add: total_size_def sz)
qed

lemma filemem_write_ok:
  assumes "files_wf fs" and "mem_ok fs m" and "length bs \<le> fm_size m"
  obtains fs' where "filemem_write (map Some fs @ xs) m bs = Inr (map Some fs' @ xs)" "same_shape fs fs'"
    "files_wf fs'" "all_data fs' = overwrite (all_data fs) (file_start fs (fm_file m) + fm_off m) bs"
proof -
  let ?i = "fm_file m"
  let ?f = "fs ! ?i"
  let ?f' = "?f\<lparr>df_data := overwrite (df_data ?f) (fm_off m) bs\<rparr>"
  let ?fs' = "fs[?i := ?f']"
  have i: "?i < length fs" and fits: "fm_off m + length bs \<le> length (df_data ?f)"
    and wf: "length (df_data ?f) = df_size ?f"
    using assms by (auto simp: mem_ok_def files_wf_def list_all_length)
  have "filemem_write (map Some fs @ xs) m bs = Inr (map Some ?fs' @ xs)"
    using i fits by (simp add: filemem_write_def nth_append mem_write_ok overwrite_def map_update list_update_append)
  moreover have "same_shape fs ?fs'"
    using i by (simp add: same_shape_def map_update list_update_same_conv)
  moreover have "files_wf ?fs'"
    using assms(1) i fits wf by (auto simp: files_wf_def list_all_length nth_list_update)
  moreover have "all_data ?fs' = overwrite (all_data fs) (file_start fs ?i + fm_off m) bs"
  proof -
    have split: "fs = take ?i fs @ ?f # drop (Suc ?i) fs" using i by (rule id_take_nth_drop)
    have "length (all_data (take ?i fs)) = file_start fs ?i"
      using all_data_length [of "take ?i fs"] assms(1)
      by (simp add: files_wf_def list_all_iff file_start_def total_size_def) (meson in_set_takeD)
    moreover have "all_data fs = all_data (take ?i fs) @ df_data ?f @ all_data (drop (Suc ?i) fs)"
      using arg_cong [OF split, of all_data] by (simp add: all_data_def)
    moreover have "all_data ?fs' = all_data (take ?i fs) @ overwrite (df_data ?f) (fm_off m) bs @ all_data (drop (Suc ?i) fs)"
      using i by (simp add: upd_conv_take_nth_drop all_data_def)
    ultimately show ?thesis using overwrite_append_middle [OF fits, of "all_data (take ?i fs)" "all_data (drop (Suc ?i) fs)"] by simp
  qed
  ultimately show thesis by (rule that)
qed

lemma upt_Cons_append:
  assumes "[a..<a + s] @ xs = [g..<g + n]"
  shows "s \<le> n" and "xs = [g + s..<g + n]" and "s = 0 \<or> a = g"
proof -
  have "s + length xs = n" using arg_cong [OF assms, of length] by simp
  then show s: "s \<le> n" by simp
  have "[g..<g + n] = [g..<g + s] @ [g + s..<g + n]" using s by (simp add: upt_split)
  then have eq: "[a..<a + s] = [g..<g + s] \<and> xs = [g + s..<g + n]" using assms by simp
  then show "xs = [g + s..<g + n]" by simp
  have "hd [a..<a + s] = a \<and> hd [g..<g + s] = g" if "0 < s" using that by simp
  then show "s = 0 \<or> a = g" using eq by (metis neq0_conv)
qed

lemma recv_mems_ok:
  "files_wf fs \<Longrightarrow> list_all (mem_ok fs) ms \<Longrightarrow> concat (map (mem_span fs) ms) = [g..<g + length block] \<Longrightarrow>
   g + length block \<le> total_size fs \<Longrightarrow> sk_in sk = block @ rest \<Longrightarrow>
   \<exists>fs' sk'. recv_mems sk (map Some fs @ xs) ms = Inr (0, sk', map Some fs' @ xs) \<and> sk_in sk' = rest \<and>
     out_part sk' = out_part sk \<and> same_shape fs fs' \<and> files_wf fs' \<and> all_data fs' = overwrite (all_data fs) g block"
proof (induction ms arbitrary: fs g block sk)
  case Nil
  have "length [g..<g + length block] = 0" using Nil(3) by simp
  then have "block = []" by simp
  then show ?case using Nil by auto
next
  case (Cons m ms)
  let ?a = "file_start fs (fm_file m) + fm_off m"
  have cat: "[?a..<?a + fm_size m] @ concat (map (mem_span fs) ms) = [g..<g + length block]"
    using Cons.prems(3) by (simp add: mem_span_def [of fs m])
  note sp = upt_Cons_append [OF cat]
  let ?b1 = "take (fm_size m) block" and ?b2 = "drop (fm_size m) block"
  have b1: "length ?b1 = fm_size m" using sp(1) by simp
  have "sk_in sk = ?b1 @ (?b2 @ rest)" using Cons.prems(5) by simp
  then obtain sk1 where r: "peer_recv sk (fm_size m) = (0, ?b1, sk1)" "sk_in sk1 = ?b2 @ rest" "out_part sk1 = out_part sk"
    using rd.rd_append [OF _ b1] by metis
  have ok: "mem_ok fs m" "list_all (mem_ok fs) ms" using Cons.prems(2) by simp_all
  obtain fs1 where w: "filemem_write (map Some fs @ xs) m ?b1 = Inr (map Some fs1 @ xs)" "same_shape fs fs1"
    "files_wf fs1" "all_data fs1 = overwrite (all_data fs) ?a ?b1"
    by (rule filemem_write_ok [OF Cons.prems(1) ok(1) eq_imp_le [OF b1]])
  note shape = same_shape_facts [OF w(2)]
  have d1: "all_data fs1 = overwrite (all_data fs) g ?b1"
    using sp(3) w(4) b1 by (cases "fm_size m = 0") auto
  have "\<exists>fs' sk'. recv_mems sk1 (map Some fs1 @ xs) ms = Inr (0, sk', map Some fs' @ xs) \<and> sk_in sk' = rest \<and>
     out_part sk' = out_part sk1 \<and> same_shape fs1 fs' \<and> files_wf fs' \<and>
     all_data fs' = overwrite (all_data fs1) (g + fm_size m) ?b2"
    using w(3) ok(2) sp(1,2) r(2) Cons.prems(4)
    by (intro Cons.IH) (auto simp: shape list_all_iff)
  then obtain fs' sk' where ih: "recv_mems sk1 (map Some fs1 @ xs) ms = Inr (0, sk', map Some fs' @ xs)"
    "sk_in sk' = rest" "out_part sk' = out_part sk1" "same_shape fs1 fs'" "files_wf fs'"
    "all_data fs' = overwrite (all_data fs1) (g + fm_size m) ?b2" by blast
  have "all_data fs' = overwrite (all_data fs) g block"
    using ih(6) d1 b1 overwrite_overwrite [of g ?b1 ?b2 "all_data fs"] Cons.prems(4) all_data_length [OF Cons.prems(1)]
    by simp
  then show ?case using r w ih same_shape_trans [OF w(2) ih(4)] by auto
qed

lemma recv_piece_ok:
  assumes "heap_ok h" and "files_ok fs" and "files_wf fs" and "mi_files torrent = map Some fs @ None # xs"
    and "L = info_piece_length (mi_info torrent)" and "L < 2 ^ 64" and "16384 dvd L"
    and "p = L * unat index" and "p \<le> total_size fs" and "n = min L (total_size fs - p)"
    and "(unat begin, l) \<in> set (block_plan n)" and "length block = l"
    and sk: "sk_in sk = be32 index @ be32 begin @ block @ rest"
  shows "\<exists>sk' fs'. peer_msg_recv_piece h sk torrent len =
      Inr (Some \<lparr>pc_index = index, pc_begin = begin, pc_blocklen = unat (len - 8)\<rparr>, sk',
           torrent\<lparr>mi_files := map Some fs' @ None # xs\<rparr>, h) \<and>
    sk_in sk' = rest \<and> out_part sk' = out_part sk \<and> same_shape fs fs' \<and> files_wf fs' \<and>
    all_data fs' = overwrite (all_data fs) (p + unat begin) block"
proof -
  have n: "n = covered L (total_size fs - p)" using assms(7,10) by (simp add: covered_def)
  obtain pr where pr: "piece_request_create h torrent index = Inr (Some pr, h)" "\<not> pr_freed pr"
    "list_all2 (block_covers fs p) (da_values (pr_block_requests pr)) (block_plan n)"
    using piece_request_create_ok [OF assms(1,2,4,5,6,8,9) n] by metis
  obtain i where i: "i < block_count n" "unat begin = 16384 * i" "l = min 16384 (n - 16384 * i)"
    using assms(11) by (auto simp: block_plan_def plan_block_def)
  then have lt: "16384 * i < n" by (simp add: block_count_less)
  let ?br = "da_values (pr_block_requests pr) ! i"
  have br: "piece_request_block_at pr (int (unat begin)) = Inr (Some ?br)"
    using block_at_finds [OF pr(3,2), of "int (unat begin)"] i(2) lt by (simp add: nat_mult_distrib)
  have cov: "block_covers fs p ?br (unat begin, l)"
    using list_all2_nthD2 [OF pr(3), of i] i by (simp add: block_plan_def plan_block_def)
  have fits: "p + unat begin + length block \<le> total_size fs"
    using i(2,3) lt assms(9,10,12) by linarith
  obtain sk1 where r1: "recv_then sk 4 = (\<lambda>fail (k :: byte list \<Rightarrow> sock \<Rightarrow> (piece_msg_t option \<times> sock \<times> metainfo_t \<times> c_heap) c_result). k (be32 index) sk1)"
    "sk_in sk1 = be32 begin @ block @ rest" "out_part sk1 = out_part sk"
    by (rule recv_then_append [OF sk]) simp
  obtain sk2 where r2: "recv_then sk1 4 = (\<lambda>fail (k :: byte list \<Rightarrow> sock \<Rightarrow> (piece_msg_t option \<times> sock \<times> metainfo_t \<times> c_heap) c_result). k (be32 begin) sk2)"
    "sk_in sk2 = block @ rest" "out_part sk2 = out_part sk1"
    by (rule recv_then_append [OF r1(2)]) simp
  obtain fs' sk' where m: "recv_mems sk2 (map Some fs @ None # xs) (da_values (br_filemems ?br)) = Inr (0, sk', map Some fs' @ None # xs)"
    "sk_in sk' = rest" "out_part sk' = out_part sk2" "same_shape fs fs'" "files_wf fs'"
    "all_data fs' = overwrite (all_data fs) (p + unat begin) block"
    using recv_mems_ok [OF assms(3) _ _ fits r2(2), of "da_values (br_filemems ?br)" "None # xs"] cov assms(12)
    by (auto simp: block_covers_def)
  have "peer_msg_recv_piece h sk torrent len =
      Inr (Some \<lparr>pc_index = index, pc_begin = begin, pc_blocklen = unat (len - 8)\<rparr>, sk',
           torrent\<lparr>mi_files := map Some fs' @ None # xs\<rparr>, h)"
    using r1(1) r2(1) pr(1,2) br m(1) assms(4)
    by (simp add: peer_msg_recv_piece_def piece_request_free_def Let_def)
  then show ?thesis using m r1(3) r2(3) by auto
qed

text \<open>
  C6. Receiving a block puts its bytes where they belong: for a \<open>piece\<close> message whose index and begin name
  a block of the torrent, the bytes that follow overwrite exactly the positions of that block in the
  files (also across file boundaries), every other byte and the stream behind the block stay as they
  are, and the message is reported. The announced length \<open>k\<close> only has to be in range: how many bytes are
  read is decided by the block's own length \<open>l\<close>, whatever \<open>k\<close> says.
\<close>
theorem peer_msg_recv_piece_stores:
  assumes "heap_ok h" and "files_ok fs" and "files_wf fs" and "mi_files torrent = map Some fs @ None # xs"
    and "L = info_piece_length (mi_info torrent)" and "L < 2 ^ 64" and "16384 dvd L"
    and "p = L * unat index" and "p \<le> total_size fs" and "n = min L (total_size fs - p)"
    and "(unat begin, l) \<in> set (block_plan n)" and "length block = l" and "1 \<le> k" and "k \<le> 16384"
    and "sk_in sk = be32 (of_nat (9 + k)) @ [7] @ be32 index @ be32 begin @ block @ rest"
  shows "\<exists>sk' fs'. peer_msg_recv lit h sk torrent =
      Inr (Some (Piece \<lparr>pc_index = index, pc_begin = begin, pc_blocklen = k\<rparr>), sk',
           torrent\<lparr>mi_files := map Some fs' @ None # xs\<rparr>, h) \<and>
    sk_in sk' = rest \<and> same_shape fs fs' \<and> files_wf fs' \<and>
    all_data fs' = overwrite (all_data fs) (p + unat begin) block"
proof -
  let ?len = "of_nat (9 + k) :: u32"
  have len: "unat ?len = 9 + k" using assms(14) by (simp only: unat_of_nat) simp
  have left: "unat (?len - 1 - 8) = k" using assms(14) by (simp add: unat_of_nat)
  obtain sk0 where s0: "recv_then sk 4 = (\<lambda>fail (k :: byte list \<Rightarrow> sock \<Rightarrow> recv_result). k (be32 ?len) sk0)"
    "sk_in sk0 = [7] @ be32 index @ be32 begin @ block @ rest" by (rule recv_then_append [OF assms(15)]) simp
  have one: "length [7 :: byte] = 1" by simp
  obtain sk1 where s1: "recv_then sk0 1 = (\<lambda>fail (k :: byte list \<Rightarrow> sock \<Rightarrow> recv_result). k [7] sk1)"
    "sk_in sk1 = be32 index @ be32 begin @ block @ rest" by (rule recv_then_append [OF s0(2) one])
  obtain sk' fs' where rp: "peer_msg_recv_piece h sk1 torrent (?len - 1) =
      Inr (Some \<lparr>pc_index = index, pc_begin = begin, pc_blocklen = unat (?len - 1 - 8)\<rparr>, sk',
           torrent\<lparr>mi_files := map Some fs' @ None # xs\<rparr>, h)"
    "sk_in sk' = rest" "same_shape fs fs'" "files_wf fs'" "all_data fs' = overwrite (all_data fs) (p + unat begin) block"
    using recv_piece_ok [OF assms(1-12) s1(2), of "?len - 1"] by blast
  have pos: "w \<noteq> 0" "0 < w - 1" if "1 < unat w" for w :: u32
    using that by (cases "w = 1"; auto simp: word_gt_0)+
  have "?len \<noteq> 0" "0 < ?len - 1" using len by (intro pos; simp only: len; simp)+
  moreover have "msg_types ! 7 = MSG_PIECE" by (simp add: msg_types_def)
  moreover have "valid_len MSG_PIECE torrent ?len" using len assms(13,14) by (simp add: valid_len_def PEER_REQUEST_SIZE_eq)
  ultimately have "peer_msg_recv lit h sk torrent =
      Inr (Some (Piece \<lparr>pc_index = index, pc_begin = begin, pc_blocklen = k\<rparr>), sk',
           torrent\<lparr>mi_files := map Some fs' @ None # xs\<rparr>, h)"
    using s0(1) s1(1) rp(1) left by (simp add: peer_msg_recv_def recv_payload_def Let_def)
  then show ?thesis using rp(2-5) by blast
qed

theorem peer_msg_recv_piece_stores_witness:
  "let f = \<lparr>df_size = 3, df_data = [1, 2, 3], df_path = ''f''\<rparr>; g = \<lparr>df_size = 2, df_data = [4, 5], df_path = ''g''\<rparr>;
       torrent = sample_torrent 16384 (map Some [f, g] @ [None])
   in \<exists>sk' fs'. peer_msg_recv [0] calm_heap
        (plain_sock (be32 (of_nat (9 + 5)) @ [7] @ be32 0 @ be32 0 @ [10, 20, 30, 40, 50] @ [])) torrent =
      Inr (Some (Piece \<lparr>pc_index = 0, pc_begin = 0, pc_blocklen = 5\<rparr>), sk',
           torrent\<lparr>mi_files := map Some fs' @ [None]\<rparr>, calm_heap) \<and>
    sk_in sk' = [] \<and> same_shape [f, g] fs' \<and> files_wf fs' \<and>
    all_data fs' = overwrite (all_data [f, g]) (0 + unat (0 :: u32)) [10, 20, 30, 40, 50]"
  unfolding Let_def
  by (rule peer_msg_recv_piece_stores [where L = 16384 and n = 5 and l = 5 and xs = "[]"])
     (simp_all add: files_ok_def files_wf_def total_size_def block_plan_def block_count_def plan_block_def)

section \<open>Arbitrary input\<close>

lemma recv_then_cases:
  obtains (fail) sk' where "recv_then sk n = (\<lambda>fail (k :: byte list \<Rightarrow> sock \<Rightarrow> 'r). fail sk')" "length (sk_in sk) < n" "sk_in sk' = []"
      "out_part sk' = out_part sk"
  | (ok) sk' where "recv_then sk n = (\<lambda>fail (k :: byte list \<Rightarrow> sock \<Rightarrow> 'r). k (take n (sk_in sk)) sk')" "n \<le> length (sk_in sk)"
      "sk_in sk' = drop n (sk_in sk)" "out_part sk' = out_part sk"
proof (rule rd.rd_cases [of n sk])
  fix sk' assume "n \<le> length (sk_in sk)" "peer_recv sk n = (0, take n (sk_in sk), sk')"
    "sk_in sk' = drop n (sk_in sk)" "out_part sk' = out_part sk"
  then show thesis using ok [of sk'] by (simp add: recv_then_def fun_eq_iff)
next
  fix sk' assume "length (sk_in sk) < n" "peer_recv sk n = (-1, sk_in sk, sk')" "sk_in sk' = []" "out_part sk' = out_part sk"
  then show thesis using fail [of sk'] by (simp add: recv_then_def fun_eq_iff)
qed

lemma recv_mems_safe:
  "files_wf fs \<Longrightarrow> list_all (mem_ok fs) ms \<Longrightarrow>
   \<exists>rc fs' sk'. recv_mems sk (map Some fs @ xs) ms = Inr (rc, sk', map Some fs' @ xs) \<and>
     (\<exists>used. sk_in sk = used @ sk_in sk') \<and> out_part sk' = out_part sk \<and> same_shape fs fs' \<and> files_wf fs'"
proof (induction ms arbitrary: fs sk)
  case Nil
  then show ?case by auto
next
  case (Cons m ms)
  obtain rc bs sk1 where r: "peer_recv sk (fm_size m) = (rc, bs, sk1)" by (metis prod_cases3)
  have le: "length bs \<le> fm_size m" using rd.rd_rc [OF r] by auto
  obtain fs1 where w: "filemem_write (map Some fs @ xs) m bs = Inr (map Some fs1 @ xs)" "same_shape fs fs1" "files_wf fs1"
    using filemem_write_ok [OF Cons.prems(1) _ le, of xs] Cons.prems(2) by auto
  have "list_all (mem_ok fs1) ms" using Cons.prems(2) same_shape_facts(4) [OF w(2)] by (simp add: list_all_iff)
  from Cons.IH [OF w(3) this, of sk1] obtain rc2 fs2 sk2 where
    ih: "recv_mems sk1 (map Some fs1 @ xs) ms = Inr (rc2, sk2, map Some fs2 @ xs)"
    "\<exists>used. sk_in sk1 = used @ sk_in sk2" "out_part sk2 = out_part sk1" "same_shape fs1 fs2" "files_wf fs2" by blast
  have "sk_in sk = bs @ sk_in sk1" "out_part sk1 = out_part sk" using rd.rd_prefix [OF r] rd.rd_frame [OF r] by simp_all
  then show ?case
    using r w ih same_shape_trans [OF w(2) ih(4)] by (cases "rc < 0") (auto intro: exI [of _ "bs @ _"])
qed

text \<open>
  The ordinary outcomes of receiving: the call returns, the files keep their shape, and what was
  consumed is a prefix of the stream.
\<close>

definition recv_returns :: "dl_file_t option list \<Rightarrow> dl_file_t list \<Rightarrow> metainfo_t \<Rightarrow> c_heap \<Rightarrow> sock \<Rightarrow> ('m \<times> sock \<times> metainfo_t \<times> c_heap) c_result \<Rightarrow> bool" where
  "recv_returns xs fs torrent h sk res \<longleftrightarrow>
     (\<exists>m sk' fs'. res = Inr (m, sk', torrent\<lparr>mi_files := map Some fs' @ None # xs\<rparr>, h) \<and>
        same_shape fs fs' \<and> files_wf fs' \<and> (\<exists>used. sk_in sk = used @ sk_in sk') \<and> out_part sk' = out_part sk)"

text \<open>The start of the piece that a \<open>piece\<close> message in the stream names.\<close>

definition named_piece :: "nat \<Rightarrow> byte list \<Rightarrow> nat" where
  "named_piece L bs = size_mul L (unat (ntohl (mem_u32 (take 4 bs))))"

lemma recv_returnsI:
  assumes "mi_files torrent = map Some fs @ None # xs" and "files_wf fs" and "sk_in sk = used @ sk_in sk'" and "out_part sk' = out_part sk"
  shows "recv_returns xs fs torrent h sk (Inr (m, sk', torrent, h))"
proof -
  have "torrent\<lparr>mi_files := map Some fs @ None # xs\<rparr> = torrent" using assms(1) by simp
  then show ?thesis unfolding recv_returns_def using assms same_shape_refl by metis
qed

lemma recv_returns_prefix:
  assumes "recv_returns xs fs torrent h sk1 res" and "sk_in sk = used @ sk_in sk1" and "out_part sk1 = out_part sk"
  shows "recv_returns xs fs torrent h sk res"
  using assms unfolding recv_returns_def by (metis append.assoc)

lemma recv_piece_safe:
  assumes "heap_ok h" and "files_ok fs" and "files_wf fs" and "mi_files torrent = map Some fs @ None # xs"
    and "L = info_piece_length (mi_info torrent)" and "L < 2 ^ 64"
  shows "recv_returns xs fs torrent h sk (peer_msg_recv_piece h sk torrent len) \<or>
    peer_msg_recv_piece h sk torrent len = Inl Null_Deref \<and> 8 \<le> length (sk_in sk) \<and>
    total_size fs < named_piece L (sk_in sk)"
proof (cases rule: recv_then_cases [of sk 4, where 'r = "(piece_msg_t option \<times> sock \<times> metainfo_t \<times> c_heap) c_result"])
  case (fail sk1)
  then show ?thesis
    using recv_returnsI [OF assms(4,3), of sk "sk_in sk" sk1] by (simp add: peer_msg_recv_piece_def)
next
  case (ok sk1)
  note r1 = ok
  let ?index = "ntohl (mem_u32 (take 4 (sk_in sk)))"
  show ?thesis
  proof (cases rule: recv_then_cases [of sk1 4, where 'r = "(piece_msg_t option \<times> sock \<times> metainfo_t \<times> c_heap) c_result"])
    case (fail sk2)
    then show ?thesis
      using r1 recv_returnsI [OF assms(4,3), of sk "sk_in sk" sk2] by (simp add: peer_msg_recv_piece_def Let_def)
  next
    case (ok sk2)
    have pre: "sk_in sk = take 8 (sk_in sk) @ sk_in sk2" "out_part sk2 = out_part sk" "8 \<le> length (sk_in sk)"
      using r1 ok by simp_all
    show ?thesis
    proof (cases "size_mul L (unat ?index) \<le> total_size fs")
      case False
      then have "piece_request_create h torrent ?index = Inl Null_Deref"
        by (intro piece_request_create_past [OF assms(1,4,5)]) simp
      then show ?thesis
        using r1(1) ok(1) pre(3) False by (simp add: peer_msg_recv_piece_def named_piece_def Let_def)
    next
      case True
      obtain pr where pr: "piece_request_create h torrent ?index = Inr (Some pr, h)" "\<not> pr_freed pr"
        "list_all (mem_ok fs) (piece_mems pr)"
        using piece_request_create_any [OF assms(1,2,4,5,6) refl True refl] covers_mem_ok
        unfolding piece_mems_def by metis
      let ?at = "find (\<lambda>br. br_begin br = int (unat (ntohl (mem_u32 (take 4 (sk_in sk1)))))) (da_values (pr_block_requests pr))"
      show ?thesis
      proof (cases ?at)
        case None
        then show ?thesis
          using r1(1) ok(1) pr(1,2) recv_returnsI [OF assms(4,3) pre(1,2)]
          by (simp add: peer_msg_recv_piece_def piece_request_block_at_def Let_def)
      next
        case (Some br)
        then have "br \<in> set (da_values (pr_block_requests pr))" by (auto simp: find_Some_iff)
        then have "list_all (mem_ok fs) (da_values (br_filemems br))" using pr(3) by (auto simp: piece_mems_def list_all_iff)
        from recv_mems_safe [OF assms(3) this, of sk2 "None # xs"] obtain rc fs' sk' where
          m: "recv_mems sk2 (map Some fs @ None # xs) (da_values (br_filemems br)) = Inr (rc, sk', map Some fs' @ None # xs)"
          "\<exists>used. sk_in sk2 = used @ sk_in sk'" "out_part sk' = out_part sk2" "same_shape fs fs'" "files_wf fs'" by blast
        then have "recv_returns xs fs torrent h sk2 (Inr (x, sk', torrent\<lparr>mi_files := map Some fs' @ None # xs\<rparr>, h))" for x :: "piece_msg_t option"
          unfolding recv_returns_def by blast
        from recv_returns_prefix [OF this pre(1,2)]
        show ?thesis
          using r1(1) ok(1) pr(1,2) Some m(1) assms(4)
          by (simp add: peer_msg_recv_piece_def piece_request_block_at_def piece_request_free_def Let_def)
      qed
    qed
  qed
qed

lemma recv_then_returns:
  fixes k :: "byte list \<Rightarrow> sock \<Rightarrow> ('m option \<times> sock \<times> metainfo_t \<times> c_heap) c_result"
  assumes "mi_files torrent = map Some fs @ None # xs" and "files_wf fs"
    and "\<And>sk'. n \<le> length (sk_in sk) \<Longrightarrow> \<exists>m. k (take n (sk_in sk)) sk' = Inr (m, sk', torrent, h)"
  shows "recv_returns xs fs torrent h sk (recv_then sk n (\<lambda>sk'. Inr (None, sk', torrent, h)) k)"
proof (cases rule: recv_then_cases [of sk n, where 'r = "('m option \<times> sock \<times> metainfo_t \<times> c_heap) c_result"])
  case (fail sk')
  then show ?thesis using recv_returnsI [OF assms(1,2), of sk "sk_in sk" sk'] by simp
next
  case (ok sk')
  then obtain m where "k (take n (sk_in sk)) sk' = Inr (m, sk', torrent, h)" using assms(3) by blast
  then show ?thesis using ok recv_returnsI [OF assms(1,2), of sk "take n (sk_in sk)" sk'] by simp
qed

lemma recv_payload_safe:
  assumes "heap_ok h" and "files_ok fs" and "files_wf fs" and "mi_files torrent = map Some fs @ None # xs"
    and "L = info_piece_length (mi_info torrent)" and "L < 2 ^ 64"
    and "BITFIELD_NUM_BYTES (info_num_pieces (mi_info torrent)) \<le> length lit" and "valid_len type torrent len"
  shows "recv_returns xs fs torrent h sk (recv_payload lit h sk torrent type (len - 1)) \<or>
    recv_payload lit h sk torrent type (len - 1) = Inl Null_Deref \<and> type = MSG_PIECE \<and> 8 \<le> length (sk_in sk) \<and>
    total_size fs < named_piece L (sk_in sk)"
proof -
  have now: "recv_returns xs fs torrent h sk (Inr (m, sk, torrent, h))" for m :: "peer_msg_t option"
    using recv_returnsI [OF assms(4,3), of sk "[]" sk] by simp
  note rd = recv_then_returns [OF assms(4,3)]
  show ?thesis
  proof (cases type)
    case MSG_PIECE
    then have "10 \<le> unat len" using assms(8) by (simp add: valid_len_def)
    then have "0 < len - 1" by (cases "len = 1") (auto simp: word_gt_0)
    then show ?thesis
      using MSG_PIECE recv_piece_safe [OF assms(1-6), of sk "len - 1"]
      by (auto simp: recv_payload_def recv_returns_def)
  next
    case MSG_BITFIELD
    let ?nb = "BITFIELD_NUM_BYTES (info_num_pieces (mi_info torrent))"
    have "len - 1 = of_nat ?nb" using MSG_BITFIELD assms(8) by (simp add: valid_len_def msgbuf_len_def)
    then have "unat (len - 1) \<le> length lit" using assms(7) le_trans [of "unat (len - 1)" ?nb] by (simp add: unat_of_nat)
    then show ?thesis
      using MSG_BITFIELD assms(1)
      by (auto simp: recv_payload_def byte_str_new_def mem_read_def mem_write_def intro!: rd)
  next
    case MSG_REQUEST
    then have "unat (len - 1) = 12" using assms(8) by (simp add: valid_len_def msgbuf_len_def)
    then show ?thesis using MSG_REQUEST by (auto simp: recv_payload_def mem_read_def intro!: rd)
  next
    case MSG_HAVE
    then have "unat (len - 1) = 4" using assms(8) by (simp add: valid_len_def msgbuf_len_def)
    then show ?thesis using MSG_HAVE by (auto simp: recv_payload_def intro!: rd)
  next
    case MSG_PORT
    then have "unat (len - 1) = 4" using assms(8) by (simp add: valid_len_def msgbuf_len_def)
    then show ?thesis using MSG_PORT by (auto simp: recv_payload_def intro!: rd)
  qed (use assms(8) now in \<open>auto simp: recv_payload_def valid_len_def msgbuf_len_def\<close>)
qed



lemma send_piece_header:
  assumes "wr.open_end sk"
  obtains sk' where "peer_msg_send sk (Piece p) torrent = Inr (0, sk')" "sk_out sk' = sk_out sk @ be32 16393 @ [7]"
    "wr.open_end sk'" "in_part sk' = in_part sk"
proof -
  obtain sk1 where s1: "send_then sk (be32 16393) = (\<lambda>k. k sk1)" "sk_out sk1 = sk_out sk @ be32 16393" "wr.open_end sk1"
    "in_part sk1 = in_part sk" by (rule send_then_open [OF assms, of "be32 16393"])
  obtain sk2 where s2: "send_then sk1 [7] = (\<lambda>k. k sk2)" "sk_out sk2 = sk_out sk1 @ [7]" "wr.open_end sk2"
    "in_part sk2 = in_part sk1" by (rule send_then_open [OF s1(3), of "[7]"])
  show thesis
    using that [of sk2] s1 s2
    by (simp add: peer_msg_send_def send_payload_def msgbuf_len_def PEER_REQUEST_SIZE_eq Let_def flip: be32_def)
qed

text \<open>
  A \<open>piece\<close> message is sent as a header that announces a whole block, and nothing after it: the
  answer to a request carries neither index nor begin nor data, although \<open>peer_msg_send\<close> returns 0.
\<close>
theorem peer_msg_send_piece_empty:
  assumes "sk_room sk = None"
  shows "\<exists>sk'. peer_msg_send sk (Piece p) torrent = Inr (0, sk') \<and> sk_out sk' = sk_out sk @ be32 16393 @ [7]"
proof -
  have "wr.open_end sk" using assms by (simp add: wr.open_end_def)
  then show ?thesis by (rule send_piece_header) blast
qed

theorem peer_msg_send_piece_empty_witness:
  "\<exists>sk'. peer_msg_send (plain_sock []) (Piece \<lparr>pc_index = 1, pc_begin = 0, pc_blocklen = 16384\<rparr>) (sample_torrent 32768 []) =
      Inr (0, sk') \<and> sk_out sk' = sk_out (plain_sock []) @ be32 16393 @ [7]"
  by (rule peer_msg_send_piece_empty) simp

text \<open>
  \<open>peer_msg_buff_nonempty\<close> answers whether the length prefix and all but two of the bytes it
  announces have arrived; the value left in the uninitialised \<open>len\<close> when nothing has arrived never
  matters. (For a complete message four bytes more than the announced length are needed, not two.)
\<close>
theorem peer_msg_buff_nonempty_iff:
  assumes "sk_ready sk \<le> length (sk_in sk)"
  shows "peer_msg_buff_nonempty junk sk \<longleftrightarrow>
    4 \<le> sk_ready sk \<and> unat (ntohl (mem_u32 (take 4 (sk_in sk)))) + 2 \<le> sk_ready sk"
proof (cases "sk_ready sk = 0")
  case True
  then show ?thesis by (auto simp: peer_msg_buff_nonempty_def peek_def)
next
  case False
  let ?m = "min 4 (sk_ready sk)"
  have pk: "peek sk = Some (take ?m (sk_in sk))" using False by (simp add: peek_def min.commute)
  have "length (take ?m (sk_in sk)) = ?m" using assms by simp
  moreover have "unat (of_nat ?m :: u32) = ?m" by (simp add: unat_of_nat min_def)
  moreover have "take ?m (sk_in sk) = take 4 (sk_in sk)" if "4 \<le> sk_ready sk" using that by (simp add: min_def)
  ultimately show ?thesis unfolding peer_msg_buff_nonempty_def pk Let_def option.case by (cases "4 \<le> sk_ready sk") simp_all
qed

theorem peer_msg_buff_nonempty_iff_witness:
  "peer_msg_buff_nonempty 0 (plain_sock [0, 0, 0, 5, 4, 0, 0])"
  using peer_msg_buff_nonempty_iff [of "plain_sock [0, 0, 0, 5, 4, 0, 0]" 0]
  by (simp add: ntohl_def mem_u32_def u32_mem_def)

text \<open>
  Receiving a bitfield of two or more bytes reads behind the string literal \<open>""\<close> that
  \<open>byte_str_new\<close> is given as source: only its NUL byte may be read.
\<close>
theorem peer_msg_recv_bitfield_overread:
  assumes "nb = BITFIELD_NUM_BYTES (info_num_pieces (mi_info torrent))" and "2 \<le> nb" and "nb + 1 < 2 ^ 32"
    and "heap_ok h" and "length bits = nb" and "sk_in sk = be32 (of_nat (1 + nb)) @ [5] @ bits @ rest"
  shows "peer_msg_recv [0] h sk torrent = Inl Out_Of_Bounds"
proof -
  let ?len = "of_nat (1 + nb) :: u32"
  have len: "unat ?len = 1 + nb" "unat (?len - 1) = nb"
    using assms(3) bitfield_len_minus_1 [of nb] by (simp_all only: unat_of_nat) simp_all
  obtain sk0 where s0: "recv_then sk 4 = (\<lambda>fail (k :: byte list \<Rightarrow> sock \<Rightarrow> recv_result). k (be32 ?len) sk0)"
    "sk_in sk0 = [5] @ bits @ rest" by (rule recv_then_append [OF assms(6)]) simp
  have one: "length [5 :: byte] = 1" by simp
  obtain sk1 where s1: "recv_then sk0 1 = (\<lambda>fail (k :: byte list \<Rightarrow> sock \<Rightarrow> recv_result). k [5] sk1)"
    "sk_in sk1 = bits @ rest" by (rule recv_then_append [OF s0(2) one])
  obtain sk2 where s2: "recv_then sk1 nb = (\<lambda>fail (k :: byte list \<Rightarrow> sock \<Rightarrow> recv_result). k bits sk2)"
    by (rule recv_then_append [OF s1(2) assms(5)])
  have "?len \<noteq> 0" using len(1) by (metis add_is_0 one_neq_zero unat_0)
  moreover have "msg_types ! 5 = MSG_BITFIELD" by (simp add: msg_types_def)
  moreover have "valid_len MSG_BITFIELD torrent ?len" using assms(1) by (simp add: valid_len_def msgbuf_len_def)
  ultimately show ?thesis
    using s0(1) s1(1) s2 len(2) assms(2,4)
    by (simp add: peer_msg_recv_def recv_payload_def byte_str_new_def mem_read_def Let_def)
qed

theorem peer_msg_recv_bitfield_overread_witness:
  "let torrent = (sample_torrent 16384 [])\<lparr>mi_info := (mi_info (sample_torrent 16384 []))\<lparr>info_num_pieces := 9\<rparr>\<rparr>
   in peer_msg_recv [0] calm_heap (plain_sock (be32 (of_nat (1 + 2)) @ [5] @ [255, 128] @ [])) torrent = Inl Out_Of_Bounds"
  unfolding Let_def
  by (rule peer_msg_recv_bitfield_overread [where nb = 2 and bits = "[255, 128]" and rest = "[]"])
     (simp_all add: BITFIELD_NUM_BYTES_def CHAR_BIT_def)

end
