(* ===== verification/Sha1.thy ===== *)
theory Sha1
  imports Piece_Request
begin

text \<open>
  \<open>src/sha1\<close>: checking a downloaded piece against its hash in the torrent file. OpenSSL is a parameter:
  \<open>sha1\<close> maps the concatenation of the data given to \<open>EVP_DigestUpdate\<close> to the digest that
  \<open>EVP_DigestFinal_ex\<close> writes. The result \<open>torrent_sha1_verify_correct\<close> says that the call answers
  whether the bytes of the piece in the mapped files have the expected hash.
\<close>

definition SHA1_LENGTH :: nat where
  "SHA1_LENGTH = 20"

text \<open>The bytes a \<open>filemem_t\<close> points to.\<close>

definition filemem_read :: "dl_file_t option list \<Rightarrow> filemem_t \<Rightarrow> byte list c_result" where
  "filemem_read files mem =
     c_bind (arr_get files (fm_file mem)) (\<lambda>fp.
       case fp of None \<Rightarrow> Inl Null_Deref
       | Some f \<Rightarrow> mem_read (df_data f) (int (fm_off mem)) (fm_size mem))"

text \<open>The inner and the outer loop; the accumulator is the data digested so far.\<close>

primrec digest_mems :: "dl_file_t option list \<Rightarrow> byte list \<Rightarrow> filemem_t list \<Rightarrow> byte list c_result" where
  "digest_mems files acc [] = Inr acc"
| "digest_mems files acc (mem # mems) =
     c_bind (filemem_read files mem) (\<lambda>bs. digest_mems files (acc @ bs) mems)"

primrec digest_blocks :: "dl_file_t option list \<Rightarrow> byte list \<Rightarrow> block_request_t list \<Rightarrow> byte list c_result" where
  "digest_blocks files acc [] = Inr acc"
| "digest_blocks files acc (br # brs) =
     c_bind (digest_mems files acc (da_values (br_filemems br))) (\<lambda>acc'. digest_blocks files acc' brs)"

definition torrent_sha1_verify ::
  "(byte list \<Rightarrow> byte list) \<Rightarrow> c_heap \<Rightarrow> metainfo_t \<Rightarrow> nat \<Rightarrow> (bool \<times> c_heap) c_result" where
  "torrent_sha1_verify sha1 h torrent piece_index =
     c_bind (c_assert (piece_index < info_num_pieces (mi_info torrent))) (\<lambda>_.
     c_bind (arr_get (info_pieces (mi_info torrent)) piece_index) (\<lambda>piece_hash.
     c_bind (piece_request_create h torrent (of_nat piece_index)) (\<lambda>(r, h').
       case r of
         None \<Rightarrow> Inl Null_Deref
       | Some pr \<Rightarrow>
           c_bind (digest_blocks (mi_files torrent) [] (da_values (pr_block_requests pr))) (\<lambda>dat.
           c_bind (piece_request_free pr) (\<lambda>_.
           c_bind (mem_read piece_hash 0 SHA1_LENGTH) (\<lambda>expected.
           c_bind (mem_read (sha1 dat) 0 SHA1_LENGTH) (\<lambda>buf.
             Inr (expected = buf, h'))))))))"

lemma digest_mems_append:
  "digest_mems files acc (ms @ ms') = c_bind (digest_mems files acc ms) (\<lambda>acc'. digest_mems files acc' ms')"
  by (induction ms arbitrary: acc) (auto simp: c_bind_def split: sum.splits)

lemma digest_blocks_flat:
  "digest_blocks files acc brs = digest_mems files acc (concat (map (\<lambda>br. da_values (br_filemems br)) brs))"
  by (induction brs arbitrary: acc) (auto simp: digest_mems_append)

lemma filemem_read_ok:
  assumes "files_wf fs" and "mem_ok fs m"
  shows "filemem_read (map Some fs @ xs) m = Inr (map ((!) (all_data fs)) (mem_span fs m))"
proof -
  have "length (df_data (fs ! fm_file m)) = df_size (fs ! fm_file m)"
    using assms by (auto simp: files_wf_def mem_ok_def list_all_length)
  then show ?thesis
    using mem_span_data [OF assms] assms(2)
    by (simp add: filemem_read_def mem_ok_def nth_append mem_read_ok)
qed

lemma digest_mems_ok:
  "files_wf fs \<Longrightarrow> list_all (mem_ok fs) ms \<Longrightarrow>
   digest_mems (map Some fs @ xs) acc ms = Inr (acc @ map ((!) (all_data fs)) (concat (map (mem_span fs) ms)))"
  by (induction ms arbitrary: acc) (simp_all add: filemem_read_ok)

lemma sha1_verify_ok:
  assumes "heap_ok h" and "files_ok fs" and "files_wf fs" and "mi_files torrent = map Some fs @ None # xs"
    and "L = info_piece_length (mi_info torrent)" and "L < 2 ^ 64" and "16384 dvd L"
    and "i < info_num_pieces (mi_info torrent)" and "i < 2 ^ 32"
    and "length (info_pieces (mi_info torrent)) = info_num_pieces (mi_info torrent)"
    and "length (info_pieces (mi_info torrent) ! i) = 20"
    and "L * i \<le> total_size fs" and sha1: "\<And>bs. length (sha1 bs) = 20"
  shows "torrent_sha1_verify sha1 h torrent i =
    Inr (info_pieces (mi_info torrent) ! i = sha1 (take L (drop (L * i) (all_data fs))), h)"
proof -
  let ?p = "L * unat (of_nat i :: u32)"
  have i: "unat (of_nat i :: u32) = i" using assms(9) by (simp add: unat_of_nat)
  let ?n = "min L (total_size fs - L * i)"
  have n: "?n = covered L (total_size fs - L * i)" using assms(7) by (simp add: covered_def)
  obtain pr where pr: "piece_request_create h torrent (of_nat i) = Inr (Some pr, h)" "\<not> pr_freed pr"
    "list_all2 (block_covers fs (L * i)) (da_values (pr_block_requests pr)) (block_plan ?n)"
    using piece_request_create_ok [OF assms(1,2,4,5,6) _ assms(12) n, of "of_nat i"] i by auto
  have "digest_blocks (mi_files torrent) [] (da_values (pr_block_requests pr)) =
      Inr (map ((!) (all_data fs)) [L * i..<L * i + ?n])"
    using digest_mems_ok [OF assms(3) covers_mem_ok [OF pr(3)], of "None # xs" "[]"] plan_spans [OF pr(3)] assms(4)
    by (simp add: digest_blocks_flat piece_mems_def)
  moreover have "map ((!) (all_data fs)) [L * i..<L * i + ?n] = take L (drop (L * i) (all_data fs))"
    using take_drop_eq_map_min [of "L * i" "all_data fs" L] all_data_length [OF assms(3)] assms(12) by simp
  ultimately show ?thesis
    using pr assms(8,10,11) sha1
    by (simp add: torrent_sha1_verify_def piece_request_free_def SHA1_LENGTH_def mem_read_def)
qed

text \<open>
  C7. \<open>torrent_sha1_verify\<close> is true exactly when the bytes of the piece (from its start to its end or
  the end of the last file, across file boundaries) hash to the value the torrent file gives for it.
\<close>
theorem torrent_sha1_verify_correct:
  assumes "heap_ok h" and "files_ok fs" and "files_wf fs" and "mi_files torrent = map Some fs @ None # xs"
    and "L = info_piece_length (mi_info torrent)" and "L < 2 ^ 64" and "16384 dvd L"
    and "i < info_num_pieces (mi_info torrent)" and "i < 2 ^ 32"
    and "length (info_pieces (mi_info torrent)) = info_num_pieces (mi_info torrent)"
    and "length (info_pieces (mi_info torrent) ! i) = 20"
    and "L * i \<le> total_size fs" and sha1: "\<And>bs. length (sha1 bs) = 20"
  shows "torrent_sha1_verify sha1 h torrent i =
    Inr (info_pieces (mi_info torrent) ! i = sha1 (take L (drop (L * i) (all_data fs))), h)"
  by (rule sha1_verify_ok [OF assms])

theorem torrent_sha1_verify_correct_witness:
  "let pad = (\<lambda>bs :: byte list. take 20 (bs @ replicate 20 0));
       t = (sample_torrent 16384 [Some \<lparr>df_size = 3, df_data = [1, 2, 3], df_path = ''f''\<rparr>, None])
             \<lparr>mi_info := \<lparr>info_mode = INFO_SINGLE, info_piece_length = 16384, info_name = Some ''f'',
                info_num_pieces = 1, info_pieces = [[1, 2, 3] @ replicate 17 0], info_length = 3, info_files = []\<rparr>\<rparr>
   in torrent_sha1_verify pad calm_heap t 0 = Inr (True, calm_heap)"
proof -
  let ?f = "\<lparr>df_size = 3, df_data = [1, 2, 3], df_path = ''f''\<rparr>"
  let ?t = "(sample_torrent 16384 [Some ?f, None])
             \<lparr>mi_info := \<lparr>info_mode = INFO_SINGLE, info_piece_length = 16384, info_name = Some ''f'',
                info_num_pieces = 1, info_pieces = [[1, 2, 3] @ replicate 17 0], info_length = 3, info_files = []\<rparr>\<rparr>"
  have "torrent_sha1_verify (\<lambda>bs. take 20 (bs @ replicate 20 0)) calm_heap ?t 0 =
    Inr (info_pieces (mi_info ?t) ! 0 = take 20 (take 16384 (drop (16384 * 0) (all_data [?f])) @ replicate 20 0), calm_heap)"
    by (rule torrent_sha1_verify_correct [of _ "[?f]"])
       (simp_all add: files_ok_def files_wf_def total_size_def sample_torrent_def)
  then show ?thesis by (simp add: Let_def all_data_def)
qed

end
