(* ===== verification/Dl_File.thy ===== *)
theory Dl_File
  imports Metainfo
begin

text \<open>
  \<open>src/dl-file/dl_file.c\<close>: creating the file a download is written to, and giving it its final name.
  While it is incomplete the file is called \<open>path.incomplete\<close>. The operating system's part is an
  argument: \<open>os_file\<close> says which calls succeed and what an existing file holds.
\<close>

record os_file =
  of_open :: bool
  of_truncate :: bool
  of_map :: bool
  of_old :: "byte list"

definition incomplete_suffix :: string where
  "incomplete_suffix = ''.incomplete''"

definition PATH_BUF :: nat where
  "PATH_BUF = 512"

text \<open>
  The result is the new file and the pair of names given to \<open>rename\<close>, or \<open>None\<close> for NULL. \<open>strcpy\<close> and
  \<open>strcat\<close> overrun \<open>newpath\<close> when the names and the final NUL do not fit. \<open>mmap\<close> reports failure by
  \<open>MAP_FAILED\<close>, which the test for NULL lets through: the mapping then has no usable byte.
\<close>

definition dl_file_create_and_open ::
  "c_heap \<Rightarrow> os_file \<Rightarrow> nat \<Rightarrow> string \<Rightarrow> ((dl_file_t \<times> string \<times> string) option \<times> c_heap) c_result" where
  "dl_file_create_and_open h os n path =
     (let newpath = path @ incomplete_suffix in
      if length newpath + 1 > PATH_BUF then Inl Out_Of_Bounds
      else if \<not> of_open os then Inr (None, h)
      else if \<not> of_truncate os then Inr (None, h)
      else
        let mem = (if of_map os then take n (of_old os @ replicate n 0) else []) in
        case alloc h of (ok, h') \<Rightarrow>
          if \<not> ok then Inr (None, h')
          else Inr (Some (\<lparr>df_size = n, df_data = mem, df_path = newpath\<rparr>, path, newpath), h'))"

text \<open>\<open>strstr\<close>: the position of the first occurrence.\<close>

primrec strstr :: "string \<Rightarrow> string \<Rightarrow> nat option" where
  "strstr [] pat = (if pat = [] then Some 0 else None)"
| "strstr (c # cs) pat =
     (if take (length pat) (c # cs) = pat then Some 0 else map_option Suc (strstr cs pat))"

text \<open>
  The file with its trimmed path, and the names given to \<open>rename\<close>. \<open>strncpy\<close> leaves \<open>oldpath\<close> without
  a NUL when the path fills the buffer, and \<open>rename\<close> then reads behind it.
\<close>

definition dl_file_complete :: "dl_file_t \<Rightarrow> (dl_file_t \<times> string \<times> string) c_result" where
  "dl_file_complete file =
     (case strstr (df_path file) incomplete_suffix of
        None \<Rightarrow> Inl Assert_Failed
      | Some trim \<Rightarrow>
          c_bind (c_assert (0 < trim)) (\<lambda>_.
            if PATH_BUF \<le> length (df_path file) then Inl Out_Of_Bounds
            else let path' = take trim (df_path file)
                 in Inr (file\<lparr>df_path := path'\<rparr>, df_path file, path')))"

section \<open>Properties\<close>

lemma strstr_append:
  assumes "strstr s pat = None" and "pat = p # ps" and "p \<notin> set ps"
  shows "strstr (s @ pat) pat = Some (length s)"
  using assms(1)
proof (induction s)
  case Nil
  then show ?case using assms(2) by simp
next
  case (Cons c cs)
  have no: "take (length pat) (c # cs) \<noteq> pat" "strstr cs pat = None"
    using Cons.prems by (auto split: if_splits)
  have "take (length pat) ((c # cs) @ pat) \<noteq> pat"
  proof
    assume eq: "take (length pat) ((c # cs) @ pat) = pat"
    show False
    proof (cases "length pat \<le> length (c # cs)")
      case True
      then have "take (length pat) ((c # cs) @ pat) = take (length pat) (c # cs)"
        by (simp only: take_append) simp
      then show False using eq no(1) by metis
    next
      case False
      let ?i = "length (c # cs)"
      have i: "?i < length pat" using False by simp
      then have "pat ! ?i = ((c # cs) @ pat) ! ?i" using eq nth_take [of ?i "length pat"] by metis
      then have "pat ! ?i = p" using assms(2) by (simp add: nth_append)
      moreover have "pat ! ?i \<in> set ps" using i assms(2) by (simp add: nth_Cons' )
      ultimately show False using assms(3) by simp
    qed
  qed
  then show ?case using Cons.IH [OF no(2)] by simp
qed

text \<open>A name that \<open>dl_file_create_and_open\<close> can make temporary and \<open>dl_file_complete\<close> can restore.\<close>

definition good_path :: "string \<Rightarrow> bool" where
  "good_path path \<longleftrightarrow> path \<noteq> [] \<and> strstr path incomplete_suffix = None \<and> length path + 11 < 512"

lemma dl_file_complete_ok:
  assumes "good_path path" and "df_path file = path @ incomplete_suffix"
  shows "dl_file_complete file = Inr (file\<lparr>df_path := path\<rparr>, path @ incomplete_suffix, path)"
proof -
  have "strstr (path @ incomplete_suffix) incomplete_suffix = Some (length path)"
    using assms(1) by (intro strstr_append [of _ _ "CHR ''.''" "''incomplete''"]) (simp_all add: incomplete_suffix_def good_path_def)
  then show ?thesis
    using assms by (simp add: dl_file_complete_def PATH_BUF_def incomplete_suffix_def good_path_def)
qed

text \<open>
  The names fit together: a file created for \<open>path\<close> carries the name \<open>path.incomplete\<close>, and
  completing it renames it back to \<open>path\<close>, provided \<open>path\<close> is not empty, does not contain
  \<open>.incomplete\<close> itself and fits the buffers.
\<close>
theorem dl_file_name_roundtrip:
  assumes "path \<noteq> []" and "strstr path incomplete_suffix = None" and "length path + 11 < 512"
    and "dl_file_create_and_open h os n path = Inr (Some (file, old, new), h')"
  shows "old = path \<and> new = path @ ''.incomplete'' \<and> df_path file = new \<and>
    dl_file_complete file = Inr (file\<lparr>df_path := path\<rparr>, new, path)"
proof -
  have names: "old = path" "new = path @ incomplete_suffix" "df_path file = new"
    using assms(4) by (auto simp: dl_file_create_and_open_def Let_def split: if_splits prod.splits)
  have "dl_file_complete file = Inr (file\<lparr>df_path := path\<rparr>, new, path)"
    using dl_file_complete_ok [of path "file"] names assms(1-3) by (simp add: good_path_def)
  then show ?thesis using names by (simp add: incomplete_suffix_def)
qed

theorem dl_file_name_roundtrip_witness:
  "let file = \<lparr>df_size = 2, df_data = [0, 0], df_path = ''a.iso.incomplete''\<rparr>
   in dl_file_complete file = Inr (file\<lparr>df_path := ''a.iso''\<rparr>, ''a.iso.incomplete'', ''a.iso'')"
  unfolding Let_def
  using dl_file_name_roundtrip [of "''a.iso''" calm_heap "\<lparr>of_open = True, of_truncate = True, of_map = True, of_old = []\<rparr>" 2
    "\<lparr>df_size = 2, df_data = [0, 0], df_path = ''a.iso.incomplete''\<rparr>" "''a.iso''" "''a.iso.incomplete''" calm_heap]
  by (simp add: dl_file_create_and_open_def incomplete_suffix_def PATH_BUF_def Let_def numeral_2_eq_2)

end
