(* ===== verification/Peer_Connection.thy ===== *)
theory Peer_Connection
  imports Peer_Msg Sha1 Ring_Queue Dl_File
begin

text \<open>
  \<open>src/peer-connection/peer_connection.c\<close>: the thread that serves one peer. \<open>conn_t\<close> holds everything a
  connection thread reads and writes: its socket, its \<open>conn_state_t\<close>, the torrent (whose \<open>sh\<close> part is
  shared with the other threads), the message queues of the threads and the time stamps of the main
  loop. Each function of the file is a definition that takes a \<open>conn_t\<close> and returns it updated;
  \<open>env_t\<close> collects what the code takes from outside.
\<close>

section \<open>State\<close>

record peer_state_t =
  ps_choked :: bool
  ps_interested :: bool

record conn_state_t =
  cs_local :: peer_state_t
  cs_remote :: peer_state_t
  cs_peer_have :: "byte list"
  cs_peer_wants :: "byte list"
  cs_local_have :: "byte list"
  cs_bitlen :: nat
  cs_blocks_sent :: u32
  cs_block_recvd :: u32
  cs_local_requests :: "piece_request_t da"
  cs_peer_requests :: queue_t

text \<open>A POSIX message queue: its limits and the messages waiting, oldest first (all have priority 0).\<close>

record mqueue =
  mq_maxmsg :: nat
  mq_msgsize :: nat
  mq_msgs :: "byte list list"

text \<open>
  \<open>ev_sha1\<close>: OpenSSL's SHA-1; \<open>ev_lit\<close>: memory readable at the literal \<open>""\<close>; \<open>ev_junk\<close>: uninitialised
  stack memory; \<open>ev_tmem\<close>: the 8 bytes of memory a \<open>pthread_t\<close> points to; \<open>ev_lax\<close>: whether freed memory
  keeps its contents (C does not promise it; the allocator may do so for a while); \<open>ev_mq_open\<close>: whether a
  thread can open its own message queue.
\<close>

record env_t =
  ev_sha1 :: "byte list \<Rightarrow> byte list"
  ev_lit :: "byte list"
  ev_junk :: u32
  ev_tmem :: "nat \<Rightarrow> byte list"
  ev_lax :: bool
  ev_mq_open :: "string \<Rightarrow> bool"

record conn_t =
  cn_sock :: sock
  cn_state :: conn_state_t
  cn_torrent :: metainfo_t
  cn_heap :: c_heap
  cn_queues :: "string \<rightharpoonup> mqueue"
  cn_self :: nat
  cn_renames :: "(string \<times> string) list"
  cn_last_msg :: int
  cn_last_sent :: int

abbreviation cn_sh :: "conn_t \<Rightarrow> sh_t" where
  "cn_sh c \<equiv> mi_sh (cn_torrent c)"

definition upd_state :: "(conn_state_t \<Rightarrow> conn_state_t) \<Rightarrow> conn_t \<Rightarrow> conn_t" where
  "upd_state f c = c\<lparr>cn_state := f (cn_state c)\<rparr>"

definition upd_sh :: "(sh_t \<Rightarrow> sh_t) \<Rightarrow> conn_t \<Rightarrow> conn_t" where
  "upd_sh f c = c\<lparr>cn_torrent := (cn_torrent c)\<lparr>mi_sh := f (mi_sh (cn_torrent c))\<rparr>\<rparr>"

section \<open>Setting up\<close>

primrec make_bitfield_loop :: "piece_state_t list \<Rightarrow> byte list \<Rightarrow> nat list \<Rightarrow> byte list c_result" where
  "make_bitfield_loop states ret [] = Inr ret"
| "make_bitfield_loop states ret (i # is) =
     c_bind (arr_get states i) (\<lambda>s.
       if s = PIECE_STATE_HAVE
       then c_bind (BITFIELD_SET i ret) (\<lambda>ret'. make_bitfield_loop states ret' is)
       else make_bitfield_loop states ret is)"

definition make_bitfield :: "c_heap \<Rightarrow> metainfo_t \<Rightarrow> (byte list option \<times> c_heap) c_result" where
  "make_bitfield h torrent =
     (let num_pieces = info_num_pieces (mi_info torrent) in
      case calloc h (BITFIELD_NUM_BYTES num_pieces) 1 of
        (None, h') \<Rightarrow> Inr (None, h')
      | (Some ret, h') \<Rightarrow>
          c_bind (make_bitfield_loop (sh_piece_states (mi_sh torrent)) ret [0..<num_pieces]) (\<lambda>ret'.
            Inr (Some ret', h')))"

text \<open>\<open>num_bytes\<close> is a \<open>uint16_t\<close>; \<open>peer_have\<close> and \<open>peer_wants\<close> are not initialised.\<close>

definition conn_state_init :: "c_heap \<Rightarrow> metainfo_t \<Rightarrow> (conn_state_t option \<times> c_heap) c_result" where
  "conn_state_init h torrent =
     (case alloc h of (ok0, h0) \<Rightarrow>
      if \<not> ok0 then Inr (None, h0) else
      let bitlen = info_num_pieces (mi_info torrent);
          num_bytes = unat (of_nat (BITFIELD_NUM_BYTES bitlen) :: u16) in
      case malloc h0 num_bytes of (None, h1) \<Rightarrow> Inr (None, h1) | (Some peer_have, h1) \<Rightarrow>
      case malloc h1 num_bytes of (None, h2) \<Rightarrow> Inr (None, h2) | (Some peer_wants, h2) \<Rightarrow>
      case queue_init h2 12 16 of (None, h3) \<Rightarrow> Inr (None, h3) | (Some peer_requests, h3) \<Rightarrow>
      case alloc h3 of (ok4, h4) \<Rightarrow>
      if \<not> ok4 then Inr (None, h4) else
      case da_init h4 of (None, h5) \<Rightarrow> Inr (None, h5) | (Some local_requests, h5) \<Rightarrow>
      c_bind (make_bitfield h5 torrent) (\<lambda>(r, h6).
        case r of None \<Rightarrow> Inr (None, h6) | Some local_have \<Rightarrow>
          Inr (Some \<lparr>cs_local = \<lparr>ps_choked = True, ps_interested = False\<rparr>,
                     cs_remote = \<lparr>ps_choked = True, ps_interested = False\<rparr>,
                     cs_peer_have = peer_have, cs_peer_wants = peer_wants, cs_local_have = local_have,
                     cs_bitlen = bitlen, cs_blocks_sent = 0, cs_block_recvd = 0,
                     cs_local_requests = local_requests, cs_peer_requests = peer_requests\<rparr>, h6)))"

definition handshake ::
  "(nat \<Rightarrow> byte) \<Rightarrow> byte list \<Rightarrow> sock \<Rightarrow> byte list \<Rightarrow> (byte list option \<times> sock) c_result" where
  "handshake junk peer_id sk info_hash =
     c_bind (peer_send_handshake junk peer_id sk info_hash) (\<lambda>(rc, sk').
       if rc < 0 then Inr (None, sk') else peer_recv_handshake sk' info_hash)"

section \<open>Message queues\<close>

definition hex_digit :: "nat \<Rightarrow> char" where
  "hex_digit n = ''0123456789ABCDEF'' ! n"

definition hex_byte :: "byte \<Rightarrow> string" where
  "hex_byte b = [hex_digit (unat b div 16), hex_digit (unat b mod 16)]"

text \<open>The loop; \<open>True\<close> when it returned because the buffer was full.\<close>

primrec queue_name_loop :: "nat \<Rightarrow> string \<Rightarrow> byte list \<Rightarrow> bool \<times> string" where
  "queue_name_loop len out [] = (False, out)"
| "queue_name_loop len out (b # bs) =
     (if length (out @ hex_byte b) = len then (True, out @ hex_byte b)
      else queue_name_loop len (out @ hex_byte b) bs)"

text \<open>The assertion leaves room for the whole name, so no \<open>snprintf\<close> truncates.\<close>

definition peer_connection_queue_name :: "byte list \<Rightarrow> nat \<Rightarrow> string c_result" where
  "peer_connection_queue_name tmem len =
     c_bind (c_assert (1 + 2 * 8 + 6 + 1 \<le> len)) (\<lambda>_.
       case queue_name_loop len ''/'' tmem of (full, out) \<Rightarrow> Inr (if full then out else out @ ''_queue''))"

definition mq_send :: "mqueue \<Rightarrow> byte list \<Rightarrow> int \<times> mqueue" where
  "mq_send q bs =
     (if length bs > mq_msgsize q then (-1, q)
      else if length (mq_msgs q) \<ge> mq_maxmsg q then (-1, q)
      else (0, q\<lparr>mq_msgs := mq_msgs q @ [bs]\<rparr>))"

text \<open>The queue a receiving thread opens (or finds existing); \<open>-1\<close> when \<open>mq_open\<close> fails.\<close>

definition peer_queue_open :: "env_t \<Rightarrow> conn_t \<Rightarrow> (int \<times> conn_t) c_result" where
  "peer_queue_open env c =
     c_bind (peer_connection_queue_name (ev_tmem env (cn_self c)) 64) (\<lambda>name.
       Inr (if \<not> ev_mq_open env name then (-1, c)
            else case cn_queues c name of
              None \<Rightarrow> (0, c\<lparr>cn_queues := (cn_queues c)(name \<mapsto> \<lparr>mq_maxmsg = 10, mq_msgsize = 4, mq_msgs = []\<rparr>)\<rparr>)
            | Some q \<Rightarrow> (0, c)))"

text \<open>The name is removed, the descriptor stays open.\<close>

definition queue_cleanup :: "env_t \<Rightarrow> conn_t \<Rightarrow> conn_t c_result" where
  "queue_cleanup env c =
     c_bind (peer_connection_queue_name (ev_tmem env (cn_self c)) 64) (\<lambda>name.
       Inr (c\<lparr>cn_queues := (cn_queues c)(name := None)\<rparr>))"

section \<open>Sending\<close>

definition conn_send :: "conn_t \<Rightarrow> peer_msg_t \<Rightarrow> (int \<times> conn_t) c_result" where
  "conn_send c msg =
     c_bind (peer_msg_send (cn_sock c) msg (cn_torrent c)) (\<lambda>(rc, sk'). Inr (rc, c\<lparr>cn_sock := sk'\<rparr>))"

definition unchoke :: "conn_t \<Rightarrow> conn_t c_result" where
  "unchoke c =
     c_bind (conn_send c Unchoke) (\<lambda>(rc, c1).
       Inr (if rc < 0 then c1
            else upd_state (\<lambda>s. s\<lparr>cs_remote := (cs_remote s)\<lparr>ps_choked := False\<rparr>\<rparr>) c1))"

definition show_interested :: "conn_t \<Rightarrow> conn_t c_result" where
  "show_interested c =
     c_bind (conn_send c Interested) (\<lambda>(rc, c1).
       Inr (if rc < 0 then c1
            else upd_state (\<lambda>s. s\<lparr>cs_local := (cs_local s)\<lparr>ps_interested := True\<rparr>\<rparr>) c1))"

definition show_not_interested :: "conn_t \<Rightarrow> conn_t c_result" where
  "show_not_interested c =
     c_bind (conn_send c Not_Interested) (\<lambda>(rc, c1).
       Inr (if rc < 0 then c1
            else upd_state (\<lambda>s. s\<lparr>cs_local := (cs_local s)\<lparr>ps_interested := False\<rparr>\<rparr>) c1))"

text \<open>
  The loop over the waiting messages; it returns those left. \<open>mq_receive\<close> fails when the buffer of four
  bytes is smaller than the queue's message size.
\<close>

fun have_loop :: "conn_t \<Rightarrow> nat \<Rightarrow> byte list list \<Rightarrow> (conn_t \<times> byte list list) c_result" where
  "have_loop c msgsize [] = Inr (c, [])"
| "have_loop c msgsize (m # ms) =
     (if 4 < msgsize then Inr (c, m # ms)
      else if length m \<noteq> 4 then Inr (c, ms)
      else c_bind (BITFIELD_SET (unat (mem_u32 m)) (cs_local_have (cn_state c))) (\<lambda>bf.
           c_bind (conn_send (upd_state (\<lambda>s. s\<lparr>cs_local_have := bf\<rparr>) c) (Have (mem_u32 m))) (\<lambda>(rc, c1).
             if rc < 0 then Inr (c1, ms) else have_loop c1 msgsize ms)))"

definition service_have_events :: "env_t \<Rightarrow> conn_t \<Rightarrow> conn_t c_result" where
  "service_have_events env c =
     c_bind (peer_connection_queue_name (ev_tmem env (cn_self c)) 64) (\<lambda>name.
       case cn_queues c name of
         None \<Rightarrow> Inr c
       | Some q \<Rightarrow>
           c_bind (have_loop c (mq_msgsize q) (mq_msgs q)) (\<lambda>(c1, ms).
             Inr (c1\<lparr>cn_queues := (cn_queues c1)(name \<mapsto> q\<lparr>mq_msgs := ms\<rparr>)\<rparr>)))"

text \<open>The memory image of a \<open>request_msg_t\<close>, the entry of the request queue.\<close>

definition req_mem :: "request_msg_t \<Rightarrow> byte list" where
  "req_mem r = u32_mem (rq_index r) @ u32_mem (rq_begin r) @ u32_mem (rq_length r)"

definition mem_req :: "byte list \<Rightarrow> request_msg_t" where
  "mem_req bs = \<lparr>rq_index = mem_u32 (take 4 bs), rq_begin = mem_u32 (take 4 (drop 4 bs)),
                 rq_length = mem_u32 (take 4 (drop 8 bs))\<rparr>"

text \<open>
  The loop ends when the queue is empty; each round takes an entry, so one round more than there are
  entries is enough fuel.
\<close>

primrec serve_loop :: "nat \<Rightarrow> conn_t \<Rightarrow> byte list \<Rightarrow> conn_t c_result" where
  "serve_loop 0 c request = Inl No_Fuel"
| "serve_loop (Suc n) c request =
     c_bind (dequeue (cs_peer_requests (cn_state c)) request) (\<lambda>(r, request', q').
       let c1 = upd_state (\<lambda>s. s\<lparr>cs_peer_requests := q'\<rparr>) c; rq = mem_req request' in
       if r \<noteq> 0 then Inr c1
       else c_bind (conn_send c1 (Piece \<lparr>pc_index = rq_index rq, pc_begin = rq_begin rq,
                                         pc_blocklen = unat (rq_length rq)\<rparr>)) (\<lambda>(rc, c2).
              if rc < 0 then Inr c2
              else serve_loop n (upd_state (\<lambda>s. s\<lparr>cs_blocks_sent := cs_blocks_sent s + 1\<rparr>) c2) request'))"

definition service_peer_requests :: "conn_t \<Rightarrow> conn_t c_result" where
  "service_peer_requests c =
     serve_loop (Suc (q_size (cs_peer_requests (cn_state c)))) c (map (heap_junk (cn_heap c)) [0..<12])"

section \<open>Finished pieces\<close>

text \<open>
  The loop skips every connection but the one of the calling thread, and sends a \<open>size_t\<close> of 8 bytes to
  its queue.
\<close>

primrec notify_loop :: "env_t \<Rightarrow> nat \<Rightarrow> int \<Rightarrow> conn_t \<Rightarrow> peer_connection_t list \<Rightarrow> (int \<times> conn_t) c_result" where
  "notify_loop env have_index ret c [] = Inr (ret, c)"
| "notify_loop env have_index ret c (p # ps) =
     (if conn_thread p \<noteq> cn_self c then notify_loop env have_index ret c ps
      else c_bind (peer_connection_queue_name (ev_tmem env (conn_thread p)) 64) (\<lambda>name.
             case cn_queues c name of
               None \<Rightarrow> notify_loop env have_index (-1) c ps
             | Some q \<Rightarrow>
                 notify_loop env have_index ret
                   (c\<lparr>cn_queues := (cn_queues c)(name \<mapsto> snd (mq_send q (u64_mem (of_nat have_index))))\<rparr>) ps))"

definition notify_peers_have :: "env_t \<Rightarrow> conn_t \<Rightarrow> nat \<Rightarrow> (int \<times> conn_t) c_result" where
  "notify_peers_have env c have_index =
     notify_loop env have_index 0 c (da_values (sh_peer_connections (cn_sh c)))"

primrec complete_files :: "conn_t \<Rightarrow> nat list \<Rightarrow> conn_t c_result" where
  "complete_files c [] = Inr c"
| "complete_files c (i # is) =
     c_bind (arr_get (mi_files (cn_torrent c)) i) (\<lambda>fp.
       case fp of
         None \<Rightarrow> Inl Null_Deref
       | Some f \<Rightarrow>
           c_bind (dl_file_complete f) (\<lambda>(f', old, new).
             complete_files
               (c\<lparr>cn_torrent := (cn_torrent c)\<lparr>mi_files := (mi_files (cn_torrent c))[i := Some f']\<rparr>,
                  cn_renames := cn_renames c @ [(old, new)]\<rparr>) is))"

text \<open>The part of \<open>torrent_complete\<close> under the lock, and all of it. \<open>info.files_count\<close> is the length of \<open>info.files\<close>.\<close>

definition mark_complete :: "sh_t \<Rightarrow> sh_t" where
  "mark_complete sh = sh\<lparr>sh_completed := True, sh_state := TORRENT_STATE_SEEDING\<rparr>"

definition torrent_complete :: "conn_t \<Rightarrow> conn_t c_result" where
  "torrent_complete c =
     (let c1 = upd_sh mark_complete c
      in complete_files c1 [0..<length (info_files (mi_info (cn_torrent c1)))])"

text \<open>The part of \<open>handle_piece_dl_completion\<close> under the lock; also the local \<open>completed\<close>.\<close>

definition finish_piece :: "nat \<Rightarrow> nat \<Rightarrow> sh_t \<Rightarrow> (bool \<times> sh_t) c_result" where
  "finish_piece num_pieces index sh =
     c_bind (arr_get (sh_piece_states sh) index) (\<lambda>s.
       if s \<noteq> PIECE_STATE_HAVE then
         let left = size_sub (sh_pieces_left sh) 1;
             sh1 = sh\<lparr>sh_piece_states := (sh_piece_states sh)[index := PIECE_STATE_HAVE], sh_pieces_left := left\<rparr>
         in c_bind (c_assert (left < num_pieces)) (\<lambda>_.
              if left = 0 then Inr (True, sh1\<lparr>sh_completed := True\<rparr>) else Inr (False, sh1))
       else Inr (False, sh))"

definition handle_piece_dl_completion :: "env_t \<Rightarrow> conn_t \<Rightarrow> nat \<Rightarrow> conn_t c_result" where
  "handle_piece_dl_completion env c index =
     c_bind (c_assert (index < info_num_pieces (mi_info (cn_torrent c)))) (\<lambda>_.
     c_bind (finish_piece (info_num_pieces (mi_info (cn_torrent c))) index (cn_sh c)) (\<lambda>(completed, sh').
     c_bind (if completed then torrent_complete (upd_sh (\<lambda>_. sh') c) else Inr (upd_sh (\<lambda>_. sh') c)) (\<lambda>c1.
     c_bind (conn_send c1 (Have (of_nat index))) (\<lambda>(_, c2).
     c_bind (notify_peers_have env c2 index) (\<lambda>(_, c3). Inr c3)))))"

section \<open>Incoming messages\<close>

text \<open>
  The inner loop: the first block with the message's length and offset is marked. The blocks of a
  request that was freed are read from freed memory.
\<close>

primrec mark_block_loop :: "piece_msg_t \<Rightarrow> block_request_t list \<Rightarrow> bool \<times> block_request_t list" where
  "mark_block_loop msg [] = (False, [])"
| "mark_block_loop msg (br # brs) =
     (if br_len br = pc_blocklen msg \<and> br_begin br = int (unat (pc_begin msg))
      then (True, br\<lparr>br_completed := True\<rparr> # brs)
      else case mark_block_loop msg brs of (found, brs') \<Rightarrow> (found, br # brs'))"

definition mark_block :: "bool \<Rightarrow> piece_msg_t \<Rightarrow> piece_request_t \<Rightarrow> piece_request_t c_result" where
  "mark_block lax msg pr =
     (if pr_freed pr \<and> \<not> lax \<and> da_values (pr_block_requests pr) \<noteq> [] then Inl Use_After_Free
      else case mark_block_loop msg (da_values (pr_block_requests pr)) of (found, brs) \<Rightarrow>
             Inr (pr\<lparr>pr_block_requests := (pr_block_requests pr)\<lparr>da_values := brs\<rparr>,
                     pr_blocks_left := (if found then pr_blocks_left pr - 1 else pr_blocks_left pr)\<rparr>))"

definition reset_piece :: "nat \<Rightarrow> sh_t \<Rightarrow> sh_t c_result" where
  "reset_piece index sh =
     c_bind (arr_set (sh_piece_states sh) index PIECE_STATE_NOT_REQUESTED) (\<lambda>ps.
       Inr (sh\<lparr>sh_piece_states := ps\<rparr>))"

text \<open>What happens when the last outstanding block of a piece has arrived.\<close>

definition piece_arrived :: "env_t \<Rightarrow> conn_t \<Rightarrow> u32 \<Rightarrow> conn_t c_result" where
  "piece_arrived env c index =
     c_bind (torrent_sha1_verify (ev_sha1 env) (cn_heap c) (cn_torrent c) (unat index)) (\<lambda>(valid, h').
       let c1 = c\<lparr>cn_heap := h'\<rparr> in
       if \<not> valid then c_bind (reset_piece (unat index) (cn_sh c1)) (\<lambda>sh'. Inr (upd_sh (\<lambda>_. sh') c1))
       else handle_piece_dl_completion env c1 (unat index))"

definition set_request :: "nat \<Rightarrow> piece_request_t \<Rightarrow> conn_t \<Rightarrow> conn_t" where
  "set_request i pr =
     upd_state (\<lambda>s. s\<lparr>cs_local_requests := (cs_local_requests s)
       \<lparr>da_values := (da_values (cs_local_requests s))[i := pr]\<rparr>\<rparr>)"

primrec process_piece_loop :: "env_t \<Rightarrow> piece_msg_t \<Rightarrow> conn_t \<Rightarrow> nat list \<Rightarrow> conn_t c_result" where
  "process_piece_loop env msg c [] = Inr c"
| "process_piece_loop env msg c (i # is) =
     c_bind (arr_get (da_values (cs_local_requests (cn_state c))) i) (\<lambda>curr.
       if pr_piece_index curr \<noteq> pc_index msg then process_piece_loop env msg c is
       else c_bind (mark_block (ev_lax env) msg curr) (\<lambda>curr'.
              let c1 = set_request i curr' c in
              c_bind (if pr_blocks_left curr' = 0 then piece_arrived env c1 (pr_piece_index curr') else Inr c1)
                (\<lambda>c2. process_piece_loop env msg c2 is)))"

definition process_piece_msg :: "env_t \<Rightarrow> conn_t \<Rightarrow> piece_msg_t \<Rightarrow> conn_t c_result" where
  "process_piece_msg env c msg =
     process_piece_loop env msg c [0..<da_len (cs_local_requests (cn_state c))]"

text \<open>The search of \<open>MSG_BITFIELD\<close> for a piece the peer has and we lack.\<close>

primrec wanted_loop :: "piece_state_t list \<Rightarrow> byte list \<Rightarrow> nat list \<Rightarrow> bool c_result" where
  "wanted_loop states bf [] = Inr False"
| "wanted_loop states bf (i # is) =
     c_bind (arr_get states i) (\<lambda>s.
       if s \<noteq> PIECE_STATE_HAVE
       then c_bind (BITFIELD_ISSET i bf) (\<lambda>b. if b then Inr True else wanted_loop states bf is)
       else wanted_loop states bf is)"

definition process_bitfield :: "conn_t \<Rightarrow> byte_str_t option \<Rightarrow> conn_t c_result" where
  "process_bitfield c b =
     (case b of
        None \<Rightarrow> Inl Null_Deref
      | Some str \<Rightarrow>
          let n = BITFIELD_NUM_BYTES (cs_bitlen (cn_state c)) in
          c_bind (c_assert (bs_size str = n)) (\<lambda>_.
          c_bind (mem_read (bs_str str) 0 n) (\<lambda>bits.
          c_bind (mem_write (cs_peer_have (cn_state c)) 0 bits) (\<lambda>bf.
            let c1 = upd_state (\<lambda>s. s\<lparr>cs_peer_have := bf\<rparr>) c in
            c_bind (wanted_loop (sh_piece_states (cn_sh c1)) bf [0..<info_num_pieces (mi_info (cn_torrent c1))])
              (\<lambda>interested. if interested then show_interested c1 else Inr c1)))))"

definition process_have :: "conn_t \<Rightarrow> u32 \<Rightarrow> conn_t c_result" where
  "process_have c have =
     c_bind (if \<not> ps_interested (cs_local (cn_state c))
             then c_bind (BITFIELD_ISSET (unat have) (cs_local_have (cn_state c))) (\<lambda>b.
                    if b then show_interested c else Inr c)
             else Inr c) (\<lambda>c1.
     c_bind (BITFIELD_SET (unat have) (cs_peer_have (cn_state c1))) (\<lambda>bf.
       Inr (upd_state (\<lambda>s. s\<lparr>cs_peer_have := bf\<rparr>) c1)))"

definition process_msg :: "env_t \<Rightarrow> conn_t \<Rightarrow> peer_msg_t \<Rightarrow> conn_t c_result" where
  "process_msg env c msg =
     (case msg of
        Keepalive \<Rightarrow> Inr c
      | Choke \<Rightarrow> Inr (upd_state (\<lambda>s. s\<lparr>cs_local := (cs_local s)\<lparr>ps_choked := True\<rparr>\<rparr>) c)
      | Unchoke \<Rightarrow>
          Inr (upd_state (\<lambda>s. s\<lparr>cs_local := (cs_local s)\<lparr>ps_choked := False\<rparr>,
                               cs_remote := (cs_remote s)\<lparr>ps_interested := True\<rparr>\<rparr>) c)
      | Interested \<Rightarrow> Inr (upd_state (\<lambda>s. s\<lparr>cs_remote := (cs_remote s)\<lparr>ps_interested := True\<rparr>\<rparr>) c)
      | Not_Interested \<Rightarrow> Inr (upd_state (\<lambda>s. s\<lparr>cs_remote := (cs_remote s)\<lparr>ps_interested := False\<rparr>\<rparr>) c)
      | Have x \<Rightarrow> process_have c x
      | Bitfield b \<Rightarrow> process_bitfield c b
      | Request r \<Rightarrow>
          c_bind (enqueue (cn_heap c) (cs_peer_requests (cn_state c)) (req_mem r)) (\<lambda>(_, q', h').
            Inr ((upd_state (\<lambda>s. s\<lparr>cs_peer_requests := q'\<rparr>) c)\<lparr>cn_heap := h'\<rparr>))
      | Piece p \<Rightarrow>
          c_bind (process_piece_msg env c p) (\<lambda>c1.
            Inr (upd_state (\<lambda>s. s\<lparr>cs_block_recvd := cs_block_recvd s + 1\<rparr>) c1))
      | Cancel \<Rightarrow> Inr c
      | Port x \<Rightarrow> Inr c
      | Max \<Rightarrow> Inr c)"

text \<open>
  The loop over the messages that have arrived; the result is the return code. Every message takes at
  least its length prefix from the stream, so the number of pending bytes is enough fuel. \<open>now\<close> is what
  \<open>time (NULL)\<close> returns.
\<close>

primrec queued_loop :: "nat \<Rightarrow> env_t \<Rightarrow> int \<Rightarrow> conn_t \<Rightarrow> (int \<times> conn_t) c_result" where
  "queued_loop 0 env now c = Inl No_Fuel"
| "queued_loop (Suc n) env now c =
     (if \<not> peer_msg_buff_nonempty (ev_junk env) (cn_sock c) then Inr (0, c)
      else c_bind (peer_msg_recv (ev_lit env) (cn_heap c) (cn_sock c) (cn_torrent c)) (\<lambda>(m, sk', torrent', h').
             let c1 = c\<lparr>cn_sock := sk', cn_torrent := torrent', cn_heap := h'\<rparr> in
             case m of
               None \<Rightarrow> Inr (-1, c1)
             | Some msg \<Rightarrow>
                 c_bind (process_msg env (c1\<lparr>cn_last_msg := now\<rparr>) msg) (\<lambda>c2. queued_loop n env now c2)))"

definition process_queued_messages :: "env_t \<Rightarrow> int \<Rightarrow> conn_t \<Rightarrow> (int \<times> conn_t) c_result" where
  "process_queued_messages env now c = queued_loop (Suc (length (sk_in (cn_sock c)))) env now c"

section \<open>Requesting pieces\<close>

text \<open>
  The search loop: the piece \<open>nr\<close> that ends it, and the last piece \<open>r\<close> seen that is requested already.
\<close>

primrec next_scan :: "piece_state_t list \<Rightarrow> byte list \<Rightarrow> nat option \<Rightarrow> nat list \<Rightarrow> (nat option \<times> nat option) c_result" where
  "next_scan states bf r [] = Inr (None, r)"
| "next_scan states bf r (i # is) =
     c_bind (arr_get states i) (\<lambda>s.
     c_bind (if s = PIECE_STATE_REQUESTED then BITFIELD_ISSET i bf else Inr False) (\<lambda>req.
     c_bind (if s = PIECE_STATE_NOT_REQUESTED then BITFIELD_ISSET i bf else Inr False) (\<lambda>fresh.
       let r' = (if req then Some i else r) in
       if fresh then Inr (Some i, r') else next_scan states bf r' is)))"

text \<open>
  \<open>None\<close> is \<open>-1\<close>, \<open>Some ret\<close> is 0 with \<open>*out = ret\<close>. The indices pass through variables of type
  \<open>uint32_t\<close>.
\<close>

definition torrent_next_request :: "nat \<Rightarrow> sh_t \<Rightarrow> byte list \<Rightarrow> (nat option \<times> sh_t) c_result" where
  "torrent_next_request num_pieces sh peer_have_bf =
     c_bind (next_scan (sh_piece_states sh) peer_have_bf None [0..<num_pieces]) (\<lambda>(nr, r).
       case (case nr of Some i \<Rightarrow> Some i | None \<Rightarrow> r) of
         None \<Rightarrow> Inr (None, sh)
       | Some i \<Rightarrow>
           let ret = unat (of_nat i :: u32) in
           c_bind (arr_set (sh_piece_states sh) ret PIECE_STATE_REQUESTED) (\<lambda>ps.
             Inr (Some ret, sh\<lparr>sh_piece_states := ps\<rparr>)))"

definition PEER_NUM_OUTSTANDING_REQUESTS :: nat where
  "PEER_NUM_OUTSTANDING_REQUESTS = 1"

text \<open>The fields of the message are 32 bits wide.\<close>

definition block_msg :: "u32 \<Rightarrow> block_request_t \<Rightarrow> peer_msg_t" where
  "block_msg index br = Request \<lparr>rq_index = index, rq_begin = of_int (br_begin br), rq_length = of_nat (br_len br)\<rparr>"

primrec send_blocks :: "int \<Rightarrow> u32 \<Rightarrow> conn_t \<Rightarrow> block_request_t list \<Rightarrow> (int \<times> conn_t) c_result" where
  "send_blocks now index c [] = Inr (0, c)"
| "send_blocks now index c (br # brs) =
     c_bind (conn_send (c\<lparr>cn_last_sent := now\<rparr>) (block_msg index br)) (\<lambda>(rc, c1).
       if rc < 0 then Inr (-1, c1) else send_blocks now index c1 brs)"

text \<open>
  The loop of \<open>send_requests\<close>: the return code so far, \<open>not_interested\<close> and the state. The copy of the
  request in \<open>local_requests\<close> shares the arrays that \<open>piece_request_free\<close> frees.
\<close>

primrec request_loop :: "nat \<Rightarrow> int \<Rightarrow> conn_t \<Rightarrow> (int \<times> bool \<times> conn_t) c_result" where
  "request_loop 0 now c = Inr (0, False, c)"
| "request_loop (Suc n) now c =
     c_bind (torrent_next_request (info_num_pieces (mi_info (cn_torrent c))) (cn_sh c) (cs_peer_have (cn_state c)))
       (\<lambda>(r, sh'). case r of
          None \<Rightarrow> Inr (0, True, c)
        | Some req_index \<Rightarrow>
            let c0 = upd_sh (\<lambda>_. sh') c in
            c_bind (piece_request_create (cn_heap c0) (cn_torrent c0) (of_nat req_index)) (\<lambda>(p, h1).
              case p of
                None \<Rightarrow> Inl Null_Deref
              | Some request \<Rightarrow>
                  c_bind (da_append h1 (cs_local_requests (cn_state c0)) request) (\<lambda>(lr, h2).
                    let c1 = (upd_state (\<lambda>s. s\<lparr>cs_local_requests := lr\<rparr>) c0)\<lparr>cn_heap := h2\<rparr> in
                    c_bind (send_blocks now (pr_piece_index request) c1 (da_values (pr_block_requests request)))
                      (\<lambda>(rc, c2).
                         if rc < 0 then Inr (-1, False, c2)
                         else c_bind (piece_request_free request) (\<lambda>freed.
                                request_loop n now
                                  (set_request (da_len lr - 1) freed c2))))))"

definition send_requests :: "int \<Rightarrow> conn_t \<Rightarrow> (int \<times> conn_t) c_result" where
  "send_requests now c =
     (let n = sint (of_nat (size_sub PEER_NUM_OUTSTANDING_REQUESTS (da_len (cs_local_requests (cn_state c)))) :: u32) in
      if n \<le> 0 then Inr (0, c)
      else c_bind (request_loop (nat n) now c) (\<lambda>(rc, not_interested, c1).
             if rc < 0 then Inr (-1, c1)
             else if ps_interested (cs_local (cn_state c1)) \<and> not_interested
             then c_bind (show_not_interested c1) (\<lambda>c2. Inr (0, c2))
             else Inr (0, c1)))"

section \<open>The thread\<close>

definition PEER_TIMEOUT_SEC :: int where
  "PEER_TIMEOUT_SEC = 120"

definition PEER_KEEPALIVE_INTERVAL :: int where
  "PEER_KEEPALIVE_INTERVAL = 60"

text \<open>
  What the operating system answers in \<open>peer_connect\<close>: the socket, the result of \<open>connect\<close> and whether it
  is only in progress, the result of \<open>select\<close>, and the socket's error.
\<close>

record connect_os =
  co_socket :: int
  co_connect :: int
  co_inprogress :: bool
  co_select :: int
  co_so_error :: int

text \<open>
  The descriptor, or a negative number, and the descriptors that were closed. A descriptor above
  \<open>FD_SETSIZE\<close> does not fit into the set for \<open>select\<close>.
\<close>

definition peer_connect :: "connect_os \<Rightarrow> (int \<times> int list) c_result" where
  "peer_connect os =
     (let sockfd = co_socket os in
      if sockfd < 0 then Inr (sockfd, [])
      else if co_connect os < 0 \<and> \<not> co_inprogress os then Inr (-1, [sockfd])
      else if sockfd \<ge> 1024 then Inl Out_Of_Bounds
      else if co_select os \<noteq> 0
      then (if co_so_error os \<noteq> 0 then Inr (-1, [sockfd]) else Inr (sockfd, []))
      else Inr (-1, [sockfd]))"

text \<open>The first lines of \<open>peer_connection\<close>: the new \<open>sockfd\<close> of the thread's argument and what was closed.\<close>

definition thread_socket :: "connect_os \<Rightarrow> int \<Rightarrow> (int \<times> int list) c_result" where
  "thread_socket os arg_sockfd =
     (if arg_sockfd < 0
      then c_bind (peer_connect os) (\<lambda>(sockfd, closed). Inr (if sockfd < 0 then arg_sockfd else sockfd, closed))
      else Inr (arg_sockfd, []))"

definition peer_connection_cleanup :: "int \<Rightarrow> int list" where
  "peer_connection_cleanup arg_sockfd = (if arg_sockfd \<ge> 0 then [arg_sockfd] else [])"

text \<open>
  \<open>peer_connection\<close> from the handshake to the main loop, on a connected socket: whether the loop is reached,
  and the connection, cleaned up if not. The state in the argument is replaced by the new one.
\<close>

definition peer_connection_start ::
  "env_t \<Rightarrow> byte list \<Rightarrow> int \<Rightarrow> conn_t \<Rightarrow> (bool \<times> conn_t) c_result" where
  "peer_connection_start env peer_id now c =
     c_bind (handshake (heap_junk (cn_heap c)) peer_id (cn_sock c) (mi_info_hash (cn_torrent c))) (\<lambda>(r, sk').
       case r of
         None \<Rightarrow> Inr (False, c\<lparr>cn_sock := sk'\<rparr>)
       | Some out_peer_id \<Rightarrow>
           c_bind (peer_queue_open env (c\<lparr>cn_sock := sk'\<rparr>)) (\<lambda>(queue, c1).
             if queue = -1 then Inr (False, c1)
             else c_bind (conn_state_init (cn_heap c1) (cn_torrent c1)) (\<lambda>(st, h1).
               case st of
                 None \<Rightarrow> c_bind (queue_cleanup env (c1\<lparr>cn_heap := h1\<rparr>)) (\<lambda>c'. Inr (False, c'))
               | Some state \<Rightarrow>
                   c_bind (byte_str_new h1 (BITFIELD_NUM_BYTES (cs_bitlen state)) (cs_local_have state)) (\<lambda>(b, h2).
                   c_bind (conn_send (c1\<lparr>cn_state := state, cn_heap := h2\<rparr>) (Bitfield b)) (\<lambda>(rc, c2).
                     if rc < 0 then c_bind (queue_cleanup env c2) (\<lambda>c'. Inr (False, c'))
                     else c_bind (unchoke c2) (\<lambda>c3. Inr (True, c3\<lparr>cn_last_msg := now, cn_last_sent := -1\<rparr>)))))))"

text \<open>
  A round of the main loop has four parts: the time-out and the keep-alive, the events of the other threads,
  the received messages, and serving or sending requests. A part answers whether the loop goes on.
\<close>

definition round_top :: "int \<Rightarrow> conn_t \<Rightarrow> (bool \<times> conn_t) c_result" where
  "round_top now c =
     (if now - cn_last_msg c > PEER_TIMEOUT_SEC then Inr (False, c)
      else if cn_last_sent c \<ge> 0 \<and> now - cn_last_sent c > PEER_KEEPALIVE_INTERVAL
      then c_bind (conn_send c Keepalive) (\<lambda>(rc, c1).
             Inr (if rc < 0 then (False, c1) else (True, c1\<lparr>cn_last_sent := now\<rparr>)))
      else Inr (True, c))"

definition round_work :: "int \<Rightarrow> conn_t \<Rightarrow> (bool \<times> conn_t) c_result" where
  "round_work now c =
     (if q_size (cs_peer_requests (cn_state c)) > 0
      then c_bind (service_peer_requests c) (\<lambda>c1. Inr (True, c1))
      else if \<not> ps_choked (cs_local (cn_state c)) \<and> ps_interested (cs_local (cn_state c))
      then c_bind (send_requests now c) (\<lambda>(rc, c1). Inr (\<not> rc < 0, c1))
      else Inr (True, c))"

definition conn_round :: "env_t \<Rightarrow> int \<Rightarrow> conn_t \<Rightarrow> (bool \<times> conn_t) c_result" where
  "conn_round env now c =
     c_bind (round_top now c) (\<lambda>(alive, c1).
       if \<not> alive then Inr (False, c1)
       else
         c_bind (service_have_events env c1) (\<lambda>c2.
         c_bind (process_queued_messages env now c2) (\<lambda>(rc, c3).
           if rc < 0 then Inr (False, c3) else round_work now c3)))"

text \<open>The loop, with the clock of each round; \<open>True\<close> when it is still running after them.\<close>

fun conn_loop :: "env_t \<Rightarrow> int list \<Rightarrow> conn_t \<Rightarrow> (bool \<times> conn_t) c_result" where
  "conn_loop env [] c = Inr (True, c)"
| "conn_loop env (now # ts) c =
     c_bind (conn_round env now c) (\<lambda>(alive, c'). if alive then conn_loop env ts c' else Inr (False, c'))"

text \<open>
  The whole thread: whether it is still running after the given rounds, the descriptors it has closed, and
  the connection.
\<close>

definition peer_connection ::
  "env_t \<Rightarrow> connect_os \<Rightarrow> int \<Rightarrow> byte list \<Rightarrow> int \<Rightarrow> int list \<Rightarrow> conn_t \<Rightarrow> (bool \<times> int list \<times> conn_t) c_result" where
  "peer_connection env os arg_sockfd peer_id now ts c =
     c_bind (thread_socket os arg_sockfd) (\<lambda>(sockfd, closed).
       if sockfd < 0 then Inr (False, closed @ peer_connection_cleanup sockfd, c)
       else c_bind (peer_connection_start env peer_id now c) (\<lambda>(running, c1).
         if \<not> running then Inr (False, closed @ peer_connection_cleanup sockfd, c1)
         else c_bind (conn_loop env ts c1) (\<lambda>(alive, c2).
           if alive then Inr (True, closed, c2)
           else c_bind (queue_cleanup env c2) (\<lambda>c3. Inr (False, closed @ peer_connection_cleanup sockfd, c3)))))"

end
