(* ===== verification/Connection_Requests.thy ===== *)
theory Connection_Requests
  imports Peer_Connection
begin

text \<open>
  What a connection asks its peer for: the bitfield it starts with, the choice of the next piece, and
  the request messages it puts on the wire.
\<close>

lemma upd_state_simps [simp]:
  "cn_state (upd_state f c) = f (cn_state c)" "cn_sock (upd_state f c) = cn_sock c"
  "cn_torrent (upd_state f c) = cn_torrent c" "cn_heap (upd_state f c) = cn_heap c"
  "cn_queues (upd_state f c) = cn_queues c" "cn_self (upd_state f c) = cn_self c"
  "cn_last_msg (upd_state f c) = cn_last_msg c" "cn_last_sent (upd_state f c) = cn_last_sent c"
  by (simp_all add: upd_state_def)

lemma upd_sh_simps [simp]:
  "cn_state (upd_sh f c) = cn_state c" "cn_sock (upd_sh f c) = cn_sock c"
  "cn_torrent (upd_sh f c) = (cn_torrent c)\<lparr>mi_sh := f (cn_sh c)\<rparr>" "cn_heap (upd_sh f c) = cn_heap c"
  "cn_queues (upd_sh f c) = cn_queues c" "cn_self (upd_sh f c) = cn_self c"
  by (simp_all add: upd_sh_def)

lemma set_request_simps [simp]:
  "cn_sock (set_request i pr c) = cn_sock c" "cn_torrent (set_request i pr c) = cn_torrent c"
  "cn_heap (set_request i pr c) = cn_heap c" "cn_queues (set_request i pr c) = cn_queues c"
  "cn_self (set_request i pr c) = cn_self c"
  by (simp_all add: set_request_def)

section \<open>The bitfield of our pieces\<close>

lemma make_bitfield_loop_ok:
  "\<forall>i\<in>set is. i < length states \<and> i < 8 * length ret \<Longrightarrow>
   \<exists>ret'. make_bitfield_loop states ret is = Inr ret' \<and> length ret' = length ret \<and>
     bf_ones ret' = bf_ones ret \<union> {i \<in> set is. states ! i = PIECE_STATE_HAVE}"
proof (induction "is" arbitrary: ret)
  case Nil
  then show ?case by simp
next
  case (Cons i "is")
  show ?case
  proof (cases "states ! i = PIECE_STATE_HAVE")
    case True
    obtain b where b: "BITFIELD_SET i ret = Inr b" "length b = length ret"
      using bf.set_in [of i ret] Cons.prems by auto
    from Cons.IH [of b] Cons.prems b obtain ret' where
      "make_bitfield_loop states b is = Inr ret'" "length ret' = length b"
      "bf_ones ret' = bf_ones b \<union> {i \<in> set is. states ! i = PIECE_STATE_HAVE}" by auto
    then show ?thesis using True b Cons.prems bf.ones_set [OF b(1)] by auto
  next
    case False
    then have eq: "{j \<in> set (i # is). states ! j = PIECE_STATE_HAVE} = {j \<in> set is. states ! j = PIECE_STATE_HAVE}"
      by auto
    show ?thesis unfolding eq using False Cons.IH [of ret] Cons.prems by simp
  qed
qed

lemma make_bitfield_ok:
  assumes "heap_ok h" and "n = info_num_pieces (mi_info torrent)" and "length (sh_piece_states (mi_sh torrent)) = n"
    and "n < 2 ^ 63"
  shows "\<exists>bits. make_bitfield h torrent = Inr (Some bits, h) \<and> length bits = BITFIELD_NUM_BYTES n \<and>
    bf_ones bits = {i. i < n \<and> sh_piece_states (mi_sh torrent) ! i = PIECE_STATE_HAVE}"
proof -
  let ?ret = "replicate (BITFIELD_NUM_BYTES n) 0 :: byte list"
  have "BITFIELD_NUM_BYTES n < 2 ^ 64" using num_bytes_least [of n] assms(4) by simp
  then have "calloc h (BITFIELD_NUM_BYTES n) 1 = (Some ?ret, h)" using assms(1) by (simp add: calloc_def)
  moreover have "\<exists>ret'. make_bitfield_loop (sh_piece_states (mi_sh torrent)) ?ret [0..<n] = Inr ret' \<and>
      length ret' = length ?ret \<and>
      bf_ones ret' = bf_ones ?ret \<union> {i \<in> set [0..<n]. sh_piece_states (mi_sh torrent) ! i = PIECE_STATE_HAVE}"
    by (rule make_bitfield_loop_ok) (auto simp: assms(3) num_bytes_index)
  ultimately show ?thesis using assms(2) by (auto simp: make_bitfield_def)
qed

text \<open>
  \<open>make_bitfield\<close> describes the torrent: it has the size the protocol prescribes, and bit \<open>i\<close> is set
  exactly for the pieces in state \<open>PIECE_STATE_HAVE\<close> (the padding bits are clear).
\<close>
theorem make_bitfield_correct:
  assumes "heap_ok h" and "n = info_num_pieces (mi_info torrent)" and "length (sh_piece_states (mi_sh torrent)) = n"
    and "n < 2 ^ 63"
  shows "\<exists>bits. make_bitfield h torrent = Inr (Some bits, h) \<and> length bits = BITFIELD_NUM_BYTES n \<and>
    bf_ones bits = {i. i < n \<and> sh_piece_states (mi_sh torrent) ! i = PIECE_STATE_HAVE}"
  by (rule make_bitfield_ok [OF assms])

definition sample_swarm :: "piece_state_t list \<Rightarrow> metainfo_t" where
  "sample_swarm ps =
     (sample_torrent 32768 (map Some sample_files @ [None]))
       \<lparr>mi_info := (mi_info (sample_torrent 32768 []))\<lparr>info_num_pieces := length ps\<rparr>,
        mi_sh := (mi_sh (sample_torrent 32768 []))\<lparr>sh_piece_states := ps, sh_pieces_left := length ps\<rparr>\<rparr>"

lemma sample_swarm_simps [simp]:
  "info_num_pieces (mi_info (sample_swarm ps)) = length ps" "sh_piece_states (mi_sh (sample_swarm ps)) = ps"
  "sh_pieces_left (mi_sh (sample_swarm ps)) = length ps"
  "info_piece_length (mi_info (sample_swarm ps)) = 32768" "mi_files (sample_swarm ps) = map Some sample_files @ [None]"
  by (simp_all add: sample_swarm_def)

theorem make_bitfield_correct_witness:
  "\<exists>bits. make_bitfield calm_heap (sample_swarm [PIECE_STATE_HAVE, PIECE_STATE_REQUESTED]) = Inr (Some bits, calm_heap) \<and>
    length bits = BITFIELD_NUM_BYTES 2 \<and>
    bf_ones bits = {i. i < 2 \<and> sh_piece_states (mi_sh (sample_swarm [PIECE_STATE_HAVE, PIECE_STATE_REQUESTED])) ! i = PIECE_STATE_HAVE}"
  by (rule make_bitfield_correct) simp_all

section \<open>Choosing a piece\<close>

definition fresh_piece :: "piece_state_t list \<Rightarrow> byte list \<Rightarrow> nat \<Rightarrow> bool" where
  "fresh_piece states bf i \<longleftrightarrow> states ! i = PIECE_STATE_NOT_REQUESTED \<and> i \<in> bf_ones bf"

definition asked_piece :: "piece_state_t list \<Rightarrow> byte list \<Rightarrow> nat \<Rightarrow> bool" where
  "asked_piece states bf i \<longleftrightarrow> states ! i = PIECE_STATE_REQUESTED \<and> i \<in> bf_ones bf"

text \<open>The specification of the choice: the first fresh piece, else the last one already asked for.\<close>

definition piece_choice :: "piece_state_t list \<Rightarrow> byte list \<Rightarrow> nat list \<Rightarrow> nat option \<Rightarrow> nat option" where
  "piece_choice states bf is r =
     (case find (fresh_piece states bf) is of
        Some i \<Rightarrow> Some i
      | None \<Rightarrow> (case filter (asked_piece states bf) is of [] \<Rightarrow> r | xs \<Rightarrow> Some (last xs)))"

lemma next_scan_choice:
  "\<forall>i\<in>set is. i < length states \<and> i < 8 * length bf \<Longrightarrow>
   \<exists>nr r'. next_scan states bf r is = Inr (nr, r') \<and>
     (case nr of Some i \<Rightarrow> Some i | None \<Rightarrow> r') = piece_choice states bf is r"
proof (induction "is" arbitrary: r)
  case Nil
  then show ?case by (simp add: piece_choice_def)
next
  case (Cons i "is")
  have i: "i < length states" "BITFIELD_ISSET i bf = Inr (i \<in> bf_ones bf)"
    using Cons.prems bf.isset_iff_ones [of i bf] by simp_all
  have IH: "\<exists>nr r'. next_scan states bf r is = Inr (nr, r') \<and>
     (case nr of Some i \<Rightarrow> Some i | None \<Rightarrow> r') = piece_choice states bf is r" for r
    using Cons by simp
  show ?case
  proof (cases "fresh_piece states bf i")
    case True
    then show ?thesis using i by (simp add: piece_choice_def fresh_piece_def)
  next
    case False
    then have "next_scan states bf r (i # is) = next_scan states bf (if asked_piece states bf i then Some i else r) is"
      using i by (cases "states ! i") (auto simp: fresh_piece_def asked_piece_def)
    moreover have "piece_choice states bf (i # is) r = piece_choice states bf is (if asked_piece states bf i then Some i else r)"
      using False by (auto simp: piece_choice_def split: option.splits list.splits)
    ultimately show ?thesis using IH by simp
  qed
qed

lemma piece_choice_in:
  "piece_choice states bf is None = Some i \<Longrightarrow> i \<in> set is \<and> states ! i \<noteq> PIECE_STATE_HAVE \<and> i \<in> bf_ones bf"
proof (cases "find (fresh_piece states bf) is")
  case None
  assume "piece_choice states bf is None = Some i"
  then have "i \<in> set (filter (asked_piece states bf) is)"
    using None last_in_set [of "filter (asked_piece states bf) is"]
    by (auto simp: piece_choice_def split: list.splits)
  then show ?thesis by (auto simp: asked_piece_def)
next
  case (Some j)
  assume "piece_choice states bf is None = Some i"
  then have "j = i" using Some by (simp add: piece_choice_def)
  then show ?thesis using Some by (auto simp: find_Some_iff fresh_piece_def)
qed

lemma next_request_eq:
  assumes "length (sh_piece_states sh) = n" and "n < 2 ^ 32" and "n \<le> 8 * length bf"
  shows "torrent_next_request n sh bf =
    (case piece_choice (sh_piece_states sh) bf [0..<n] None of
       None \<Rightarrow> Inr (None, sh)
     | Some i \<Rightarrow> Inr (Some i, sh\<lparr>sh_piece_states := (sh_piece_states sh)[i := PIECE_STATE_REQUESTED]\<rparr>))"
proof -
  let ?choice = "piece_choice (sh_piece_states sh) bf [0..<n] None"
  have "\<forall>i\<in>set [0..<n]. i < length (sh_piece_states sh) \<and> i < 8 * length bf" using assms by auto
  from next_scan_choice [OF this, of None] obtain nr r where
    scan: "next_scan (sh_piece_states sh) bf None [0..<n] = Inr (nr, r)"
    "(case nr of Some i \<Rightarrow> Some i | None \<Rightarrow> r) = ?choice" by blast
  show ?thesis
  proof (cases ?choice)
    case None
    then show ?thesis using scan by (simp add: torrent_next_request_def)
  next
    case (Some i)
    then have i: "i < n" using piece_choice_in [OF Some] by simp
    then have "unat (of_nat i :: u32) = i" using assms(2) by (simp add: unat_of_nat)
    then show ?thesis using scan Some i assms(1) by (simp add: torrent_next_request_def)
  qed
qed

text \<open>
  C35. The next piece to ask for is the first one nobody has asked for that the peer has; when there is
  none, the last one that is asked for already (so that no piece is stuck with a lost peer); a piece we
  have is never chosen, and the chosen piece is marked \<open>PIECE_STATE_REQUESTED\<close>.
\<close>
theorem torrent_next_request_choice:
  assumes "length (sh_piece_states sh) = n" and "n < 2 ^ 32" and "n \<le> 8 * length bf"
  shows "torrent_next_request n sh bf =
    (case find (fresh_piece (sh_piece_states sh) bf) [0..<n] of
       Some i \<Rightarrow> Inr (Some i, sh\<lparr>sh_piece_states := (sh_piece_states sh)[i := PIECE_STATE_REQUESTED]\<rparr>)
     | None \<Rightarrow>
         (case filter (asked_piece (sh_piece_states sh) bf) [0..<n] of
            [] \<Rightarrow> Inr (None, sh)
          | xs \<Rightarrow> Inr (Some (last xs), sh)))"
proof (cases "find (fresh_piece (sh_piece_states sh) bf) [0..<n]")
  case (Some i)
  then show ?thesis using next_request_eq [OF assms] by (simp add: piece_choice_def)
next
  case None
  show ?thesis
  proof (cases "filter (asked_piece (sh_piece_states sh) bf) [0..<n]")
    case Nil
    then show ?thesis using None next_request_eq [OF assms] by (simp add: piece_choice_def)
  next
    case (Cons x xs)
    then have "last (x # xs) \<in> set (filter (asked_piece (sh_piece_states sh) bf) [0..<n])" by (metis last_in_set list.distinct(1))
    then have "sh_piece_states sh ! last (x # xs) = PIECE_STATE_REQUESTED" by (simp add: asked_piece_def)
    then have "(sh_piece_states sh)[last (x # xs) := PIECE_STATE_REQUESTED] = sh_piece_states sh" by (metis list_update_id)
    then show ?thesis using None Cons next_request_eq [OF assms] by (simp add: piece_choice_def)
  qed
qed

theorem torrent_next_request_choice_witness:
  "let sh = mi_sh (sample_swarm [PIECE_STATE_HAVE, PIECE_STATE_REQUESTED, PIECE_STATE_NOT_REQUESTED]) in
   torrent_next_request 3 sh [0xE0] =
    (case find (fresh_piece (sh_piece_states sh) [0xE0]) [0..<3] of
       Some i \<Rightarrow> Inr (Some i, sh\<lparr>sh_piece_states := (sh_piece_states sh)[i := PIECE_STATE_REQUESTED]\<rparr>)
     | None \<Rightarrow>
         (case filter (asked_piece (sh_piece_states sh) [0xE0]) [0..<3] of
            [] \<Rightarrow> Inr (None, sh)
          | xs \<Rightarrow> Inr (Some (last xs), sh)))"
  unfolding Let_def by (rule torrent_next_request_choice) simp_all

section \<open>Asking for a piece\<close>

text \<open>The request messages of a piece, by the plan of its blocks.\<close>

definition request_msgs :: "nat \<Rightarrow> nat \<Rightarrow> peer_msg_t list" where
  "request_msgs i n =
     map (\<lambda>(b, l). Request \<lparr>rq_index = of_nat i, rq_begin = of_nat b, rq_length = of_nat l\<rparr>) (block_plan n)"

lemma block_msg_covers:
  "block_covers fs p br bl \<Longrightarrow>
   block_msg index br = Request \<lparr>rq_index = index, rq_begin = of_nat (fst bl), rq_length = of_nat (snd bl)\<rparr>"
  by (simp add: block_covers_def block_msg_def)

lemma send_blocks_ok:
  "wr.open_end (cn_sock c) \<Longrightarrow>
   \<exists>sk' last. send_blocks now index c brs = Inr (0, c\<lparr>cn_sock := sk', cn_last_sent := last\<rparr>) \<and> wr.open_end sk' \<and>
     sk_out sk' = sk_out (cn_sock c) @ concat (map (\<lambda>br. msg_bytes (cn_torrent c) (block_msg index br)) brs) \<and>
     in_part sk' = in_part (cn_sock c)"
proof (induction brs arbitrary: c)
  case Nil
  have "c\<lparr>cn_sock := cn_sock c, cn_last_sent := cn_last_sent c\<rparr> = c" by simp
  then show ?case using Nil by (intro exI [of _ "cn_sock c"] exI [of _ "cn_last_sent c"]) simp
next
  case (Cons br brs)
  have w: "wire_msg (cn_torrent c) (block_msg index br)" by (simp add: wire_msg_def block_msg_def)
  obtain sk1 where s: "peer_msg_send (cn_sock c) (block_msg index br) (cn_torrent c) = Inr (0, sk1)"
    "sk_out sk1 = sk_out (cn_sock c) @ msg_bytes (cn_torrent c) (block_msg index br)" "wr.open_end sk1"
    "in_part sk1 = in_part (cn_sock c)"
    by (rule peer_msg_send_ok [OF w Cons.prems])
  from Cons.IH [of "c\<lparr>cn_last_sent := now, cn_sock := sk1\<rparr>"] s
  show ?case by (auto simp: conn_send_def)
qed

lemma metainfo_sh_frame:
  "mi_info (torrent\<lparr>mi_sh := x\<rparr>) = mi_info torrent" "mi_files (torrent\<lparr>mi_sh := x\<rparr>) = mi_files torrent"
  by simp_all

lemma msg_bytes_mi_sh [simp]: "msg_bytes (torrent\<lparr>mi_sh := x\<rparr>) msg = msg_bytes torrent msg"
  unfolding msg_bytes_def msgbuf_len_def metainfo_sh_frame ..

lemma piece_request_create_mi_sh [simp]:
  "piece_request_create h (torrent\<lparr>mi_sh := x\<rparr>) index = piece_request_create h torrent index"
  unfolding piece_request_create_def skip_until_index_def metainfo_sh_frame ..

lemma request_msgs_covers:
  "list_all2 (block_covers fs p) brs (block_plan n) \<Longrightarrow> map (block_msg (of_nat i)) brs = request_msgs i n"
  unfolding request_msgs_def
  by (induction rule: list_all2_induct) (simp_all add: block_msg_covers case_prod_beta)

lemma set_request_last:
  "da_values (cs_local_requests (cn_state c)) = [x] \<Longrightarrow>
   da_values (cs_local_requests (cn_state (set_request 0 pr c))) = [pr]"
  by (simp add: set_request_def)

lemma send_requests_ok:
  assumes "heap_ok (cn_heap c)" and "sk_room (cn_sock c) = None"
    and "da_values (cs_local_requests (cn_state c)) = []"
    and "files_ok fs" and "mi_files (cn_torrent c) = map Some fs @ None # xs"
    and "L = info_piece_length (mi_info (cn_torrent c))" and "L < 2 ^ 64" and "16384 dvd L"
    and "N = info_num_pieces (mi_info (cn_torrent c))" and "length (sh_piece_states (cn_sh c)) = N" and "N < 2 ^ 32"
    and "N \<le> 8 * length (cs_peer_have (cn_state c))"
    and "piece_choice (sh_piece_states (cn_sh c)) (cs_peer_have (cn_state c)) [0..<N] None = Some i"
    and "L * i \<le> total_size fs" and "n = min L (total_size fs - L * i)"
  shows "\<exists>c' pr. send_requests now c = Inr (0, c') \<and>
    sk_out (cn_sock c') = sk_out (cn_sock c) @ concat (map (msg_bytes (cn_torrent c)) (request_msgs i n)) \<and>
    sh_piece_states (cn_sh c') = (sh_piece_states (cn_sh c))[i := PIECE_STATE_REQUESTED] \<and>
    da_values (cs_local_requests (cn_state c')) = [pr] \<and> pr_piece_index pr = of_nat i \<and>
    pr_blocks_left pr = of_nat (block_count n) \<and> pr_freed pr \<and>
    list_all2 (block_covers fs (L * i)) (da_values (pr_block_requests pr)) (block_plan n)"
proof -
  let ?sh = "(cn_sh c)\<lparr>sh_piece_states := (sh_piece_states (cn_sh c))[i := PIECE_STATE_REQUESTED]\<rparr>"
  let ?c0 = "upd_sh (\<lambda>_. ?sh) c"
  have i: "i < N" using piece_choice_in [OF assms(13)] by simp
  then have u: "unat (of_nat i :: u32) = i" using assms(11) by (simp add: unat_of_nat)
  have next': "torrent_next_request N (cn_sh c) (cs_peer_have (cn_state c)) = Inr (Some i, ?sh)"
    using next_request_eq [OF assms(10,11,12)] assms(13) by simp
  have n: "n = covered L (total_size fs - L * i)" using assms(8,15) by (simp add: covered_def)
  obtain pr where pr: "piece_request_create (cn_heap c) (cn_torrent c) (of_nat i) = Inr (Some pr, cn_heap c)"
    "pr_piece_index pr = of_nat i" "\<not> pr_freed pr" "pr_blocks_left pr = of_nat (block_count n)"
    "list_all2 (block_covers fs (L * i)) (da_values (pr_block_requests pr)) (block_plan n)"
    using piece_request_create_ok [OF assms(1,4,5,6,7) _ assms(14) n, of "of_nat i"] u by auto
  obtain lr where lr: "da_append (cn_heap c) (cs_local_requests (cn_state c)) pr = Inr (lr, cn_heap c)"
    "da_values lr = [pr]" using da_append_ok [OF assms(1), of "cs_local_requests (cn_state c)" pr] assms(3) by auto
  define c1 where "c1 = (upd_state (\<lambda>s. s\<lparr>cs_local_requests := lr\<rparr>) ?c0)\<lparr>cn_heap := cn_heap c\<rparr>"
  have "wr.open_end (cn_sock c1)" using assms(2) by (simp add: wr.open_end_def c1_def)
  from send_blocks_ok [OF this, of now "of_nat i" "da_values (pr_block_requests pr)"] obtain sk' t where
    sb: "send_blocks now (of_nat i) c1 (da_values (pr_block_requests pr)) = Inr (0, c1\<lparr>cn_sock := sk', cn_last_sent := t\<rparr>)"
    "sk_out sk' = sk_out (cn_sock c) @ concat (map (\<lambda>br. msg_bytes (cn_torrent c) (block_msg (of_nat i) br)) (da_values (pr_block_requests pr)))"
    by (auto simp: c1_def)
  define c2 where "c2 = set_request 0 (pr\<lparr>pr_freed := True\<rparr>) (c1\<lparr>cn_sock := sk', cn_last_sent := t\<rparr>)"
  have "request_loop 1 now c = Inr (0, False, c2)"
    using next' pr(1,2,3) lr sb(1) assms(9)
    by (simp add: piece_request_free_def da_len_def Let_def c2_def flip: c1_def)
  moreover have "sint (of_nat (size_sub 1 0) :: u32) = 1" by (simp add: size_sub_exact)
  ultimately have run: "send_requests now c = Inr (0, c2)"
    using assms(3) by (simp add: send_requests_def PEER_NUM_OUTSTANDING_REQUESTS_def da_len_def)
  have "map (\<lambda>br. msg_bytes (cn_torrent c) (block_msg (of_nat i) br)) (da_values (pr_block_requests pr)) =
      map (msg_bytes (cn_torrent c)) (request_msgs i n)"
    using request_msgs_covers [OF pr(5), of i] by (metis (no_types, lifting) list.map_comp comp_apply map_eq_conv)
  then show ?thesis
    using run sb(2) lr(2) pr by (intro exI [of _ c2] exI [of _ "pr\<lparr>pr_freed := True\<rparr>"]) (simp add: c2_def c1_def set_request_def)
qed

text \<open>
  C34. A connection with no outstanding request asks for exactly the chosen piece: it sends one request
  per block of the piece, in order and with nothing else, marks the piece as requested and remembers
  the request with all its blocks open. (The arrays of the remembered request have been freed.)
\<close>
theorem send_requests_asks:
  assumes "heap_ok (cn_heap c)" and "sk_room (cn_sock c) = None"
    and "da_values (cs_local_requests (cn_state c)) = []"
    and "files_ok fs" and "mi_files (cn_torrent c) = map Some fs @ None # xs"
    and "L = info_piece_length (mi_info (cn_torrent c))" and "L < 2 ^ 64" and "16384 dvd L"
    and "N = info_num_pieces (mi_info (cn_torrent c))" and "length (sh_piece_states (cn_sh c)) = N" and "N < 2 ^ 32"
    and "N \<le> 8 * length (cs_peer_have (cn_state c))"
    and "piece_choice (sh_piece_states (cn_sh c)) (cs_peer_have (cn_state c)) [0..<N] None = Some i"
    and "L * i \<le> total_size fs" and "n = min L (total_size fs - L * i)"
  shows "\<exists>c' pr. send_requests now c = Inr (0, c') \<and>
    sk_out (cn_sock c') = sk_out (cn_sock c) @ concat (map (msg_bytes (cn_torrent c)) (request_msgs i n)) \<and>
    sh_piece_states (cn_sh c') = (sh_piece_states (cn_sh c))[i := PIECE_STATE_REQUESTED] \<and>
    da_values (cs_local_requests (cn_state c')) = [pr] \<and> pr_piece_index pr = of_nat i \<and>
    pr_blocks_left pr = of_nat (block_count n) \<and> pr_freed pr \<and>
    list_all2 (block_covers fs (L * i)) (da_values (pr_block_requests pr)) (block_plan n)"
  by (rule send_requests_ok [OF assms])

definition sample_queue :: queue_t where
  "sample_queue = \<lparr>q_entry_size = 12, q_capacity = 16, q_size = 0, q_head = 0, q_tail = - 12, q_mem = replicate 192 0\<rparr>"

text \<open>A connection, unchoked and interested, on the sample torrent; the peer has the pieces of \<open>bf\<close>.\<close>

definition sample_conn :: "piece_state_t list \<Rightarrow> byte list \<Rightarrow> conn_t" where
  "sample_conn ps bf =
     \<lparr>cn_sock = plain_sock [],
      cn_state = \<lparr>cs_local = \<lparr>ps_choked = False, ps_interested = True\<rparr>,
                  cs_remote = \<lparr>ps_choked = False, ps_interested = False\<rparr>,
                  cs_peer_have = bf, cs_peer_wants = [], cs_local_have = replicate (length bf) 0,
                  cs_bitlen = length ps, cs_blocks_sent = 0, cs_block_recvd = 0,
                  cs_local_requests = \<lparr>da_cap = 16, da_values = []\<rparr>, cs_peer_requests = sample_queue\<rparr>,
      cn_torrent = sample_swarm ps, cn_heap = calm_heap, cn_queues = Map.empty, cn_self = 1, cn_renames = [],
      cn_last_msg = 0, cn_last_sent = -1\<rparr>"

lemma sample_conn_simps [simp]:
  "cn_sock (sample_conn ps bf) = plain_sock []" "cn_torrent (sample_conn ps bf) = sample_swarm ps"
  "cn_heap (sample_conn ps bf) = calm_heap" "cs_peer_have (cn_state (sample_conn ps bf)) = bf"
  "cs_local_requests (cn_state (sample_conn ps bf)) = \<lparr>da_cap = 16, da_values = []\<rparr>"
  "cs_peer_requests (cn_state (sample_conn ps bf)) = sample_queue"
  "cs_local (cn_state (sample_conn ps bf)) = \<lparr>ps_choked = False, ps_interested = True\<rparr>"
  "cs_local_have (cn_state (sample_conn ps bf)) = replicate (length bf) 0"
  by (simp_all add: sample_conn_def)

lemma bf_ones_bits: "bf_ones bs = {i. i < 8 * length bs \<and> bit (bs ! (i div 8)) (7 - i mod 8)}"
proof -
  have "BITFIELD_ISSET i bs = Inr True \<longleftrightarrow> i < 8 * length bs \<and> bit (bs ! (i div 8)) (7 - i mod 8)" for i
    by (cases "i < 8 * length bs") (simp_all add: BITFIELD_ISSET_in BITFIELD_ISSET_out)
  then show ?thesis by (simp add: bf.ones_def)
qed

theorem send_requests_asks_witness:
  "let c = sample_conn [PIECE_STATE_HAVE, PIECE_STATE_NOT_REQUESTED] [0xC0] in
   \<exists>c' pr. send_requests 5 c = Inr (0, c') \<and>
    sk_out (cn_sock c') = sk_out (cn_sock c) @ concat (map (msg_bytes (cn_torrent c)) (request_msgs 1 17232)) \<and>
    sh_piece_states (cn_sh c') = (sh_piece_states (cn_sh c))[1 := PIECE_STATE_REQUESTED] \<and>
    da_values (cs_local_requests (cn_state c')) = [pr] \<and> pr_piece_index pr = of_nat 1 \<and>
    pr_blocks_left pr = of_nat (block_count 17232) \<and> pr_freed pr \<and>
    list_all2 (block_covers sample_files (32768 * 1)) (da_values (pr_block_requests pr)) (block_plan 17232)"
  unfolding Let_def
  by (rule send_requests_asks [where N = 2 and xs = "[]"])
     (simp_all add: piece_choice_def fresh_piece_def upt_rec bf_ones_bits)

text \<open>
  A connection asks for one piece in its whole life: the list of its requests never shrinks, and
  once it holds an entry \<open>send_requests\<close> does nothing and returns 0.
\<close>
theorem send_requests_only_once:
  assumes "0 < da_len (cs_local_requests (cn_state c))" and "da_len (cs_local_requests (cn_state c)) \<le> 2 ^ 31"
  shows "send_requests now c = Inr (0, c)"
proof -
  let ?len = "da_len (cs_local_requests (cn_state c))"
  have "(int 1 - int ?len) mod 2 ^ 64 = (if ?len = 1 then 0 else 2 ^ 64 + 1 - int ?len)"
    using assms mod_add_self2 [of "1 - int ?len" "2 ^ 64"] by (auto simp: mod_pos_pos_trivial)
  then have "size_sub 1 ?len = (if ?len = 1 then 0 else 2 ^ 64 + 1 - ?len)"
    using assms(2) by (auto simp: size_sub_def nat_diff_distrib nat_add_distrib)
  moreover have "sint (of_nat (2 ^ 64 + 1 - ?len) :: u32) = 1 - int ?len" if "?len \<noteq> 1"
  proof -
    have eq: "(of_nat (2 ^ 64 + 1 - ?len) :: u32) = word_of_int (1 - int ?len)"
      using assms(2) by (simp add: of_nat_diff)
    show ?thesis unfolding eq int_word_sint using assms by simp
  qed
  ultimately show ?thesis
    using assms(1) by (auto simp: send_requests_def PEER_NUM_OUTSTANDING_REQUESTS_def Let_def)
qed

text \<open>
  The block that answers a request is looked up in freed memory: \<open>send_requests\<close> frees the arrays
  its entry of \<open>local_requests\<close> points to, so the first \<open>piece\<close> message for that piece makes
  \<open>process_msg\<close> read and write behind \<open>free\<close> (unless the allocator happens to leave them alone).
\<close>
theorem process_msg_uses_freed:
  assumes "da_values (cs_local_requests (cn_state c)) = [pr]" and "pr_freed pr" and "\<not> ev_lax env"
    and "da_values (pr_block_requests pr) \<noteq> []" and "pr_piece_index pr = pc_index msg"
  shows "process_msg env c (Piece msg) = Inl Use_After_Free"
  using assms by (simp add: process_msg_def process_piece_msg_def da_len_def mark_block_def upt_rec)

definition sample_request :: "bool \<Rightarrow> u32 \<Rightarrow> piece_request_t" where
  "sample_request freed i =
     \<lparr>pr_piece_index = i,
      pr_block_requests = \<lparr>da_cap = 16, da_values =
        [\<lparr>br_filemems = \<lparr>da_cap = 16, da_values = []\<rparr>, br_begin = 0, br_len = 16384, br_completed = False\<rparr>]\<rparr>,
      pr_blocks_left = 1, pr_freed = freed\<rparr>"

definition sample_env :: "bool \<Rightarrow> env_t" where
  "sample_env lax = \<lparr>ev_sha1 = \<lambda>bs. take 20 (bs @ replicate 20 0), ev_lit = [0], ev_junk = 0,
                     ev_tmem = \<lambda>_. replicate 8 0, ev_lax = lax, ev_mq_open = \<lambda>_. True\<rparr>"

theorem send_requests_only_once_witness:
  "let c = upd_state (\<lambda>s. s\<lparr>cs_local_requests := \<lparr>da_cap = 16, da_values = [sample_request True 1]\<rparr>\<rparr>)
             (sample_conn [PIECE_STATE_NOT_REQUESTED, PIECE_STATE_REQUESTED] [0xC0])
   in send_requests 5 c = Inr (0, c)"
  unfolding Let_def by (rule send_requests_only_once) (simp_all add: da_len_def)

theorem process_msg_uses_freed_witness:
  "process_msg (sample_env False)
     (upd_state (\<lambda>s. s\<lparr>cs_local_requests := \<lparr>da_cap = 16, da_values = [sample_request True 1]\<rparr>\<rparr>)
        (sample_conn [PIECE_STATE_NOT_REQUESTED, PIECE_STATE_REQUESTED] [0xC0]))
     (Piece \<lparr>pc_index = 1, pc_begin = 0, pc_blocklen = 16384\<rparr>) = Inl Use_After_Free"
  by (rule process_msg_uses_freed [of _ "sample_request True 1"]) (simp_all add: sample_request_def sample_env_def)

end
