(* ===== verification/Connection_Messages.thy ===== *)
theory Connection_Messages
  imports Connection_Requests
begin

text \<open>
  How a connection answers its peer: the queue of requests, the reaction to \<open>have\<close> and \<open>bitfield\<close>
  messages, the events between threads, and that the loop over the received messages ends.
\<close>

section \<open>Serving requests\<close>

lemma serve_loop_ok:
  "queue_inv (cs_peer_requests (cn_state c)) \<Longrightarrow> q_entry_size (cs_peer_requests (cn_state c)) = length request \<Longrightarrow>
   wr.open_end (cn_sock c) \<Longrightarrow> length (queue_entries (cs_peer_requests (cn_state c))) < n \<Longrightarrow>
   \<exists>c'. serve_loop n c request = Inr c' \<and> queue_inv (cs_peer_requests (cn_state c')) \<and>
     queue_entries (cs_peer_requests (cn_state c')) = [] \<and>
     cs_blocks_sent (cn_state c') = cs_blocks_sent (cn_state c) + of_nat (length (queue_entries (cs_peer_requests (cn_state c)))) \<and>
     sk_out (cn_sock c') = sk_out (cn_sock c) @
       concat (replicate (length (queue_entries (cs_peer_requests (cn_state c)))) (be32 16393 @ [7])) \<and>
     cn_torrent c' = cn_torrent c"
proof (induction n arbitrary: c request)
  case 0
  then show ?case by simp
next
  case (Suc n)
  let ?q = "cs_peer_requests (cn_state c)"
  show ?case
  proof (cases "queue_entries ?q")
    case Nil
    have "upd_state (\<lambda>s. s\<lparr>cs_peer_requests := ?q\<rparr>) c = c" by (simp add: upd_state_def)
    then show ?thesis using Nil Suc.prems(1) dequeue_empty [of ?q request] by simp
  next
    case (Cons x xs)
    obtain q' where q': "dequeue ?q request = Inr (0, x, q')" "queue_inv q'" "queue_entries q' = xs" "q_entry_size q' = q_entry_size ?q"
      using dequeue_ok [OF Suc.prems(1) Cons] Suc.prems(2) by auto
    let ?c1 = "upd_state (\<lambda>s. s\<lparr>cs_peer_requests := q'\<rparr>) c"
    let ?msg = "\<lparr>pc_index = rq_index (mem_req x), pc_begin = rq_begin (mem_req x), pc_blocklen = unat (rq_length (mem_req x))\<rparr>"
    obtain sk' where sk: "peer_msg_send (cn_sock c) (Piece ?msg) (cn_torrent c) = Inr (0, sk')"
      "sk_out sk' = sk_out (cn_sock c) @ be32 16393 @ [7]" "wr.open_end sk'"
      by (rule send_piece_header [OF Suc.prems(3)])
    let ?c2 = "upd_state (\<lambda>s. s\<lparr>cs_blocks_sent := cs_blocks_sent s + 1\<rparr>) (?c1\<lparr>cn_sock := sk'\<rparr>)"
    have len: "length x = q_entry_size ?q" using queue_entries_size [OF Suc.prems(1), of x] Cons by simp
    from Suc.IH [of ?c2 x] q' sk len Suc.prems Cons
    show ?thesis by (simp add: conn_send_def Let_def add.assoc)
  qed
qed

text \<open>
  \<open>service_peer_requests\<close> terminates with an empty queue and counts every request it took from it as
  a block sent; what it put on the wire is one bare \<open>piece\<close> header per request.
\<close>
theorem service_peer_requests_drains:
  assumes "q = cs_peer_requests (cn_state c)" and "queue_inv q" and "q_entry_size q = 12" and "sk_room (cn_sock c) = None"
  shows "\<exists>c'. service_peer_requests c = Inr c' \<and> queue_entries (cs_peer_requests (cn_state c')) = [] \<and>
    cs_blocks_sent (cn_state c') = cs_blocks_sent (cn_state c) + of_nat (length (queue_entries q)) \<and>
    sk_out (cn_sock c') = sk_out (cn_sock c) @ concat (replicate (length (queue_entries q)) (be32 16393 @ [7]))"
proof -
  have "wr.open_end (cn_sock c)" using assms(4) by (simp add: wr.open_end_def)
  then show ?thesis
    using serve_loop_ok [of c "map (heap_junk (cn_heap c)) [0..<12]" "Suc (q_size q)"] assms length_queue_entries [of q]
    by (auto simp: service_peer_requests_def)
qed

lemma sample_queue_inv: "queue_inv sample_queue" "queue_entries sample_queue = []"
  by (simp_all add: sample_queue_def queue_inv_def queue_at_def head_slot_def tail_slot_def queue_entries_def)

theorem service_peer_requests_drains_witness:
  "\<exists>c'. service_peer_requests (sample_conn [PIECE_STATE_HAVE] [0x80]) = Inr c' \<and>
    queue_entries (cs_peer_requests (cn_state c')) = [] \<and>
    cs_blocks_sent (cn_state c') = cs_blocks_sent (cn_state (sample_conn [PIECE_STATE_HAVE] [0x80])) +
      of_nat (length (queue_entries sample_queue)) \<and>
    sk_out (cn_sock c') = sk_out (cn_sock (sample_conn [PIECE_STATE_HAVE] [0x80])) @
      concat (replicate (length (queue_entries sample_queue)) (be32 16393 @ [7]))"
  by (rule service_peer_requests_drains) (simp_all add: sample_queue_inv, simp add: sample_queue_def)

section \<open>Interest\<close>

lemma show_interested_ok:
  assumes "wr.open_end (cn_sock c)"
  obtains sk' where "show_interested c =
      Inr (upd_state (\<lambda>s. s\<lparr>cs_local := (cs_local s)\<lparr>ps_interested := True\<rparr>\<rparr>) (c\<lparr>cn_sock := sk'\<rparr>))"
    "sk_out sk' = sk_out (cn_sock c) @ msg_bytes (cn_torrent c) Interested" "wr.open_end sk'" "in_part sk' = in_part (cn_sock c)"
proof -
  have w: "wire_msg (cn_torrent c) Interested" by (simp add: wire_msg_def)
  obtain sk' where "peer_msg_send (cn_sock c) Interested (cn_torrent c) = Inr (0, sk')"
    "sk_out sk' = sk_out (cn_sock c) @ msg_bytes (cn_torrent c) Interested" "wr.open_end sk'" "in_part sk' = in_part (cn_sock c)"
    by (rule peer_msg_send_ok [OF w assms])
  then show thesis using that [of sk'] by (simp add: show_interested_def conn_send_def)
qed

lemma show_interested_state:
  "show_interested c = Inr c' \<Longrightarrow> cs_peer_have (cn_state c') = cs_peer_have (cn_state c)"
  by (auto simp: show_interested_def conn_send_def c_bind_eq_Inr split: if_splits)

text \<open>
  The piece index of a \<open>have\<close> message is used unchecked: any index behind the bitfield makes
  \<open>process_msg\<close> access memory out of bounds (it never returns normally).
\<close>
theorem process_have_unchecked:
  assumes "8 * length (cs_peer_have (cn_state c)) \<le> unat x"
  shows "\<exists>e. process_msg env c (Have x) = Inl e"
proof -
  let ?pre = "if \<not> ps_interested (cs_local (cn_state c))
             then c_bind (BITFIELD_ISSET (unat x) (cs_local_have (cn_state c))) (\<lambda>b. if b then show_interested c else Inr c)
             else Inr c"
  have same: "cs_peer_have (cn_state c1) = cs_peer_have (cn_state c)" if "?pre = Inr c1" for c1
    using that show_interested_state [of c c1] by (auto simp: c_bind_eq_Inr split: if_splits)
  show ?thesis
  proof (cases ?pre)
    case (Inl e)
    then show ?thesis unfolding process_msg_def process_have_def by simp
  next
    case (Inr c1)
    then show ?thesis
      using bf.set_out [of "cs_peer_have (cn_state c)" "unat x"] same [OF Inr] assms
      unfolding process_msg_def process_have_def by simp
  qed
qed

theorem process_have_unchecked_witness:
  "\<exists>e. process_msg (sample_env False) (sample_conn [PIECE_STATE_HAVE] [0]) (Have 8) = Inl e"
  by (rule process_have_unchecked) simp

text \<open>
  A \<open>have\<close> message in range sets the peer's bit; while we are not interested, interest is shown
  exactly when we already have the piece ourselves (the test is the wrong way round: a piece we lack
  raises no interest).
\<close>
theorem process_have_interest:
  assumes "unat x < 8 * length (cs_peer_have (cn_state c))" and "unat x < 8 * length (cs_local_have (cn_state c))"
    and "sk_room (cn_sock c) = None" and "\<not> ps_interested (cs_local (cn_state c))"
  shows "\<exists>c'. process_msg env c (Have x) = Inr c' \<and>
    bf_ones (cs_peer_have (cn_state c')) = insert (unat x) (bf_ones (cs_peer_have (cn_state c))) \<and>
    ps_interested (cs_local (cn_state c')) = (unat x \<in> bf_ones (cs_local_have (cn_state c))) \<and>
    sk_out (cn_sock c') = sk_out (cn_sock c) @
      (if unat x \<in> bf_ones (cs_local_have (cn_state c)) then msg_bytes (cn_torrent c) Interested else [])"
proof -
  obtain b where b: "BITFIELD_SET (unat x) (cs_peer_have (cn_state c)) = Inr b"
    using bf.set_in [OF assms(1)] by blast
  note ones = bf.ones_set [OF b]
  have t: "BITFIELD_ISSET (unat x) (cs_local_have (cn_state c)) = Inr (unat x \<in> bf_ones (cs_local_have (cn_state c)))"
    by (rule bf.isset_iff_ones [OF assms(2)])
  have "wr.open_end (cn_sock c)" using assms(3) by (simp add: wr.open_end_def)
  then obtain sk' where si: "show_interested c =
      Inr (upd_state (\<lambda>s. s\<lparr>cs_local := (cs_local s)\<lparr>ps_interested := True\<rparr>\<rparr>) (c\<lparr>cn_sock := sk'\<rparr>))"
    "sk_out sk' = sk_out (cn_sock c) @ msg_bytes (cn_torrent c) Interested"
    by (rule show_interested_ok)
  show ?thesis
    using t b ones si assms(4)
    by (cases "unat x \<in> bf_ones (cs_local_have (cn_state c))") (simp_all add: process_msg_def process_have_def)
qed

theorem process_have_interest_witness:
  "let c = upd_state (\<lambda>s. s\<lparr>cs_local := (cs_local s)\<lparr>ps_interested := False\<rparr>, cs_local_have := [0x80]\<rparr>)
             (sample_conn [PIECE_STATE_HAVE] [0])
   in \<exists>c'. process_msg (sample_env False) c (Have 0) = Inr c' \<and>
    bf_ones (cs_peer_have (cn_state c')) = insert 0 (bf_ones [0]) \<and>
    ps_interested (cs_local (cn_state c')) \<and> sk_out (cn_sock c') = msg_bytes (cn_torrent c) Interested"
  unfolding Let_def
proof -
  have "0 \<in> bf_ones [0x80 :: byte]" by (simp add: bf_ones_bits bit_simps)
  then show "\<exists>c'. process_msg (sample_env False)
      (upd_state (\<lambda>s. s\<lparr>cs_local := (cs_local s)\<lparr>ps_interested := False\<rparr>, cs_local_have := [0x80]\<rparr>)
        (sample_conn [PIECE_STATE_HAVE] [0])) (Have 0) = Inr c' \<and>
    bf_ones (cs_peer_have (cn_state c')) = insert 0 (bf_ones [0]) \<and>
    ps_interested (cs_local (cn_state c')) \<and> sk_out (cn_sock c') =
      msg_bytes (cn_torrent (upd_state (\<lambda>s. s\<lparr>cs_local := (cs_local s)\<lparr>ps_interested := False\<rparr>, cs_local_have := [0x80]\<rparr>)
        (sample_conn [PIECE_STATE_HAVE] [0]))) Interested"
    using process_have_interest [of 0 "upd_state (\<lambda>s. s\<lparr>cs_local := (cs_local s)\<lparr>ps_interested := False\<rparr>, cs_local_have := [0x80]\<rparr>)
      (sample_conn [PIECE_STATE_HAVE] [0])" "sample_env False"]
    by (simp add: plain_sock_def)
qed

lemma wanted_loop_ok:
  "\<forall>i\<in>set is. i < length states \<and> i < 8 * length bf \<Longrightarrow>
   wanted_loop states bf is = Inr (\<exists>i\<in>set is. states ! i \<noteq> PIECE_STATE_HAVE \<and> i \<in> bf_ones bf)"
  by (induction "is") (auto simp: bf.isset_iff_ones)

lemma process_bitfield_ok:
  assumes "n = info_num_pieces (mi_info (cn_torrent c))" and "cs_bitlen (cn_state c) = n"
    and "length (sh_piece_states (cn_sh c)) = n" and "length (cs_peer_have (cn_state c)) = BITFIELD_NUM_BYTES n"
    and "bs_size str = BITFIELD_NUM_BYTES n" and "length (bs_str str) = Suc (bs_size str)" and "sk_room (cn_sock c) = None"
    and "bits = take (BITFIELD_NUM_BYTES n) (bs_str str)"
    and "wants = (\<exists>i<n. sh_piece_states (cn_sh c) ! i \<noteq> PIECE_STATE_HAVE \<and> i \<in> bf_ones bits)"
  obtains sk' where "process_msg env c (Bitfield (Some str)) =
      Inr (upd_state (\<lambda>s. s\<lparr>cs_peer_have := bits, cs_local := (cs_local s)\<lparr>ps_interested := wants \<or> ps_interested (cs_local s)\<rparr>\<rparr>)
        (c\<lparr>cn_sock := sk'\<rparr>))"
    "sk_out sk' = sk_out (cn_sock c) @ (if wants then msg_bytes (cn_torrent c) Interested else [])"
    "wr.open_end sk'" "in_part sk' = in_part (cn_sock c)"
proof -
  let ?c1 = "upd_state (\<lambda>s. s\<lparr>cs_peer_have := bits\<rparr>) c"
  have len: "length bits = BITFIELD_NUM_BYTES n" using assms(5,6,8) by simp
  have rd: "mem_read (bs_str str) 0 (BITFIELD_NUM_BYTES n) = Inr bits" using assms(5,6,8) by (simp add: mem_read_def)
  have wr: "mem_write (cs_peer_have (cn_state c)) 0 bits = Inr bits" using assms(4) len by (simp add: mem_write_def)
  have wl: "wanted_loop (sh_piece_states (cn_sh c)) bits [0..<n] = Inr wants"
    using wanted_loop_ok [of "[0..<n]" "sh_piece_states (cn_sh c)" bits] assms(3,9) len num_bytes_index [of _ n]
    by (auto simp: Bex_def)
  have o: "wr.open_end (cn_sock ?c1)" using assms(7) by (simp add: wr.open_end_def)
  then obtain sk' where si: "show_interested ?c1 =
      Inr (upd_state (\<lambda>s. s\<lparr>cs_local := (cs_local s)\<lparr>ps_interested := True\<rparr>\<rparr>) (?c1\<lparr>cn_sock := sk'\<rparr>))"
    "sk_out sk' = sk_out (cn_sock ?c1) @ msg_bytes (cn_torrent ?c1) Interested" "wr.open_end sk'" "in_part sk' = in_part (cn_sock ?c1)"
    by (rule show_interested_ok)
  show thesis
    using rd wr wl si o assms(1,2,5) that [of "if wants then sk' else cn_sock c"]
    by (cases wants) (simp_all add: process_msg_def process_bitfield_def Let_def upd_state_def)
qed

text \<open>
  C36. A \<open>bitfield\<close> message of the right size replaces what we know of the peer, and interest is announced
  exactly when the peer has a piece that we lack.
\<close>
theorem process_bitfield_interest:
  assumes "n = info_num_pieces (mi_info (cn_torrent c))" and "cs_bitlen (cn_state c) = n"
    and "length (sh_piece_states (cn_sh c)) = n" and "length (cs_peer_have (cn_state c)) = BITFIELD_NUM_BYTES n"
    and "bs_size str = BITFIELD_NUM_BYTES n" and "length (bs_str str) = Suc (bs_size str)" and "sk_room (cn_sock c) = None"
    and "wants = (\<exists>i<n. sh_piece_states (cn_sh c) ! i \<noteq> PIECE_STATE_HAVE \<and> i \<in> bf_ones (take (BITFIELD_NUM_BYTES n) (bs_str str)))"
  shows "\<exists>c'. process_msg env c (Bitfield (Some str)) = Inr c' \<and>
    cs_peer_have (cn_state c') = take (BITFIELD_NUM_BYTES n) (bs_str str) \<and>
    ps_interested (cs_local (cn_state c')) = (wants \<or> ps_interested (cs_local (cn_state c))) \<and>
    sk_out (cn_sock c') = sk_out (cn_sock c) @ (if wants then msg_bytes (cn_torrent c) Interested else [])"
  by (rule process_bitfield_ok [OF assms(1-7) refl assms(8), of env]) simp

theorem process_bitfield_interest_witness:
  "\<exists>c'. process_msg (sample_env False) (sample_conn [PIECE_STATE_NOT_REQUESTED] [0]) (Bitfield (Some \<lparr>bs_size = 1, bs_str = [0x80, 0]\<rparr>)) = Inr c' \<and>
    cs_peer_have (cn_state c') = [0x80] \<and> ps_interested (cs_local (cn_state c')) \<and>
    sk_out (cn_sock c') = msg_bytes (sample_swarm [PIECE_STATE_NOT_REQUESTED]) Interested"
proof -
  have "0 \<in> bf_ones [0x80 :: byte]" by (simp add: bf_ones_bits bit_simps)
  then show ?thesis
    using process_bitfield_interest [of 1 "sample_conn [PIECE_STATE_NOT_REQUESTED] [0]"
        "\<lparr>bs_size = 1, bs_str = [0x80, 0]\<rparr>" True "sample_env False"]
    by (simp add: BITFIELD_NUM_BYTES_def CHAR_BIT_def, simp add: sample_conn_def plain_sock_def)
qed

end
