(* ===== verification/Swarm_State.thy ===== *)
theory Swarm_State
  imports Connection_Messages
begin

text \<open>
  The state the connection threads share (\<open>torrent->sh\<close>). Every access to it is a section under
  \<open>sh_lock\<close>; \<open>sh_step\<close> has one rule per section, so a run of \<open>sh_step\<close> is any interleaving of any number
  of threads. This system is a specification: \<open>Swarm_System\<close> shows that the code's functions change the shared
  state by such steps only, and \<open>Swarm_Reach\<close> lifts the invariant to the system of all threads.
\<close>

section \<open>The critical sections\<close>

datatype sh_event = Ask nat | Finish nat | Reset nat | Seed

inductive sh_step :: "sh_t \<Rightarrow> sh_event \<Rightarrow> sh_t \<Rightarrow> bool" where
  ask: "i < length (sh_piece_states s) \<Longrightarrow> sh_piece_states s ! i \<noteq> PIECE_STATE_HAVE \<Longrightarrow>
     sh_step s (Ask i) (s\<lparr>sh_piece_states := (sh_piece_states s)[i := PIECE_STATE_REQUESTED]\<rparr>)"
| finish: "i < length (sh_piece_states s) \<Longrightarrow> sh_piece_states s ! i \<noteq> PIECE_STATE_HAVE \<Longrightarrow>
     left = size_sub (sh_pieces_left s) 1 \<Longrightarrow> left < length (sh_piece_states s) \<Longrightarrow>
     sh_step s (Finish i) (s\<lparr>sh_piece_states := (sh_piece_states s)[i := PIECE_STATE_HAVE], sh_pieces_left := left,
                             sh_completed := sh_completed s \<or> left = 0\<rparr>)"
| reset: "i < length (sh_piece_states s) \<Longrightarrow>
     sh_step s (Reset i) (s\<lparr>sh_piece_states := (sh_piece_states s)[i := PIECE_STATE_NOT_REQUESTED]\<rparr>)"
| seed: "sh_completed s \<Longrightarrow> sh_step s Seed (s\<lparr>sh_completed := True, sh_state := TORRENT_STATE_SEEDING\<rparr>)"

inductive_cases sh_stepE: "sh_step s e s'"

inductive sh_run :: "sh_t \<Rightarrow> sh_event list \<Rightarrow> sh_t \<Rightarrow> bool" where
  stop: "sh_run s [] s"
| more: "sh_step s e s1 \<Longrightarrow> sh_run s1 es s2 \<Longrightarrow> sh_run s (e # es) s2"

lemma sh_run_append: "sh_run s es s1 \<Longrightarrow> sh_run s1 fs s2 \<Longrightarrow> sh_run s (es @ fs) s2"
  by (induction rule: sh_run.induct) (auto intro: sh_run.intros)

lemma sh_run_step: "sh_step s e s1 \<Longrightarrow> sh_run s [e] s1"
  by (auto intro: sh_run.intros)

section \<open>What holds in every interleaving\<close>

definition missing :: "sh_t \<Rightarrow> nat" where
  "missing s = card {i. i < length (sh_piece_states s) \<and> sh_piece_states s ! i \<noteq> PIECE_STATE_HAVE}"

definition sh_inv :: "nat \<Rightarrow> sh_t \<Rightarrow> bool" where
  "sh_inv n s \<longleftrightarrow> length (sh_piece_states s) = n \<and> sh_pieces_left s \<le> missing s \<and>
     (sh_completed s \<longrightarrow> sh_pieces_left s = 0) \<and> (sh_state s = TORRENT_STATE_SEEDING \<longrightarrow> sh_completed s)"

lemma missing_le: "missing s \<le> length (sh_piece_states s)"
proof -
  have "card {i. i < length (sh_piece_states s) \<and> sh_piece_states s ! i \<noteq> PIECE_STATE_HAVE} \<le> card {0..<length (sh_piece_states s)}"
    by (rule card_mono) auto
  then show ?thesis by (simp add: missing_def)
qed

lemma missing_update:
  assumes "i < length (sh_piece_states s)" and "v \<noteq> PIECE_STATE_HAVE"
  shows "missing s \<le> missing (s\<lparr>sh_piece_states := (sh_piece_states s)[i := v]\<rparr>)"
    and "sh_piece_states s ! i \<noteq> PIECE_STATE_HAVE \<Longrightarrow> missing (s\<lparr>sh_piece_states := (sh_piece_states s)[i := v]\<rparr>) = missing s"
proof -
  let ?ps = "sh_piece_states s"
  let ?A = "{j. j < length ?ps \<and> ?ps ! j \<noteq> PIECE_STATE_HAVE}"
  have eq: "{j. j < length (?ps[i := v]) \<and> ?ps[i := v] ! j \<noteq> PIECE_STATE_HAVE} = insert i ?A"
    using assms by (auto simp: nth_list_update)
  have fin: "finite ?A" by simp
  then show "missing s \<le> missing (s\<lparr>sh_piece_states := ?ps[i := v]\<rparr>)"
    using eq card_mono [of "insert i ?A" ?A] by (simp add: missing_def subset_insertI)
  assume "?ps ! i \<noteq> PIECE_STATE_HAVE"
  then have "insert i ?A = ?A" using assms(1) by auto
  then show "missing (s\<lparr>sh_piece_states := ?ps[i := v]\<rparr>) = missing s" using eq by (simp add: missing_def)
qed

lemma missing_have:
  assumes "i < length (sh_piece_states s)" and "sh_piece_states s ! i \<noteq> PIECE_STATE_HAVE"
  shows "0 < missing s" and "missing (s\<lparr>sh_piece_states := (sh_piece_states s)[i := PIECE_STATE_HAVE]\<rparr>) = missing s - 1"
proof -
  let ?ps = "sh_piece_states s"
  let ?A = "{j. j < length ?ps \<and> ?ps ! j \<noteq> PIECE_STATE_HAVE}"
  have i: "i \<in> ?A" and fin: "finite ?A" using assms by simp_all
  then show "0 < missing s" unfolding missing_def card_gt_0_iff by blast
  have eq: "{j. j < length (?ps[i := PIECE_STATE_HAVE]) \<and> ?ps[i := PIECE_STATE_HAVE] ! j \<noteq> PIECE_STATE_HAVE} = ?A - {i}"
    using assms by (auto simp: nth_list_update)
  then show "missing (s\<lparr>sh_piece_states := ?ps[i := PIECE_STATE_HAVE]\<rparr>) = missing s - 1"
    using card_Diff_singleton [OF i] by (simp add: missing_def)
qed

lemma missing_frame [simp]:
  "missing (s\<lparr>sh_pieces_left := a\<rparr>) = missing s" "missing (s\<lparr>sh_completed := b\<rparr>) = missing s"
  "missing (s\<lparr>sh_state := d\<rparr>) = missing s"
  by (simp_all add: missing_def)

text \<open>The counter does not wrap in a step: that is what the assertion in the code checks.\<close>

lemma size_sub_one:
  assumes "size_sub a 1 < n" and "n < 2 ^ 64" and "a < 2 ^ 64"
  shows "a = 0 \<and> n = 0 \<or> 0 < a \<and> size_sub a 1 = a - 1 \<or> a = 0 \<and> 2 ^ 64 - 1 < n"
proof (cases "a = 0")
  case True
  then have "size_sub a 1 = 2 ^ 64 - 1" by (simp add: size_sub_def)
  then show ?thesis using assms True by simp
next
  case False
  then show ?thesis using assms size_sub_exact [of 1 a] by simp
qed

lemma size_sub_pred:
  assumes "size_sub a 1 < n" and "n < 2 ^ 32" and "a < 2 ^ 64"
  shows "0 < a" and "size_sub a 1 = a - 1"
  using size_sub_one [OF assms(1) _ assms(3)] assms by auto

lemma sh_inv_step:
  assumes "sh_step s e s'" and "sh_inv n s" and "n < 2 ^ 32"
  shows "sh_inv n s'"
  using assms(1)
proof (cases rule: sh_step.cases)
  case (ask i)
  then show ?thesis using assms(2) missing_update(2) [of i s PIECE_STATE_REQUESTED] by (simp add: sh_inv_def)
next
  case (finish i left)
  have "sh_pieces_left s < 2 ^ 64" using assms(2,3) missing_le [of s] by (simp add: sh_inv_def)
  note pred = size_sub_pred [OF _ assms(3) this]
  show ?thesis using finish assms(2) missing_have [of i s] pred by (auto simp: sh_inv_def)
next
  case (reset i)
  then show ?thesis
    using assms(2) missing_update(1) [of i s PIECE_STATE_NOT_REQUESTED] by (auto simp: sh_inv_def)
next
  case seed
  then show ?thesis using assms(2) by (simp add: sh_inv_def)
qed

lemma sh_inv_run: "sh_run s es s' \<Longrightarrow> sh_inv n s \<Longrightarrow> n < 2 ^ 32 \<Longrightarrow> sh_inv n s'"
  by (induction rule: sh_run.induct) (auto dest: sh_inv_step)

text \<open>The state after \<open>parse_file\<close>.\<close>

definition sh_fresh :: "nat \<Rightarrow> sh_t \<Rightarrow> bool" where
  "sh_fresh n s \<longleftrightarrow> sh_piece_states s = replicate n PIECE_STATE_NOT_REQUESTED \<and> sh_pieces_left s = n \<and>
     sh_state s = TORRENT_STATE_LEECHING \<and> \<not> sh_completed s"

lemma sh_fresh_missing: "sh_fresh n s \<Longrightarrow> missing s = n"
proof -
  assume "sh_fresh n s"
  then have "{i. i < length (sh_piece_states s) \<and> sh_piece_states s ! i \<noteq> PIECE_STATE_HAVE} = {0..<n}"
    by (auto simp: sh_fresh_def)
  then show ?thesis by (simp add: missing_def)
qed

lemma sh_fresh_inv: "sh_fresh n s \<Longrightarrow> sh_inv n s"
  using sh_fresh_missing [of n s] by (auto simp: sh_inv_def sh_fresh_def)

text \<open>
  In every interleaving the shared state keeps its shape, \<open>pieces_left\<close> never exceeds the number of
  missing pieces, the torrent is completed only when the counter has reached zero, and it seeds only
  when it is completed.
\<close>
theorem every_run_keeps_invariant:
  assumes "sh_fresh n s" and "n < 2 ^ 32" and "sh_run s es s'"
  shows "length (sh_piece_states s') = n \<and> sh_pieces_left s' \<le> missing s' \<and>
    (sh_completed s' \<longrightarrow> sh_pieces_left s' = 0) \<and> (sh_state s' = TORRENT_STATE_SEEDING \<longrightarrow> sh_completed s')"
  using sh_inv_run [OF assms(3) sh_fresh_inv [OF assms(1)] assms(2)] by (simp add: sh_inv_def)

theorem every_run_keeps_invariant_witness:
  "let s = mi_sh (sample_swarm [PIECE_STATE_NOT_REQUESTED]);
       s' = s\<lparr>sh_piece_states := (sh_piece_states s)[0 := PIECE_STATE_REQUESTED]\<rparr>
   in length (sh_piece_states s') = 1 \<and> sh_pieces_left s' \<le> missing s' \<and>
    (sh_completed s' \<longrightarrow> sh_pieces_left s' = 0) \<and> (sh_state s' = TORRENT_STATE_SEEDING \<longrightarrow> sh_completed s')"
  unfolding Let_def
proof (rule every_run_keeps_invariant [where es = "[Ask 0]"])
  let ?s = "mi_sh (sample_swarm [PIECE_STATE_NOT_REQUESTED])"
  show "sh_fresh 1 ?s" by (simp add: sh_fresh_def, simp add: sample_swarm_def sample_torrent_def)
  show "sh_run ?s [Ask 0] (?s\<lparr>sh_piece_states := (sh_piece_states ?s)[0 := PIECE_STATE_REQUESTED]\<rparr>)"
    by (intro sh_run_step sh_step.ask) simp_all
qed simp

text \<open>
  Resetting a complete piece (a late or repeated block whose piece no longer verifies) does not give
  the counter back. Once the torrent was completed, finishing that piece again wraps the counter and
  fails the assertion: the client aborts.
\<close>
theorem reset_then_finish_aborts:
  assumes "sh_inv n s" and "n < 2 ^ 32" and "sh_completed s" and "i < n" and "sh_step s (Reset i) s'"
  shows "finish_piece n i s' = Inl Assert_Failed"
proof -
  have s': "s' = s\<lparr>sh_piece_states := (sh_piece_states s)[i := PIECE_STATE_NOT_REQUESTED]\<rparr>"
    using assms(5) by (auto elim: sh_stepE)
  have "size_sub 0 1 = 2 ^ 64 - 1" by (simp add: size_sub_def)
  then show ?thesis
    using assms(1-4) s' by (simp add: finish_piece_def sh_inv_def Let_def)
qed

theorem reset_then_finish_aborts_witness:
  "let s = (mi_sh (sample_swarm [PIECE_STATE_HAVE]))\<lparr>sh_pieces_left := 0, sh_completed := True\<rparr>
   in finish_piece 1 0 (s\<lparr>sh_piece_states := (sh_piece_states s)[0 := PIECE_STATE_NOT_REQUESTED]\<rparr>) = Inl Assert_Failed"
  unfolding Let_def
proof (rule reset_then_finish_aborts)
  let ?s = "(mi_sh (sample_swarm [PIECE_STATE_HAVE]))\<lparr>sh_pieces_left := 0, sh_completed := True\<rparr>"
  show "sh_inv 1 ?s" by (simp add: sh_inv_def)
  show "sh_step ?s (Reset 0) (?s\<lparr>sh_piece_states := (sh_piece_states ?s)[0 := PIECE_STATE_NOT_REQUESTED]\<rparr>)"
    by (rule sh_step.reset) simp
qed simp_all

end
