(* ===== verification/Connection_Start.thy ===== *)
theory Connection_Start
  imports Connection_Messages
begin

text \<open>
  The beginning of a connection thread: both handshakes, the message queue, the fresh state, the bitfield
  and the first \<open>unchoke\<close>.
\<close>

lemma handshake_send_ok:
  assumes "length info_hash = 20" and "length peer_id = 20" and "wr.open_end sk"
  obtains sk' where "peer_send_handshake junk peer_id sk info_hash = Inr (0, sk')"
    "sk_out sk' = sk_out sk @ [19] @ pstr @ replicate 8 0 @ info_hash @ peer_id" "wr.open_end sk'" "in_part sk' = in_part sk"
proof -
  let ?bs = "[19] @ pstr @ replicate 8 0 @ info_hash @ peer_id"
  have "handshake_buf (map junk [0..<HANDSHAKE_LEN]) peer_id info_hash = Inr ?bs"
    by (rule handshake_buf_ok) (simp_all add: assms)
  moreover obtain sk' where "send_buff sk ?bs = (0, sk')" "sk_out sk' = sk_out sk @ ?bs" "wr.open_end sk'" "in_part sk' = in_part sk"
    by (rule wr.wr_open [OF assms(3), of ?bs])
  ultimately show thesis using that by (simp add: peer_send_handshake_def)
qed

lemma recv_handshake_frame:
  assumes "peer_recv_handshake sk info_hash = Inr (r, sk')"
  shows "out_part sk' = out_part sk"
proof -
  obtain rc buff sk1 where p: "peer_recv sk HANDSHAKE_LEN = (rc, buff, sk1)" by (metis prod_cases3)
  have "sk' = sk1" using assms p by (auto simp: peer_recv_handshake_def c_bind_eq_Inr split: if_splits)
  then show ?thesis using rd.rd_frame [OF p] by simp
qed

lemma handshake_ok:
  assumes "length info_hash = 20" and "length peer_id = 20" and "wr.open_end sk"
    and "sk_in sk = (19 # pstr) @ reserved @ info_hash @ pid @ rest" and "length reserved = 8" and "length pid = 20"
  obtains sk' where "handshake junk peer_id sk info_hash = Inr (Some pid, sk')" "sk_in sk' = rest"
    "sk_out sk' = sk_out sk @ [19] @ pstr @ replicate 8 0 @ info_hash @ peer_id" "wr.open_end sk'"
proof -
  obtain sk1 where s: "peer_send_handshake junk peer_id sk info_hash = Inr (0, sk1)"
    "sk_out sk1 = sk_out sk @ [19] @ pstr @ replicate 8 0 @ info_hash @ peer_id" "wr.open_end sk1" "in_part sk1 = in_part sk"
    by (rule handshake_send_ok [OF assms(1-3)])
  have i: "sk_in sk1 = (19 # pstr) @ reserved @ info_hash @ pid @ rest" using s(4) assms(4) by (simp add: in_part_def)
  obtain sk' where r: "sk_in sk' = rest" "peer_recv_handshake sk1 info_hash = Inr (Some pid, sk')"
    using handshake_decision [OF assms(1), of sk1] i assms(1,5,6) by (auto simp: c_string_def)
  have "sk_out sk' = sk_out sk1" "sk_room sk' = sk_room sk1"
    using recv_handshake_frame [OF r(2)] by (simp_all add: out_part_def)
  then show thesis using that [of sk'] s r by (simp add: handshake_def wr.open_end_def)
qed

text \<open>A fresh connection: choked and not interested on both sides, nothing requested, nothing queued.\<close>

definition fresh_state :: "nat \<Rightarrow> byte list \<Rightarrow> conn_state_t \<Rightarrow> bool" where
  "fresh_state n bits st \<longleftrightarrow>
     cs_local st = \<lparr>ps_choked = True, ps_interested = False\<rparr> \<and> cs_remote st = \<lparr>ps_choked = True, ps_interested = False\<rparr> \<and>
     cs_local_have st = bits \<and> cs_bitlen st = n \<and> length (cs_peer_have st) = BITFIELD_NUM_BYTES n \<and>
     da_values (cs_local_requests st) = [] \<and> queue_inv (cs_peer_requests st) \<and> queue_entries (cs_peer_requests st) = [] \<and>
     q_entry_size (cs_peer_requests st) = 12 \<and> q_capacity (cs_peer_requests st) = 16"

lemma conn_state_init_ok:
  assumes "heap_ok h" and "n = info_num_pieces (mi_info torrent)" and "length (sh_piece_states (mi_sh torrent)) = n"
    and "BITFIELD_NUM_BYTES n < 2 ^ 16"
  obtains st bits where "conn_state_init h torrent = Inr (Some st, h)" "fresh_state n bits st"
    "length bits = BITFIELD_NUM_BYTES n" "bf_ones bits = {i. i < n \<and> sh_piece_states (mi_sh torrent) ! i = PIECE_STATE_HAVE}"
proof -
  have n: "n < 2 ^ 63" using num_bytes_index [of "8 * 2 ^ 16" n] assms(4) by (cases "8 * 2 ^ 16 < n") auto
  obtain bits where b: "make_bitfield h torrent = Inr (Some bits, h)" "length bits = BITFIELD_NUM_BYTES n"
    "bf_ones bits = {i. i < n \<and> sh_piece_states (mi_sh torrent) ! i = PIECE_STATE_HAVE}"
    using make_bitfield_ok [OF assms(1-3) n] by blast
  obtain q where q: "queue_init h 12 16 = (Some q, h)" "queue_inv q" "queue_entries q = []" "q_entry_size q = 12" "q_capacity q = 16"
    using queue_init_inv [of h 12 16] assms(1) by auto
  have u: "unat (of_nat (BITFIELD_NUM_BYTES n) :: u16) = BITFIELD_NUM_BYTES n" using assms(4) by (simp add: unat_of_nat)
  show thesis
    using that b q u assms(1,2) by (simp add: conn_state_init_def malloc_def fresh_state_def Let_def)
qed


lemma queue_name_loop_room:
  "length out + 2 * length bs < len \<Longrightarrow> queue_name_loop len out bs = (False, out @ concat (map hex_byte bs))"
proof (induction bs arbitrary: out)
  case (Cons b bs)
  have "length (out @ hex_byte b) = length out + 2" by (simp add: hex_byte_def)
  then show ?case using Cons.prems Cons.IH [of "out @ hex_byte b"] by simp
qed simp

lemma queue_name_ok:
  "length tmem = 8 \<Longrightarrow> peer_connection_queue_name tmem 64 = Inr (''/'' @ concat (map hex_byte tmem) @ ''_queue'')"
  using queue_name_loop_room [of "''/''" tmem 64] by (simp add: peer_connection_queue_name_def)

lemma peer_queue_open_ok:
  assumes "length (ev_tmem env (cn_self c)) = 8" and "\<forall>name. ev_mq_open env name"
  obtains q where "peer_queue_open env c = Inr (0, c\<lparr>cn_queues := q\<rparr>)"
proof -
  let ?name = "''/'' @ concat (map hex_byte (ev_tmem env (cn_self c))) @ ''_queue''"
  have n: "peer_connection_queue_name (ev_tmem env (cn_self c)) 64 = Inr ?name" by (rule queue_name_ok [OF assms(1)])
  show thesis
  proof (cases "cn_queues c ?name")
    case None
    then show thesis using n that assms(2) by (auto simp: peer_queue_open_def)
  next
    case (Some q)
    then show thesis using n that [of "cn_queues c"] assms(2) by (simp add: peer_queue_open_def)
  qed
qed

lemma unchoke_ok:
  assumes "wr.open_end (cn_sock c)"
  obtains sk' where "unchoke c =
      Inr (upd_state (\<lambda>s. s\<lparr>cs_remote := (cs_remote s)\<lparr>ps_choked := False\<rparr>\<rparr>) (c\<lparr>cn_sock := sk'\<rparr>))"
    "sk_out sk' = sk_out (cn_sock c) @ msg_bytes (cn_torrent c) Unchoke" "in_part sk' = in_part (cn_sock c)"
proof -
  have w: "wire_msg (cn_torrent c) Unchoke" by (simp add: wire_msg_def)
  show thesis by (rule peer_msg_send_ok [OF w assms]) (use that in \<open>simp add: unchoke_def conn_send_def\<close>)
qed

lemma peer_connection_start_ok:
  assumes "heap_ok (cn_heap c)" and "length (mi_info_hash (cn_torrent c)) = 20" and "length peer_id = 20"
    and "sk_room (cn_sock c) = None"
    and "sk_in (cn_sock c) = (19 # pstr) @ reserved @ mi_info_hash (cn_torrent c) @ pid @ rest" and "length reserved = 8"
    and "length pid = 20" and "n = info_num_pieces (mi_info (cn_torrent c))"
    and "length (sh_piece_states (cn_sh c)) = n" and "BITFIELD_NUM_BYTES n < 2 ^ 16" and "length (ev_tmem env (cn_self c)) = 8"
    and "\<forall>name. ev_mq_open env name"
  shows "\<exists>c' st bits. peer_connection_start env peer_id now c = Inr (True, c') \<and>
    sk_in (cn_sock c') = rest \<and>
    sk_out (cn_sock c') = sk_out (cn_sock c) @ ([19] @ pstr @ replicate 8 0 @ mi_info_hash (cn_torrent c) @ peer_id) @
      msg_bytes (cn_torrent c) (Bitfield (Some \<lparr>bs_size = BITFIELD_NUM_BYTES n, bs_str = bits @ [0]\<rparr>)) @
      msg_bytes (cn_torrent c) Unchoke \<and>
    length bits = BITFIELD_NUM_BYTES n \<and> bf_ones bits = {i. i < n \<and> sh_piece_states (cn_sh c) ! i = PIECE_STATE_HAVE} \<and>
    fresh_state n bits st \<and> cn_state c' = st\<lparr>cs_remote := \<lparr>ps_choked = False, ps_interested = False\<rparr>\<rparr> \<and>
    cn_torrent c' = cn_torrent c \<and> cn_heap c' = cn_heap c \<and> cn_last_msg c' = now \<and> cn_last_sent c' = -1"
proof -
  let ?t = "cn_torrent c" and ?ih = "mi_info_hash (cn_torrent c)"
  have open_c: "wr.open_end (cn_sock c)" using assms(4) by (simp add: wr.open_end_def)
  obtain sk1 where h: "handshake (heap_junk (cn_heap c)) peer_id (cn_sock c) ?ih = Inr (Some pid, sk1)" "sk_in sk1 = rest"
    "sk_out sk1 = sk_out (cn_sock c) @ [19] @ pstr @ replicate 8 0 @ ?ih @ peer_id" "wr.open_end sk1"
    by (rule handshake_ok [OF assms(2,3) open_c assms(5-7)])
  obtain q where q: "peer_queue_open env (c\<lparr>cn_sock := sk1\<rparr>) = Inr (0, c\<lparr>cn_sock := sk1, cn_queues := q\<rparr>)"
    using peer_queue_open_ok [of env "c\<lparr>cn_sock := sk1\<rparr>"] assms(11,12) by auto
  obtain st bits where st: "conn_state_init (cn_heap c) ?t = Inr (Some st, cn_heap c)" "fresh_state n bits st"
    "length bits = BITFIELD_NUM_BYTES n" "bf_ones bits = {i. i < n \<and> sh_piece_states (cn_sh c) ! i = PIECE_STATE_HAVE}"
    by (rule conn_state_init_ok [OF assms(1,8,9,10)])
  let ?b = "\<lparr>bs_size = BITFIELD_NUM_BYTES n, bs_str = bits @ [0]\<rparr>"
  have b: "byte_str_new (cn_heap c) (BITFIELD_NUM_BYTES (cs_bitlen st)) (cs_local_have st) = Inr (Some ?b, cn_heap c)"
    using st(2,3) assms(1) by (simp add: byte_str_new_def fresh_state_def mem_read_def)
  have "wire_msg ?t (Bitfield (Some ?b))" using st(3) assms(8,10) by (simp add: wire_msg_def)
  then obtain sk2 where s2: "peer_msg_send sk1 (Bitfield (Some ?b)) ?t = Inr (0, sk2)"
    "sk_out sk2 = sk_out sk1 @ msg_bytes ?t (Bitfield (Some ?b))" "wr.open_end sk2" "in_part sk2 = in_part sk1"
    by (rule peer_msg_send_ok [OF _ h(4)])
  let ?c2 = "c\<lparr>cn_queues := q, cn_state := st, cn_sock := sk2\<rparr>"
  obtain sk3 where u: "unchoke ?c2 = Inr (upd_state (\<lambda>s. s\<lparr>cs_remote := (cs_remote s)\<lparr>ps_choked := False\<rparr>\<rparr>) (?c2\<lparr>cn_sock := sk3\<rparr>))"
    "sk_out sk3 = sk_out sk2 @ msg_bytes ?t Unchoke" "in_part sk3 = in_part sk2"
    using unchoke_ok [of ?c2] s2(3) by auto
  let ?c' = "(upd_state (\<lambda>s. s\<lparr>cs_remote := (cs_remote s)\<lparr>ps_choked := False\<rparr>\<rparr>) (?c2\<lparr>cn_sock := sk3\<rparr>))
    \<lparr>cn_last_msg := now, cn_last_sent := -1\<rparr>"
  have "peer_connection_start env peer_id now c = Inr (True, ?c')"
    using h q st(1) b s2(1) u(1) by (simp add: peer_connection_start_def conn_send_def)
  moreover have "sk_in sk3 = rest" using u(3) s2(4) h(2) by (simp add: in_part_def)
  ultimately show ?thesis
    using st u(2) s2(2) h(3) by (intro exI [of _ ?c'] exI [of _ st] exI [of _ bits]) (auto simp: upd_state_def fresh_state_def)
qed

text \<open>How a thread's start can end.\<close>

lemma start_cases:
  assumes "peer_connection_start env peer_id now c = Inr (r, c')"
  obtains (refused) sk' where "\<not> r" "c' = c\<lparr>cn_sock := sk'\<rparr>"
  | (no_queue) sk' where "\<not> r" "peer_queue_open env (c\<lparr>cn_sock := sk'\<rparr>) = Inr (-1, c')"
  | (no_state) sk' q c1 h1 where "\<not> r" "peer_queue_open env (c\<lparr>cn_sock := sk'\<rparr>) = Inr (q, c1)"
      "queue_cleanup env (c1\<lparr>cn_heap := h1\<rparr>) = Inr c'"
  | (unsent) sk' q c1 st h2 b rc c2 where "\<not> r" "peer_queue_open env (c\<lparr>cn_sock := sk'\<rparr>) = Inr (q, c1)"
      "conn_send (c1\<lparr>cn_state := st, cn_heap := h2\<rparr>) (Bitfield b) = Inr (rc, c2)" "queue_cleanup env c2 = Inr c'"
  | (running) sk' q c1 st h2 b rc c2 c3 where "r" "peer_queue_open env (c\<lparr>cn_sock := sk'\<rparr>) = Inr (q, c1)"
      "conn_send (c1\<lparr>cn_state := st, cn_heap := h2\<rparr>) (Bitfield b) = Inr (rc, c2)" "unchoke c2 = Inr c3"
      "c' = c3\<lparr>cn_last_msg := now, cn_last_sent := -1\<rparr>" "q \<noteq> -1"
  using assms by (auto simp: peer_connection_start_def c_bind_eq_Inr split: option.splits if_splits)

lemma queue_open_close:
  assumes "peer_queue_open env c = Inr (q, c1)" and "queue_cleanup env c2 = Inr c'" and "cn_self c2 = cn_self c"
    and "cn_queues c2 = cn_queues c1" and "peer_connection_queue_name (ev_tmem env (cn_self c)) 64 = Inr own" and "cn_queues c own = None"
  shows "cn_queues c' = cn_queues c"
  using assms by (auto simp: peer_queue_open_def queue_cleanup_def c_bind_eq_Inr split: if_splits option.splits)

lemma peer_queue_open_self: "peer_queue_open env c = Inr (q, c1) \<Longrightarrow> cn_self c1 = cn_self c"
  by (auto simp: peer_queue_open_def c_bind_eq_Inr split: if_splits option.splits)

lemma start_failure_queues:
  assumes "peer_connection_start env peer_id now c = Inr (False, c')"
    and "peer_connection_queue_name (ev_tmem env (cn_self c)) 64 = Inr own" and "cn_queues c own = None"
  shows "cn_queues c' = cn_queues c"
  using assms(1)
proof (cases rule: start_cases)
  case (no_queue sk')
  then show ?thesis by (auto simp: peer_queue_open_def c_bind_eq_Inr split: if_splits option.splits)
next
  case (no_state sk' q c1 h1)
  then show ?thesis using queue_open_close [OF no_state(2,3)] peer_queue_open_self [OF no_state(2)] assms(2,3) by simp
next
  case (unsent sk' q c1 st h2 b rc c2)
  then have "cn_self c2 = cn_self c1 \<and> cn_queues c2 = cn_queues c1" by (auto simp: conn_send_def c_bind_eq_Inr)
  then show ?thesis using queue_open_close [OF unsent(2,4)] peer_queue_open_self [OF unsent(2)] assms(2,3) by simp
qed simp_all

text \<open>
  C30. A thread that gives up before its main loop: whatever \<open>connect\<close> and \<open>select\<close> answer, the descriptors
  closed are exactly the socket it opened, once, and the name of a message queue it created is removed again.
\<close>
theorem thread_gives_up_cleanly:
  assumes "thread_socket os (-1) = Inr (fd, closed)"
    and "peer_connection_start env peer_id now c = Inr (False, c')"
    and "peer_connection_queue_name (ev_tmem env (cn_self c)) 64 = Inr own" and "cn_queues c own = None"
  shows "closed @ peer_connection_cleanup fd = (if co_socket os \<ge> 0 then [co_socket os] else []) \<and> cn_queues c' = cn_queues c"
  using assms(1) start_failure_queues [OF assms(2-4)]
  by (auto simp: thread_socket_def peer_connect_def peer_connection_cleanup_def c_bind_eq_Inr Let_def split: if_splits)

text \<open>A connection on which the peer's handshake has arrived.\<close>

definition greeted_conn :: conn_t where
  "greeted_conn = (sample_conn [PIECE_STATE_NOT_REQUESTED] [0])
     \<lparr>cn_sock := plain_sock ((19 # pstr) @ replicate 8 0 @ replicate 20 0 @ replicate 20 5 @ [])\<rparr>"

lemma greeted_conn_ok:
  "heap_ok (cn_heap greeted_conn)" "length (mi_info_hash (cn_torrent greeted_conn)) = 20" "length (replicate 20 (1 :: byte)) = 20"
  "sk_room (cn_sock greeted_conn) = None"
  "sk_in (cn_sock greeted_conn) = (19 # pstr) @ replicate 8 0 @ mi_info_hash (cn_torrent greeted_conn) @ replicate 20 5 @ []"
  "length (replicate 8 (0 :: byte)) = 8" "length (replicate 20 (5 :: byte)) = 20"
  "1 = info_num_pieces (mi_info (cn_torrent greeted_conn))" "length (sh_piece_states (cn_sh greeted_conn)) = 1"
  "BITFIELD_NUM_BYTES 1 < 2 ^ 16" "length (ev_tmem (sample_env False) (cn_self greeted_conn)) = 8"
  "\<forall>name. ev_mq_open (sample_env False) name"
proof -
  have "mi_info_hash (sample_swarm [PIECE_STATE_NOT_REQUESTED]) = replicate 20 0"
    by (simp add: sample_swarm_def sample_torrent_def)
  then show "length (mi_info_hash (cn_torrent greeted_conn)) = 20"
    "sk_in (cn_sock greeted_conn) = (19 # pstr) @ replicate 8 0 @ mi_info_hash (cn_torrent greeted_conn) @ replicate 20 5 @ []"
    by (simp_all add: greeted_conn_def)
qed (simp_all add: greeted_conn_def BITFIELD_NUM_BYTES_def CHAR_BIT_def, simp_all add: sample_env_def)

lemma greeted_conn_starts:
  "\<exists>c'. peer_connection_start (sample_env False) (replicate 20 1) 0 greeted_conn = Inr (True, c')"
  using peer_connection_start_ok [OF greeted_conn_ok, of 0] by blast

text \<open>
  C29. The beginning of a connection: when the peer's handshake for the same torrent arrives, the thread
  sends its own handshake, a bitfield that marks exactly the pieces it has and an \<open>unchoke\<close>, reads
  nothing behind the handshake, and enters the main loop with a fresh state in which only the remote side
  is unchoked.
\<close>
theorem peer_connection_start_greets:
  assumes "heap_ok (cn_heap c)" and "length (mi_info_hash (cn_torrent c)) = 20" and "length peer_id = 20"
    and "sk_room (cn_sock c) = None"
    and "sk_in (cn_sock c) = (19 # pstr) @ reserved @ mi_info_hash (cn_torrent c) @ pid @ rest" and "length reserved = 8"
    and "length pid = 20" and "n = info_num_pieces (mi_info (cn_torrent c))"
    and "length (sh_piece_states (cn_sh c)) = n" and "BITFIELD_NUM_BYTES n < 2 ^ 16" and "length (ev_tmem env (cn_self c)) = 8"
    and "\<forall>name. ev_mq_open env name"
  shows "\<exists>c' st bits. peer_connection_start env peer_id now c = Inr (True, c') \<and>
    sk_in (cn_sock c') = rest \<and>
    sk_out (cn_sock c') = sk_out (cn_sock c) @ ([19] @ pstr @ replicate 8 0 @ mi_info_hash (cn_torrent c) @ peer_id) @
      msg_bytes (cn_torrent c) (Bitfield (Some \<lparr>bs_size = BITFIELD_NUM_BYTES n, bs_str = bits @ [0]\<rparr>)) @
      msg_bytes (cn_torrent c) Unchoke \<and>
    length bits = BITFIELD_NUM_BYTES n \<and> bf_ones bits = {i. i < n \<and> sh_piece_states (cn_sh c) ! i = PIECE_STATE_HAVE} \<and>
    fresh_state n bits st \<and> cn_state c' = st\<lparr>cs_remote := \<lparr>ps_choked = False, ps_interested = False\<rparr>\<rparr> \<and>
    cn_torrent c' = cn_torrent c \<and> cn_heap c' = cn_heap c \<and> cn_last_msg c' = now \<and> cn_last_sent c' = -1"
  by (rule peer_connection_start_ok [OF assms])

theorem peer_connection_start_greets_witness:
  "\<exists>c' bits. peer_connection_start (sample_env False) (replicate 20 1) 0 greeted_conn = Inr (True, c') \<and>
    bf_ones bits = {i. i < 1 \<and> sh_piece_states (cn_sh greeted_conn) ! i = PIECE_STATE_HAVE} \<and> cn_torrent c' = cn_torrent greeted_conn"
  using peer_connection_start_greets [OF greeted_conn_ok, of 0] by blast

text \<open>The example is a peer that answers the handshake and a system without room for another message queue.\<close>

theorem thread_gives_up_cleanly_witness:
  "let env = (sample_env False)\<lparr>ev_mq_open := \<lambda>_. False\<rparr>;
       os = \<lparr>co_socket = 7, co_connect = -1, co_inprogress = True, co_select = 1, co_so_error = 0\<rparr>
   in thread_socket os (-1) = Inr (7, []) \<and> [] @ peer_connection_cleanup 7 = [7] \<and>
      (\<exists>c'. peer_connection_start env (replicate 20 1) 0 greeted_conn = Inr (False, c') \<and> cn_queues c' = cn_queues greeted_conn)"
proof -
  let ?env = "(sample_env False)\<lparr>ev_mq_open := \<lambda>_. False\<rparr>"
  let ?os = "\<lparr>co_socket = 7, co_connect = -1, co_inprogress = True, co_select = 1, co_so_error = 0\<rparr>"
  have os: "thread_socket ?os (-1) = Inr (7, [])" by (simp add: thread_socket_def peer_connect_def)
  have o: "wr.open_end (cn_sock greeted_conn)" using greeted_conn_ok(4) by (simp add: wr.open_end_def)
  obtain sk' where h: "handshake (heap_junk (cn_heap greeted_conn)) (replicate 20 1) (cn_sock greeted_conn) (mi_info_hash (cn_torrent greeted_conn)) =
      Inr (Some (replicate 20 5), sk')"
    using handshake_ok [OF greeted_conn_ok(2,3) o greeted_conn_ok(5-7)] by blast
  obtain own where own: "peer_connection_queue_name (ev_tmem ?env (cn_self greeted_conn)) 64 = Inr own"
    using queue_name_ok [of "ev_tmem ?env (cn_self greeted_conn)"] greeted_conn_ok(11) by auto
  have s: "peer_connection_start ?env (replicate 20 1) 0 greeted_conn = Inr (False, greeted_conn\<lparr>cn_sock := sk'\<rparr>)"
    using h own by (simp add: peer_connection_start_def peer_queue_open_def)
  have "cn_queues greeted_conn own = None" by (simp add: greeted_conn_def sample_conn_def)
  from thread_gives_up_cleanly [OF os s own this] s os show ?thesis by auto
qed

end
