(* ===== verification/Piece_Completion.thy ===== *)
theory Piece_Completion
  imports Connection_Start
begin

text \<open>
  What happens when the last block of a piece has arrived: the bookkeeping of the piece, the completion of
  the torrent with the renaming of its files, and the announcement to the peer and the other threads.
\<close>


section \<open>Messages between threads\<close>

lemma notify_loop_ok:
  "\<forall>p\<in>set ps. length (ev_tmem env (conn_thread p)) = 8 \<Longrightarrow>
   \<exists>r' q. notify_loop env i r c ps = Inr (r', c\<lparr>cn_queues := q\<rparr>)"
proof (induction ps arbitrary: r c)
  case Nil
  show ?case by (rule exI [of _ r], rule exI [of _ "cn_queues c"]) simp
next
  case (Cons p ps)
  show ?case
  proof (cases "conn_thread p = cn_self c")
    case False
    then show ?thesis using Cons by simp
  next
    case True
    let ?name = "''/'' @ concat (map hex_byte (ev_tmem env (cn_self c))) @ ''_queue''"
    have n: "peer_connection_queue_name (ev_tmem env (cn_self c)) 64 = Inr ?name"
      using queue_name_ok Cons.prems True by simp
    show ?thesis
    proof (cases "cn_queues c ?name")
      case None
      then show ?thesis using Cons.IH [of "-1" c] Cons.prems True n by simp
    next
      case (Some q)
      let ?c1 = "c\<lparr>cn_queues := (cn_queues c)(?name \<mapsto> snd (mq_send q (u64_mem (of_nat i))))\<rparr>"
      obtain r' q' where "notify_loop env i r ?c1 ps = Inr (r', ?c1\<lparr>cn_queues := q'\<rparr>)"
        using Cons.IH [of r ?c1] Cons.prems by auto
      then show ?thesis using Some True n by auto
    qed
  qed
qed

section \<open>A piece completes\<close>

lemma conn_send_have:
  assumes "wr.open_end (cn_sock c)"
  obtains sk' where "conn_send c (Have x) = Inr (0, c\<lparr>cn_sock := sk'\<rparr>)"
    "sk_out sk' = sk_out (cn_sock c) @ msg_bytes (cn_torrent c) (Have x)" "wr.open_end sk'"
proof -
  have w: "wire_msg (cn_torrent c) (Have x)" by (simp add: wire_msg_def)
  show thesis by (rule peer_msg_send_ok [OF w assms]) (use that in \<open>simp add: conn_send_def\<close>)
qed

definition temporary :: "dl_file_t \<Rightarrow> string \<Rightarrow> bool" where
  "temporary f p \<longleftrightarrow> good_path p \<and> df_path f = p @ incomplete_suffix"

lemma complete_files_ok:
  "list_all2 temporary fs ps \<Longrightarrow> mi_files (cn_torrent c) = pre @ map Some fs @ xs \<Longrightarrow>
   complete_files c [length pre..<length pre + length fs] =
     Inr (c\<lparr>cn_torrent := (cn_torrent c)\<lparr>mi_files := pre @ map2 (\<lambda>f p. Some (f\<lparr>df_path := p\<rparr>)) fs ps @ xs\<rparr>,
            cn_renames := cn_renames c @ map (\<lambda>p. (p @ incomplete_suffix, p)) ps\<rparr>)"
proof (induction arbitrary: c pre rule: list_all2_induct)
  case Nil
  then show ?case by simp
next
  case (Cons f fs p ps)
  let ?f = "f\<lparr>df_path := p\<rparr>"
  let ?c1 = "c\<lparr>cn_torrent := (cn_torrent c)\<lparr>mi_files := (pre @ [Some ?f]) @ map Some fs @ xs\<rparr>,
               cn_renames := cn_renames c @ [(p @ incomplete_suffix, p)]\<rparr>"
  have idx: "[length pre..<length pre + length (f # fs)] = length pre # [length (pre @ [Some ?f])..<length (pre @ [Some ?f]) + length fs]"
    by (subst upt_conv_Cons) simp_all
  have d: "dl_file_complete f = Inr (?f, p @ incomplete_suffix, p)"
    using dl_file_complete_ok [of p f] Cons.hyps(1) by (simp add: temporary_def)
  have "arr_get (mi_files (cn_torrent c)) (length pre) = Inr (Some f)"
    "(mi_files (cn_torrent c))[length pre := Some ?f] = (pre @ [Some ?f]) @ map Some fs @ xs"
    using Cons.prems by (simp_all add: arr_get_def nth_append)
  then have "complete_files c [length pre..<length pre + length (f # fs)] =
      complete_files ?c1 [length (pre @ [Some ?f])..<length (pre @ [Some ?f]) + length fs]"
    unfolding idx using d by simp
  also have "\<dots> = Inr (?c1\<lparr>cn_torrent := (cn_torrent ?c1)\<lparr>mi_files := (pre @ [Some ?f]) @
        map2 (\<lambda>f p. Some (f\<lparr>df_path := p\<rparr>)) fs ps @ xs\<rparr>,
        cn_renames := cn_renames ?c1 @ map (\<lambda>p. (p @ incomplete_suffix, p)) ps\<rparr>)"
    by (rule Cons.IH) simp
  finally show ?case by simp
qed

text \<open>Announcing a finished piece: a \<open>have\<close> message and the queues, nothing else.\<close>

definition announced :: "conn_t \<Rightarrow> u32 \<Rightarrow> conn_t \<Rightarrow> bool" where
  "announced c x c' \<longleftrightarrow> (\<exists>sk' q. c' = c\<lparr>cn_sock := sk', cn_queues := q\<rparr> \<and>
     sk_out sk' = sk_out (cn_sock c) @ msg_bytes (cn_torrent c) (Have x))"

definition peers_ok :: "env_t \<Rightarrow> conn_t \<Rightarrow> bool" where
  "peers_ok env c \<longleftrightarrow> list_all (\<lambda>p. length (ev_tmem env (conn_thread p)) = 8) (da_values (sh_peer_connections (cn_sh c)))"

lemma announce_ok:
  assumes "wr.open_end (cn_sock c)" and "peers_ok env c"
  shows "\<exists>c'. c_bind (conn_send c (Have x)) (\<lambda>(_, c2). c_bind (notify_peers_have env c2 i) (\<lambda>(_, c3). Inr c3)) = Inr c' \<and> announced c x c'"
proof -
  obtain sk' where s: "conn_send c (Have x) = Inr (0, c\<lparr>cn_sock := sk'\<rparr>)"
    "sk_out sk' = sk_out (cn_sock c) @ msg_bytes (cn_torrent c) (Have x)"
    by (rule conn_send_have [OF assms(1)])
  obtain r q where "notify_peers_have env (c\<lparr>cn_sock := sk'\<rparr>) i = Inr (r, c\<lparr>cn_sock := sk', cn_queues := q\<rparr>)"
    using notify_loop_ok [of "da_values (sh_peer_connections (cn_sh c))" env i 0 "c\<lparr>cn_sock := sk'\<rparr>"] assms(2)
    by (auto simp: notify_peers_have_def peers_ok_def list_all_iff)
  then show ?thesis using s by (auto simp: announced_def)
qed

lemma finish_piece_ok:
  assumes "length (sh_piece_states sh) = n" and "i < n" and "sh_piece_states sh ! i \<noteq> PIECE_STATE_HAVE"
    and "0 < sh_pieces_left sh" and "sh_pieces_left sh \<le> n" and "n < 2 ^ 32"
  shows "finish_piece n i sh = Inr (sh_pieces_left sh = 1,
      sh\<lparr>sh_piece_states := (sh_piece_states sh)[i := PIECE_STATE_HAVE], sh_pieces_left := sh_pieces_left sh - 1,
         sh_completed := sh_completed sh \<or> sh_pieces_left sh = 1\<rparr>)"
proof -
  have "size_sub (sh_pieces_left sh) 1 = sh_pieces_left sh - 1" "sh_pieces_left sh - 1 < n"
    using assms by (simp_all add: size_sub_exact)
  then show ?thesis using assms by (auto simp: finish_piece_def Let_def)
qed

text \<open>
  The piece \<open>i\<close> lies in the torrent's files \<open>fs\<close> and its digest can be computed; whether it is the one the torrent
  gives.
\<close>

definition checkable :: "env_t \<Rightarrow> conn_t \<Rightarrow> dl_file_t list \<Rightarrow> nat \<Rightarrow> bool" where
  "checkable env c fs i \<longleftrightarrow> (let info = mi_info (cn_torrent c) in
     heap_ok (cn_heap c) \<and> files_ok fs \<and> files_wf fs \<and> (\<exists>xs. mi_files (cn_torrent c) = map Some fs @ None # xs) \<and>
     info_piece_length info < 2 ^ 64 \<and> 16384 dvd info_piece_length info \<and> info_piece_length info * i \<le> total_size fs \<and>
     i < info_num_pieces info \<and> info_num_pieces info < 2 ^ 32 \<and> length (info_pieces info) = info_num_pieces info \<and>
     length (info_pieces info ! i) = 20 \<and> (\<forall>bs. length (ev_sha1 env bs) = 20))"

definition intact :: "env_t \<Rightarrow> info_t \<Rightarrow> dl_file_t list \<Rightarrow> nat \<Rightarrow> bool" where
  "intact env info fs i \<longleftrightarrow>
     info_pieces info ! i = ev_sha1 env (take (info_piece_length info) (drop (info_piece_length info * i) (all_data fs)))"

lemma checkable_verifies:
  assumes "checkable env c fs i"
  shows "torrent_sha1_verify (ev_sha1 env) (cn_heap c) (cn_torrent c) i = Inr (intact env (mi_info (cn_torrent c)) fs i, cn_heap c)"
proof -
  obtain xs where xs: "mi_files (cn_torrent c) = map Some fs @ None # xs" using assms by (auto simp: checkable_def Let_def)
  show ?thesis unfolding intact_def by (rule sha1_verify_ok [OF _ _ _ xs refl]) (use assms in \<open>auto simp: checkable_def Let_def\<close>)
qed

lemma msg_bytes_sh: "msg_bytes (t\<lparr>mi_sh := sh\<rparr>) m = msg_bytes t m" "msg_bytes (t\<lparr>mi_files := fs\<rparr>) m = msg_bytes t m"
  by (simp_all add: msg_bytes_def msgbuf_len_def split: msg_type_t.split)

lemma piece_arrived_valid:
  assumes "torrent_sha1_verify (ev_sha1 env) (cn_heap c) (cn_torrent c) (unat x) = Inr (True, h)"
    and "unat x < info_num_pieces (mi_info (cn_torrent c))"
    and "finish_piece (info_num_pieces (mi_info (cn_torrent c))) (unat x) (cn_sh c) = Inr (don, sh')"
    and "(if don then torrent_complete (upd_sh (\<lambda>_. sh') (c\<lparr>cn_heap := h\<rparr>)) else Inr (upd_sh (\<lambda>_. sh') (c\<lparr>cn_heap := h\<rparr>))) = Inr c1"
    and "wr.open_end (cn_sock c1)" and "peers_ok env c1"
  shows "\<exists>c'. piece_arrived env c x = Inr c' \<and> announced c1 x c'"
  using announce_ok [OF assms(5,6), of x "unat x"] assms(1-4)
  by (auto simp: piece_arrived_def Let_def handle_piece_dl_completion_def)

text \<open>
  C12. The end of a piece, from the point where all its blocks are there. When the bytes in the files have the
  digest of the torrent and other pieces are still missing, the piece is marked as present, the counter of
  missing pieces is decremented, nothing else of the shared state changes and the peer is sent one \<open>have\<close>
  message. When they have not, the piece is free to be requested again, and nothing is sent.
\<close>
theorem piece_completes:
  assumes "checkable env c fs i" and "i = unat x"
    and "n = info_num_pieces (mi_info (cn_torrent c))" and "length (sh_piece_states (cn_sh c)) = n"
    and "sh_piece_states (cn_sh c) ! i \<noteq> PIECE_STATE_HAVE" and "1 < sh_pieces_left (cn_sh c)" and "sh_pieces_left (cn_sh c) \<le> n"
    and "sk_room (cn_sock c) = None" and "peers_ok env c"
  shows "\<exists>c'. piece_arrived env c x = Inr c' \<and> cn_state c' = cn_state c \<and>
    (if intact env (mi_info (cn_torrent c)) fs i
     then cn_sh c' = (cn_sh c)\<lparr>sh_piece_states := (sh_piece_states (cn_sh c))[i := PIECE_STATE_HAVE],
                               sh_pieces_left := sh_pieces_left (cn_sh c) - 1\<rparr> \<and>
          sk_out (cn_sock c') = sk_out (cn_sock c) @ msg_bytes (cn_torrent c) (Have x)
     else cn_sh c' = (cn_sh c)\<lparr>sh_piece_states := (sh_piece_states (cn_sh c))[i := PIECE_STATE_NOT_REQUESTED]\<rparr> \<and>
          sk_out (cn_sock c') = sk_out (cn_sock c))"
proof -
  note v = checkable_verifies [OF assms(1)]
  have n: "i < n" "n < 2 ^ 32" using assms(1,3) by (simp_all add: checkable_def Let_def)
  show ?thesis
  proof (cases "intact env (mi_info (cn_torrent c)) fs i")
    case True
    let ?sh = "(cn_sh c)\<lparr>sh_piece_states := (sh_piece_states (cn_sh c))[i := PIECE_STATE_HAVE],
                         sh_pieces_left := sh_pieces_left (cn_sh c) - 1\<rparr>"
    have "finish_piece n i (cn_sh c) = Inr (False, ?sh)"
      using finish_piece_ok [of "cn_sh c" n i] assms n by simp
    then have "\<exists>c'. piece_arrived env c x = Inr c' \<and> announced (upd_sh (\<lambda>_. ?sh) c) x c'"
      using assms True v n by (intro piece_arrived_valid [where h = "cn_heap c" and don = False and sh' = ?sh])
        (simp_all add: upd_sh_def wr.open_end_def peers_ok_def)
    then show ?thesis using True by (auto simp: announced_def upd_sh_def msg_bytes_sh)
  next
    case False
    then show ?thesis using v assms(2,4) n by (simp add: piece_arrived_def reset_piece_def upd_sh_def)
  qed
qed

lemma torrent_complete_ok:
  assumes "list_all2 temporary fs ps" and "mi_files (cn_torrent c) = map Some fs @ xs"
    and "length (info_files (mi_info (cn_torrent c))) = length fs"
  shows "torrent_complete c = Inr (c\<lparr>cn_torrent := (cn_torrent c)
      \<lparr>mi_sh := (cn_sh c)\<lparr>sh_completed := True, sh_state := TORRENT_STATE_SEEDING\<rparr>,
       mi_files := map2 (\<lambda>f p. Some (f\<lparr>df_path := p\<rparr>)) fs ps @ xs\<rparr>,
      cn_renames := cn_renames c @ map (\<lambda>p. (p @ incomplete_suffix, p)) ps\<rparr>)"
  using complete_files_ok [of fs ps "upd_sh mark_complete c" "[]" xs] assms
  by (simp add: torrent_complete_def upd_sh_def mark_complete_def)

text \<open>
  C13. The end of the torrent, from the point where all blocks of its last missing piece are there: if the
  piece has its digest, the torrent is left completed and seeding with no piece missing, every file is renamed
  from its temporary to its final name, and the peer is sent one \<open>have\<close> message.
\<close>
theorem torrent_completes:
  assumes "checkable env c fs i" and "i = unat x" and "intact env (mi_info (cn_torrent c)) fs i"
    and "length (sh_piece_states (cn_sh c)) = info_num_pieces (mi_info (cn_torrent c))"
    and "sh_piece_states (cn_sh c) ! i \<noteq> PIECE_STATE_HAVE" and "sh_pieces_left (cn_sh c) = 1"
    and "mi_files (cn_torrent c) = map Some fs @ xs" and "length (info_files (mi_info (cn_torrent c))) = length fs"
    and "list_all2 temporary fs ps" and "sk_room (cn_sock c) = None" and "peers_ok env c"
  shows "\<exists>c'. piece_arrived env c x = Inr c' \<and> cn_state c' = cn_state c \<and>
    cn_sh c' = (cn_sh c)\<lparr>sh_piece_states := (sh_piece_states (cn_sh c))[i := PIECE_STATE_HAVE],
                         sh_pieces_left := 0, sh_completed := True, sh_state := TORRENT_STATE_SEEDING\<rparr> \<and>
    cn_renames c' = cn_renames c @ map (\<lambda>p. (p @ incomplete_suffix, p)) ps \<and>
    mi_files (cn_torrent c') = map2 (\<lambda>f p. Some (f\<lparr>df_path := p\<rparr>)) fs ps @ xs \<and>
    sk_out (cn_sock c') = sk_out (cn_sock c) @ msg_bytes (cn_torrent c) (Have x)"
proof -
  let ?n = "info_num_pieces (mi_info (cn_torrent c))"
  have n: "i < ?n" "?n < 2 ^ 32" using assms(1) by (simp_all add: checkable_def Let_def)
  let ?sh = "(cn_sh c)\<lparr>sh_piece_states := (sh_piece_states (cn_sh c))[i := PIECE_STATE_HAVE],
                       sh_pieces_left := 0, sh_completed := True\<rparr>"
  let ?c0 = "upd_sh (\<lambda>_. ?sh) c"
  let ?c1 = "?c0\<lparr>cn_torrent := (cn_torrent ?c0)
      \<lparr>mi_sh := ?sh\<lparr>sh_completed := True, sh_state := TORRENT_STATE_SEEDING\<rparr>,
       mi_files := map2 (\<lambda>f p. Some (f\<lparr>df_path := p\<rparr>)) fs ps @ xs\<rparr>,
      cn_renames := cn_renames c @ map (\<lambda>p. (p @ incomplete_suffix, p)) ps\<rparr>"
  have f: "finish_piece ?n i (cn_sh c) = Inr (True, ?sh)"
    using finish_piece_ok [of "cn_sh c" ?n i] assms n by simp
  have "torrent_complete ?c0 = Inr ?c1"
    using torrent_complete_ok [of fs ps ?c0 xs] assms by (simp add: upd_sh_def)
  then have "\<exists>c'. piece_arrived env c x = Inr c' \<and> announced ?c1 x c'"
    using f n assms checkable_verifies [OF assms(1)] by (intro piece_arrived_valid [where h = "cn_heap c" and don = True and sh' = ?sh])
      (simp_all add: upd_sh_def wr.open_end_def peers_ok_def)
  then show ?thesis by (auto simp: announced_def upd_sh_def msg_bytes_sh)
qed

text \<open>
  The threads' message queues hold messages of four bytes, a \<open>have\<close> event is sent with eight: on queues
  made by \<open>peer_queue_open\<close> the announcement to the other threads changes nothing, whatever the list of
  connections.
\<close>
theorem notify_peers_have_never_delivers:
  assumes "peers_ok env c" and "\<forall>name q. cn_queues c name = Some q \<longrightarrow> mq_msgsize q = 4"
  shows "\<exists>ret. notify_peers_have env c i = Inr (ret, c)"
proof -
  have "\<exists>r'. notify_loop env i r c ps = Inr (r', c)" if "\<forall>p\<in>set ps. length (ev_tmem env (conn_thread p)) = 8" for ps r
    using that
  proof (induction ps arbitrary: r)
    case (Cons p ps)
    have s: "mq_send q (u64_mem (of_nat i)) = (-1, q)" if "cn_queues c name = Some q" for name q
      using assms(2) that by (simp add: mq_send_def u64_mem_def)
    have "c\<lparr>cn_queues := (cn_queues c)(name \<mapsto> q)\<rparr> = c" if "cn_queues c name = Some q" for name q
      using that by (simp add: fun_upd_idem)
    then show ?case
      using Cons s by (auto simp: queue_name_ok split: option.split)
  qed simp
  then show ?thesis using assms(1) by (simp add: notify_peers_have_def peers_ok_def list_all_iff)
qed


text \<open>A torrent of \<open>n\<close> missing pieces whose first piece is in its file.\<close>

definition ending_file :: dl_file_t where
  "ending_file = \<lparr>df_size = 3, df_data = [1, 2, 3], df_path = ''f.incomplete''\<rparr>"

definition ending_torrent :: "nat \<Rightarrow> metainfo_t" where
  "ending_torrent n = (sample_torrent 16384 [Some ending_file, None])
     \<lparr>mi_info := \<lparr>info_mode = INFO_SINGLE, info_piece_length = 16384, info_name = Some ''f'', info_num_pieces = n,
        info_pieces = replicate n ([1, 2, 3] @ replicate 17 0), info_length = 3,
        info_files = [\<lparr>fi_length = 3, fi_path = [Some ''f'']\<rparr>]\<rparr>,
      mi_sh := (mi_sh (sample_torrent 16384 []))\<lparr>sh_piece_states := replicate n PIECE_STATE_REQUESTED, sh_pieces_left := n\<rparr>\<rparr>"

definition ending_conn :: "nat \<Rightarrow> conn_t" where
  "ending_conn n = (sample_conn [] [0])\<lparr>cn_torrent := ending_torrent n\<rparr>"

lemma ending_simps [simp]:
  "cn_torrent (ending_conn n) = ending_torrent n" "cn_heap (ending_conn n) = calm_heap" "cn_sock (ending_conn n) = plain_sock []"
  "info_num_pieces (mi_info (ending_torrent n)) = n" "length (info_files (mi_info (ending_torrent n))) = 1"
  "sh_piece_states (mi_sh (ending_torrent n)) = replicate n PIECE_STATE_REQUESTED" "sh_pieces_left (mi_sh (ending_torrent n)) = n"
  "mi_files (ending_torrent n) = map Some [ending_file] @ [None]"
  "da_values (sh_peer_connections (mi_sh (ending_torrent n))) = []"
  by (simp_all add: ending_conn_def ending_torrent_def sample_torrent_def)

lemma ending_ok:
  assumes "0 < n" and "n < 2 ^ 32"
  shows "checkable (sample_env False) (ending_conn n) [ending_file] 0" and "intact (sample_env False) (mi_info (ending_torrent n)) [ending_file] 0"
    and "peers_ok (sample_env False) (ending_conn n)"
  using assms by (simp_all add: checkable_def intact_def peers_ok_def Let_def files_ok_def files_wf_def total_size_def all_data_def ending_file_def)
    (auto simp: ending_torrent_def sample_env_def min_def)

theorem piece_completes_witness:
  "\<exists>c'. piece_arrived (sample_env False) (ending_conn 2) 0 = Inr c' \<and>
    sh_piece_states (cn_sh c') = [PIECE_STATE_HAVE, PIECE_STATE_REQUESTED] \<and> sh_pieces_left (cn_sh c') = 1"
proof -
  have "replicate 2 PIECE_STATE_REQUESTED = [PIECE_STATE_REQUESTED, PIECE_STATE_REQUESTED]" by (simp add: numeral_2_eq_2)
  then show ?thesis
    using piece_completes [of "sample_env False" "ending_conn 2" "[ending_file]" 0 0 2] ending_ok [of 2] by auto
qed

theorem torrent_completes_witness:
  "\<exists>c'. piece_arrived (sample_env False) (ending_conn 1) 0 = Inr c' \<and>
    sh_state (cn_sh c') = TORRENT_STATE_SEEDING \<and> cn_renames c' = cn_renames (ending_conn 1) @ [(''f.incomplete'', ''f'')]"
proof -
  have "list_all2 temporary [ending_file] [''f'']"
    by (simp add: temporary_def good_path_def incomplete_suffix_def ending_file_def)
  then show ?thesis
    using torrent_completes [of "sample_env False" "ending_conn 1" "[ending_file]" 0 0 "[None]" "[''f'']"] ending_ok [of 1]
    by (auto simp: incomplete_suffix_def)
qed

theorem notify_peers_have_never_delivers_witness:
  "\<exists>ret. notify_peers_have (sample_env True)
      ((ending_conn 1)\<lparr>cn_queues := [''/0000000000000000_queue'' \<mapsto> \<lparr>mq_maxmsg = 10, mq_msgsize = 4, mq_msgs = []\<rparr>],
         cn_torrent := (ending_torrent 1)\<lparr>mi_sh := (mi_sh (ending_torrent 1))\<lparr>sh_peer_connections :=
           \<lparr>da_cap = 16, da_values = [\<lparr>conn_peer = \<lparr>peer_ip = 1, peer_port = 2, peer_peer_id = []\<rparr>, conn_thread = 1\<rparr>]\<rparr>\<rparr>\<rparr>\<rparr>) 0 =
    Inr (ret, (ending_conn 1)\<lparr>cn_queues := [''/0000000000000000_queue'' \<mapsto> \<lparr>mq_maxmsg = 10, mq_msgsize = 4, mq_msgs = []\<rparr>],
         cn_torrent := (ending_torrent 1)\<lparr>mi_sh := (mi_sh (ending_torrent 1))\<lparr>sh_peer_connections :=
           \<lparr>da_cap = 16, da_values = [\<lparr>conn_peer = \<lparr>peer_ip = 1, peer_port = 2, peer_peer_id = []\<rparr>, conn_thread = 1\<rparr>]\<rparr>\<rparr>\<rparr>\<rparr>)"
  by (rule notify_peers_have_never_delivers) (simp_all add: peers_ok_def sample_env_def)

end
