(* ===== verification/Critical_Sections.thy ===== *)
theory Critical_Sections
  imports Swarm_State Piece_Completion
begin

text \<open>
  The critical sections of the connection threads, run one after the other in any order: what the bookkeeping
  of the download says after each sequence of them. The sections are the code's own functions; the number
  beside the shared state counts the threads that have found the torrent complete in
  \<open>handle_piece_dl_completion\<close> and have not been through \<open>torrent_complete\<close> yet.
\<close>

section \<open>Sequences of critical sections\<close>

datatype crit_section = Next_Request "byte list" | Finish_Piece nat | Reset_Piece nat | Mark_Complete

fun run_section :: "nat \<Rightarrow> crit_section \<Rightarrow> nat \<times> sh_t \<Rightarrow> (nat \<times> sh_t) c_result" where
  "run_section n (Next_Request bf) (k, sh) = c_bind (torrent_next_request n sh bf) (\<lambda>(r, sh'). Inr (k, sh'))"
| "run_section n (Finish_Piece i) (k, sh) =
     c_bind (finish_piece n i sh) (\<lambda>(completed, sh'). Inr (if completed then Suc k else k, sh'))"
| "run_section n (Reset_Piece i) (k, sh) = c_bind (reset_piece i sh) (\<lambda>sh'. Inr (k, sh'))"
| "run_section n Mark_Complete (k, sh) = Inr (if k = 0 then (k, sh) else (k - 1, mark_complete sh))"

fun run_sections :: "nat \<Rightarrow> crit_section list \<Rightarrow> nat \<times> sh_t \<Rightarrow> (nat \<times> sh_t) c_result" where
  "run_sections n [] s = Inr s"
| "run_sections n (x # xs) s = c_bind (run_section n x s) (run_sections n xs)"

text \<open>
  Indices and bitfields fit the torrent, and no piece is reset after it was finished; \<open>fin\<close> are the pieces
  finished so far.
\<close>

fun orderly :: "nat \<Rightarrow> nat list \<Rightarrow> crit_section list \<Rightarrow> bool" where
  "orderly n fin [] = True"
| "orderly n fin (Next_Request bf # xs) = (n \<le> 8 * length bf \<and> orderly n fin xs)"
| "orderly n fin (Finish_Piece i # xs) = (i < n \<and> orderly n (i # fin) xs)"
| "orderly n fin (Reset_Piece i # xs) = (i < n \<and> i \<notin> set fin \<and> orderly n fin xs)"
| "orderly n fin (Mark_Complete # xs) = orderly n fin xs"

definition finished :: "crit_section list \<Rightarrow> nat set" where
  "finished xs = {i. Finish_Piece i \<in> set xs}"

lemma finished_simps [simp]:
  "finished [] = {}" "finished (Finish_Piece i # xs) = insert i (finished xs)" "finished (Next_Request bf # xs) = finished xs"
  "finished (Reset_Piece i # xs) = finished xs" "finished (Mark_Complete # xs) = finished xs"
  by (auto simp: finished_def)

section \<open>The bookkeeping\<close>

text \<open>What the shared state says when exactly the pieces of \<open>F\<close> are finished.\<close>

definition books :: "nat \<Rightarrow> nat set \<Rightarrow> nat \<times> sh_t \<Rightarrow> bool" where
  "books n F s \<longleftrightarrow> (case s of (k, sh) \<Rightarrow>
     length (sh_piece_states sh) = n \<and> F \<subseteq> {..<n} \<and> (\<forall>i<n. sh_piece_states sh ! i = PIECE_STATE_HAVE \<longleftrightarrow> i \<in> F) \<and>
     sh_pieces_left sh = n - card F \<and> sh_completed sh = (card F = n) \<and>
     k = (if card F = n \<and> sh_state sh \<noteq> TORRENT_STATE_SEEDING then 1 else 0) \<and>
     (sh_state sh = TORRENT_STATE_SEEDING \<longrightarrow> card F = n))"

lemma books_update:
  assumes "books n F (k, sh)" and "i < n" and "i \<notin> F" and "v \<noteq> PIECE_STATE_HAVE"
  shows "books n F (k, sh\<lparr>sh_piece_states := (sh_piece_states sh)[i := v]\<rparr>)"
  using assms by (auto simp: books_def nth_list_update)

lemma books_finish:
  assumes "books n F (k, sh)" and "i < n" and "n < 2 ^ 32"
  shows "\<exists>s'. run_section n (Finish_Piece i) (k, sh) = Inr s' \<and> books n (insert i F) s'"
proof (cases "i \<in> F")
  case True
  then have "finish_piece n i sh = Inr (False, sh)" using assms(1,2) by (simp add: books_def finish_piece_def)
  then show ?thesis using assms(1) True by (simp add: insert_absorb)
next
  case False
  have fin: "finite F" and len: "length (sh_piece_states sh) = n" and left: "sh_pieces_left sh = n - card F"
    using assms(1) finite_subset [of F "{..<n}"] by (auto simp: books_def)
  have ni: "sh_piece_states sh ! i \<noteq> PIECE_STATE_HAVE" using assms(1,2) False by (simp add: books_def)
  have "insert i F \<subseteq> {..<n}" using assms(1,2) by (auto simp: books_def)
  from card_mono [OF _ this] have card: "card (insert i F) = Suc (card F)" "Suc (card F) \<le> n" using fin False by simp_all
  have "finish_piece n i sh = Inr (sh_pieces_left sh = 1,
      sh\<lparr>sh_piece_states := (sh_piece_states sh)[i := PIECE_STATE_HAVE], sh_pieces_left := sh_pieces_left sh - 1,
         sh_completed := sh_completed sh \<or> sh_pieces_left sh = 1\<rparr>)"
    by (rule finish_piece_ok [OF len assms(2) ni]) (use left card assms(3) in simp_all)
  then show ?thesis using assms(1,2) card left by (auto simp: books_def nth_list_update)
qed

lemma books_next:
  assumes "books n F (k, sh)" and "n \<le> 8 * length bf" and "n < 2 ^ 32"
  shows "\<exists>s'. run_section n (Next_Request bf) (k, sh) = Inr s' \<and> books n F s'"
proof -
  have len: "length (sh_piece_states sh) = n" using assms(1) by (simp add: books_def)
  show ?thesis
  proof (cases "piece_choice (sh_piece_states sh) bf [0..<n] None")
    case None
    then show ?thesis using next_request_eq [OF len assms(3,2)] assms(1) by simp
  next
    case (Some i)
    then have "i < n" "i \<notin> F" using piece_choice_in [OF Some] assms(1) by (auto simp: books_def)
    then show ?thesis using next_request_eq [OF len assms(3,2)] Some books_update [OF assms(1)] by simp
  qed
qed

lemma run_sections_books:
  "orderly n fin xs \<Longrightarrow> books n (set fin) s \<Longrightarrow> n < 2 ^ 32 \<Longrightarrow>
   \<exists>s'. run_sections n xs s = Inr s' \<and> books n (set fin \<union> finished xs) s'"
proof (induction n fin xs arbitrary: s rule: orderly.induct)
  case (2 n fin bf xs)
  obtain k sh where s: "s = (k, sh)" by (cases s)
  obtain s1 where "run_section n (Next_Request bf) s = Inr s1" "books n (set fin) s1"
    using books_next [of n "set fin" k sh bf] 2 s by auto
  then show ?case using 2 by simp
next
  case (3 n fin i xs)
  obtain k sh where s: "s = (k, sh)" by (cases s)
  obtain s1 where "run_section n (Finish_Piece i) s = Inr s1" "books n (set (i # fin)) s1"
    using books_finish [of n "set fin" k sh i] 3 s by auto
  then show ?case using 3 by auto
next
  case (4 n fin i xs)
  obtain k sh where s: "s = (k, sh)" by (cases s)
  have "run_section n (Reset_Piece i) s = Inr (k, sh\<lparr>sh_piece_states := (sh_piece_states sh)[i := PIECE_STATE_NOT_REQUESTED]\<rparr>)"
    using 4 s by (simp add: reset_piece_def books_def)
  then show ?case using 4 s books_update [of n "set fin" k sh i PIECE_STATE_NOT_REQUESTED] by auto
next
  case (5 n fin xs)
  obtain k sh where s: "s = (k, sh)" by (cases s)
  have "books n (set fin) (if k = 0 then (k, sh) else (k - 1, mark_complete sh))"
    using 5(3) s by (auto simp: books_def mark_complete_def split: if_splits)
  then show ?case using 5 s by simp
qed simp

text \<open>
  C15. The bookkeeping of the download, for every order in which the threads run their critical sections, as long
  as no piece is reset after it was finished: no assertion fails, exactly the finished pieces are present,
  \<open>pieces_left\<close> is the number of the others, the torrent is marked completed exactly when all are finished,
  exactly one thread finds this out, and the torrent seeds as soon as this thread has been through
  \<open>torrent_complete\<close>.
\<close>
theorem sections_keep_books:
  assumes "sh_fresh n sh" and "0 < n" and "n < 2 ^ 32" and "orderly n [] xs"
  shows "\<exists>k sh'. run_sections n xs (0, sh) = Inr (k, sh') \<and> length (sh_piece_states sh') = n \<and>
    (\<forall>i<n. sh_piece_states sh' ! i = PIECE_STATE_HAVE \<longleftrightarrow> Finish_Piece i \<in> set xs) \<and>
    sh_pieces_left sh' = n - card (finished xs) \<and> sh_completed sh' = (card (finished xs) = n) \<and>
    k \<le> 1 \<and> (sh_state sh' = TORRENT_STATE_SEEDING \<longleftrightarrow> card (finished xs) = n \<and> k = 0)"
proof -
  have "books n (set []) (0, sh)" using assms(1,2) by (auto simp: books_def sh_fresh_def)
  from run_sections_books [OF assms(4) this assms(3)] obtain k sh' where "run_sections n xs (0, sh) = Inr (k, sh')" "books n (finished xs) (k, sh')"
    by auto
  then show ?thesis by (intro exI [of _ k] exI [of _ sh']) (auto simp: books_def finished_def)
qed

text \<open>The example is a download of two pieces by two threads, one of which finishes a piece twice.\<close>

theorem sections_keep_books_witness:
  "\<exists>k sh'. run_sections 2 [Next_Request [0xC0], Finish_Piece 0, Next_Request [0xC0], Reset_Piece 1, Finish_Piece 1, Finish_Piece 0, Mark_Complete]
      (0, mi_sh (sample_swarm [PIECE_STATE_NOT_REQUESTED, PIECE_STATE_NOT_REQUESTED])) = Inr (k, sh') \<and>
    sh_pieces_left sh' = 0 \<and> sh_completed sh' \<and> k \<le> 1"
proof -
  let ?xs = "[Next_Request [0xC0], Finish_Piece 0, Next_Request [0xC0], Reset_Piece 1, Finish_Piece 1, Finish_Piece 0, Mark_Complete]"
  let ?sh = "mi_sh (sample_swarm [PIECE_STATE_NOT_REQUESTED, PIECE_STATE_NOT_REQUESTED])"
  have "sh_fresh 2 ?sh" by (simp add: sh_fresh_def numeral_2_eq_2, simp add: sample_swarm_def sample_torrent_def)
  moreover have "card (finished ?xs) = 2" by (simp add: card_insert_if)
  ultimately show ?thesis using sections_keep_books [of 2 ?sh ?xs] by auto
qed

end
