(* ===== verification/Swarm_System.thy ===== *)
theory Swarm_System
  imports Swarm_State
begin

text \<open>
  The connection handlers refine the transition system of \<open>Swarm_State\<close>: whatever a handler does, the
  shared state changes by critical sections only, and what has arrived on the socket is left alone by
  everything but the receiving functions. \<open>swarm\<close> is the system of all threads on one torrent.
\<close>

section \<open>What handlers may change\<close>

definition conn_le :: "conn_t \<Rightarrow> conn_t \<Rightarrow> bool" where
  "conn_le c c' \<longleftrightarrow> in_part (cn_sock c') = in_part (cn_sock c) \<and> mi_info (cn_torrent c') = mi_info (cn_torrent c) \<and>
     mi_max_peers (cn_torrent c') = mi_max_peers (cn_torrent c) \<and> (\<exists>es. sh_run (cn_sh c) es (cn_sh c'))"

definition conn_ok :: "conn_t \<Rightarrow> bool" where
  "conn_ok c \<longleftrightarrow> length (sh_piece_states (cn_sh c)) = info_num_pieces (mi_info (cn_torrent c)) \<and>
     info_num_pieces (mi_info (cn_torrent c)) < 2 ^ 32"

lemma sh_run_length: "sh_run s es s' \<Longrightarrow> length (sh_piece_states s') = length (sh_piece_states s)"
  by (induction rule: sh_run.induct) (auto elim: sh_stepE)

lemma conn_le_ok: "conn_le c c' \<Longrightarrow> conn_ok c \<Longrightarrow> conn_ok c'"
  by (auto simp: conn_le_def conn_ok_def dest: sh_run_length)

lemma conn_le_refl [simp]: "conn_le c c"
  unfolding conn_le_def using sh_run.stop by blast

lemma conn_le_trans: "conn_le c c1 \<Longrightarrow> conn_le c1 c2 \<Longrightarrow> conn_le c c2"
  unfolding conn_le_def using sh_run_append by metis

lemma conn_le_same:
  "in_part (cn_sock c') = in_part (cn_sock c) \<Longrightarrow> mi_info (cn_torrent c') = mi_info (cn_torrent c) \<Longrightarrow>
   mi_max_peers (cn_torrent c') = mi_max_peers (cn_torrent c) \<Longrightarrow> cn_sh c' = cn_sh c \<Longrightarrow> conn_le c c'"
  unfolding conn_le_def using sh_run.stop by metis

lemma conn_le_step:
  "sh_step (cn_sh c) e s \<Longrightarrow> conn_le c (upd_sh (\<lambda>_. s) c)"
  unfolding conn_le_def using sh_run_step [of "cn_sh c" e s] by auto

text \<open>Fields other than the socket and the torrent do not matter.\<close>

lemma conn_le_frame [simp]:
  "conn_le c (upd_state f c') = conn_le c c'" "conn_le c (c'\<lparr>cn_heap := h\<rparr>) = conn_le c c'"
  "conn_le c (c'\<lparr>cn_queues := q\<rparr>) = conn_le c c'" "conn_le c (c'\<lparr>cn_last_msg := t\<rparr>) = conn_le c c'"
  "conn_le c (c'\<lparr>cn_last_sent := t\<rparr>) = conn_le c c'" "conn_le c (set_request i pr c') = conn_le c c'"
  "conn_le c (c'\<lparr>cn_renames := r\<rparr>) = conn_le c c'"
  "conn_le (upd_state f c') c = conn_le c' c" "conn_le (c'\<lparr>cn_heap := h\<rparr>) c = conn_le c' c"
  "conn_le (c'\<lparr>cn_last_sent := t\<rparr>) c = conn_le c' c" "conn_le (set_request i pr c') c = conn_le c' c"
  "conn_le (c'\<lparr>cn_queues := q\<rparr>) c = conn_le c' c" "conn_le (c'\<lparr>cn_last_msg := t\<rparr>) c = conn_le c' c"
  by (simp_all add: conn_le_def)

lemma conn_ok_frame [simp]:
  "conn_ok (upd_state f c) = conn_ok c" "conn_ok (c\<lparr>cn_heap := h\<rparr>) = conn_ok c"
  "conn_ok (c\<lparr>cn_last_sent := t\<rparr>) = conn_ok c" "conn_ok (set_request i pr c) = conn_ok c"
  "conn_ok (c\<lparr>cn_sock := s\<rparr>) = conn_ok c" "conn_ok (c\<lparr>cn_last_msg := t\<rparr>) = conn_ok c"
  "conn_ok (c\<lparr>cn_queues := q\<rparr>) = conn_ok c"
  by (simp_all add: conn_ok_def)

section \<open>Sending\<close>

lemma send_then_frame:
  assumes "send_then sk bs k = Inr (rc, sk')" and "\<And>sk1. k sk1 = Inr (rc, sk') \<Longrightarrow> in_part sk' = in_part sk1"
  shows "in_part sk' = in_part sk"
proof -
  obtain r sk1 where s: "send_buff sk bs = (r, sk1)" by fastforce
  have "in_part sk1 = in_part sk" using wr.wr_frame [OF s] .
  then show ?thesis using assms s by (auto simp: send_then_def split: if_splits)
qed

lemma send_buff_frame: "send_buff sk bs = (rc, sk') \<Longrightarrow> in_part sk' = in_part sk"
  by (rule wr.wr_frame)

lemma send_payload_frame: "send_payload sk msg len = Inr (rc, sk') \<Longrightarrow> in_part sk' = in_part sk"
proof (cases msg)
  case (Request r)
  assume "send_payload sk msg len = Inr (rc, sk')"
  then have "send_then sk (u32_mem (htonl (rq_index r))) (\<lambda>sk1.
      send_then sk1 (u32_mem (htonl (rq_begin r))) (\<lambda>sk2.
      send_then sk2 (u32_mem (htonl (rq_length r))) (\<lambda>sk3. Inr (0, sk3)))) = Inr (rc, sk')"
    using Request by (simp add: send_payload_def)
  then show ?thesis by (elim send_then_frame) auto
next
  case Keepalive
  assume "send_payload sk msg len = Inr (rc, sk')"
  then show ?thesis using Keepalive
    by (auto simp: send_payload_def c_bind_eq_Inr elim!: send_then_frame)
qed (auto simp: send_payload_def c_bind_eq_Inr split: option.splits dest: send_buff_frame)

lemma peer_msg_send_frame: "peer_msg_send sk msg torrent = Inr (rc, sk') \<Longrightarrow> in_part sk' = in_part sk"
  unfolding peer_msg_send_def Let_def
  by (elim send_then_frame) (auto split: if_splits elim!: send_then_frame dest: send_payload_frame)

lemma conn_send_le: "conn_send c msg = Inr (rc, c') \<Longrightarrow> conn_le c c'"
  by (auto simp: conn_send_def c_bind_eq_Inr dest: peer_msg_send_frame intro!: conn_le_same)

lemma conn_send_fields:
  "conn_send c msg = Inr (rc, c') \<Longrightarrow> \<exists>sk'. c' = c\<lparr>cn_sock := sk'\<rparr>"
  by (auto simp: conn_send_def c_bind_eq_Inr)

lemma interest_le:
  "show_interested c = Inr c' \<Longrightarrow> conn_le c c'" "show_not_interested c = Inr c' \<Longrightarrow> conn_le c c'"
  "unchoke c = Inr c' \<Longrightarrow> conn_le c c'"
  by (auto simp: show_interested_def show_not_interested_def unchoke_def c_bind_eq_Inr dest!: conn_send_le split: if_splits)

lemma have_loop_le: "have_loop c msz ms = Inr (c', ms') \<Longrightarrow> conn_le c c'"
proof (induction ms arbitrary: c)
  case (Cons m ms)
  show ?case
    using Cons.prems
    by (auto simp: c_bind_eq_Inr split: if_splits dest!: conn_send_le Cons.IH intro: conn_le_trans)
qed simp

lemma service_have_events_le: "service_have_events env c = Inr c' \<Longrightarrow> conn_le c c'"
  by (auto simp: service_have_events_def c_bind_eq_Inr split: option.splits dest!: have_loop_le)

lemma serve_loop_le: "serve_loop n c req = Inr c' \<Longrightarrow> conn_le c c'"
proof (induction n arbitrary: c req)
  case (Suc n)
  from Suc.prems obtain r req' q' where d: "dequeue (cs_peer_requests (cn_state c)) req = Inr (r, req', q')"
    by (auto simp: c_bind_eq_Inr)
  show ?case
    using Suc.prems d
    by (auto simp: c_bind_eq_Inr Let_def split: if_splits dest!: conn_send_le Suc.IH intro: conn_le_trans)
qed simp

lemma service_peer_requests_le: "service_peer_requests c = Inr c' \<Longrightarrow> conn_le c c'"
  unfolding service_peer_requests_def by (rule serve_loop_le)

section \<open>Finished pieces\<close>

lemma notify_loop_le: "notify_loop env i ret c ps = Inr (r, c') \<Longrightarrow> conn_le c c'"
proof (induction ps arbitrary: c ret)
  case (Cons p ps)
  then show ?case
    by (auto simp: c_bind_eq_Inr split: if_splits option.splits dest!: Cons.IH)
qed simp

lemma notify_peers_have_le: "notify_peers_have env c i = Inr (r, c') \<Longrightarrow> conn_le c c'"
  unfolding notify_peers_have_def by (rule notify_loop_le)

lemma complete_files_le: "complete_files c is = Inr c' \<Longrightarrow> conn_le c c'"
proof (induction "is" arbitrary: c)
  case (Cons i "is")
  then obtain f f' old new where
    "complete_files (c\<lparr>cn_torrent := (cn_torrent c)\<lparr>mi_files := (mi_files (cn_torrent c))[i := Some f']\<rparr>,
                      cn_renames := cn_renames c @ [(old, new)]\<rparr>) is = Inr c'"
    by (auto simp: c_bind_eq_Inr split: option.splits)
  from Cons.IH [OF this] show ?case by (simp add: conn_le_def)
qed simp

lemma torrent_complete_le:
  assumes "torrent_complete c = Inr c'" and "sh_completed (cn_sh c)"
  shows "conn_le c c'"
proof -
  let ?s = "(cn_sh c)\<lparr>sh_completed := True, sh_state := TORRENT_STATE_SEEDING\<rparr>"
  have "conn_le c (upd_sh (\<lambda>_. ?s) c)" by (rule conn_le_step [OF sh_step.seed [OF assms(2)]])
  moreover have "upd_sh mark_complete c = upd_sh (\<lambda>_. ?s) c" by (simp add: upd_sh_def mark_complete_def)
  ultimately show ?thesis
    using assms(1) complete_files_le conn_le_trans by (auto simp: torrent_complete_def Let_def)
qed

lemma finish_piece_step:
  assumes "finish_piece n i s = Inr (don, s')" and "length (sh_piece_states s) = n"
  shows "(s' = s \<and> \<not> don) \<or> (sh_step s (Finish i) s' \<and> (don \<longrightarrow> sh_completed s'))"
proof (cases "i < n \<and> sh_piece_states s ! i \<noteq> PIECE_STATE_HAVE")
  case True
  let ?left = "size_sub (sh_pieces_left s) 1"
  have lt: "?left < n" using assms True by (auto simp: finish_piece_def Let_def c_bind_eq_Inr c_assert_def split: if_splits)
  have "sh_step s (Finish i) (s\<lparr>sh_piece_states := (sh_piece_states s)[i := PIECE_STATE_HAVE], sh_pieces_left := ?left,
      sh_completed := sh_completed s \<or> ?left = 0\<rparr>)"
    using True lt assms(2) by (intro sh_step.finish) auto
  then show ?thesis using assms True lt by (cases "?left = 0") (auto simp: finish_piece_def Let_def)
next
  case False
  then show ?thesis using assms by (auto simp: finish_piece_def arr_get_def split: if_splits)
qed

lemma handle_piece_dl_completion_le:
  assumes "handle_piece_dl_completion env c index = Inr c'" and "conn_ok c"
  shows "conn_le c c'"
proof -
  from assms(1) obtain don s' c1 rc c2 r where
    f: "finish_piece (info_num_pieces (mi_info (cn_torrent c))) index (cn_sh c) = Inr (don, s')"
    and t: "(if don then torrent_complete (upd_sh (\<lambda>_. s') c) else Inr (upd_sh (\<lambda>_. s') c)) = Inr c1"
    and s: "conn_send c1 (Have (of_nat index)) = Inr (rc, c2)" "notify_peers_have env c2 index = Inr (r, c')"
    by (auto simp: handle_piece_dl_completion_def c_bind_eq_Inr)
  have "upd_sh (\<lambda>_. cn_sh c) c = c" by (simp add: upd_sh_def)
  then have step: "conn_le c (upd_sh (\<lambda>_. s') c) \<and> (don \<longrightarrow> sh_completed s')"
    using finish_piece_step [OF f] assms(2) conn_le_step by (auto simp: conn_ok_def)
  moreover have "conn_le (upd_sh (\<lambda>_. s') c) c1"
    using t step torrent_complete_le [of "upd_sh (\<lambda>_. s') c" c1] by (auto split: if_splits)
  ultimately show ?thesis
    using conn_send_le [OF s(1)] notify_peers_have_le [OF s(2)] conn_le_trans by blast
qed

lemma piece_arrived_le:
  assumes "piece_arrived env c index = Inr c'" and "conn_ok c"
  shows "conn_le c c'"
proof -
  from assms(1) obtain valid h where v: "torrent_sha1_verify (ev_sha1 env) (cn_heap c) (cn_torrent c) (unat index) = Inr (valid, h)"
    by (auto simp: piece_arrived_def c_bind_eq_Inr)
  show ?thesis
  proof (cases valid)
    case True
    then have "handle_piece_dl_completion env (c\<lparr>cn_heap := h\<rparr>) (unat index) = Inr c'"
      using assms(1) v by (simp add: piece_arrived_def Let_def)
    from handle_piece_dl_completion_le [OF this] assms(2) show ?thesis by simp
  next
    case False
    then obtain s' where r: "reset_piece (unat index) (cn_sh c) = Inr s'" "c' = upd_sh (\<lambda>_. s') (c\<lparr>cn_heap := h\<rparr>)"
      using assms(1) v by (auto simp: piece_arrived_def Let_def c_bind_eq_Inr)
    have "sh_step (cn_sh c) (Reset (unat index)) s'"
      using r(1) by (auto simp: reset_piece_def c_bind_eq_Inr arr_set_def split: if_splits intro!: sh_step.reset)
    then have "conn_le (c\<lparr>cn_heap := h\<rparr>) c'" using conn_le_step [of "c\<lparr>cn_heap := h\<rparr>"] r(2) by simp
    then show ?thesis by simp
  qed
qed

lemma process_piece_loop_le: "process_piece_loop env msg c is = Inr c' \<Longrightarrow> conn_ok c \<Longrightarrow> conn_le c c'"
proof (induction "is" arbitrary: c)
  case (Cons i "is")
  from Cons.prems(1) obtain curr where g: "arr_get (da_values (cs_local_requests (cn_state c))) i = Inr curr"
    by (auto simp: c_bind_eq_Inr)
  show ?case
  proof (cases "pr_piece_index curr = pc_index msg")
    case False
    then show ?thesis using Cons g by simp
  next
    case True
    from Cons.prems(1) g True obtain curr' c2 where m: "mark_block (ev_lax env) msg curr = Inr curr'"
      "(if pr_blocks_left curr' = 0 then piece_arrived env (set_request i curr' c) (pr_piece_index curr')
        else Inr (set_request i curr' c)) = Inr c2" "process_piece_loop env msg c2 is = Inr c'"
      by (auto simp: c_bind_eq_Inr Let_def)
    have "conn_le c c2"
      using m(2) piece_arrived_le [of env "set_request i curr' c" "pr_piece_index curr'" c2] Cons.prems(2)
      by (auto split: if_splits)
    then show ?thesis using Cons.IH [OF m(3)] conn_le_ok Cons.prems(2) conn_le_trans by blast
  qed
qed simp

section \<open>Messages\<close>

lemma process_bitfield_le: "process_bitfield c b = Inr c' \<Longrightarrow> conn_le c c'"
  by (auto simp: process_bitfield_def c_bind_eq_Inr Let_def split: option.splits if_splits dest!: interest_le(1))

lemma process_have_le: "process_have c x = Inr c' \<Longrightarrow> conn_le c c'"
  by (auto simp: process_have_def c_bind_eq_Inr split: if_splits dest!: interest_le(1))

lemma process_msg_le:
  assumes "process_msg env c msg = Inr c'" and "conn_ok c"
  shows "conn_le c c'"
  using assms
  by (cases msg) (auto simp: process_msg_def process_piece_msg_def c_bind_eq_Inr
      dest!: process_bitfield_le process_have_le process_piece_loop_le)

section \<open>Requests\<close>

lemma next_scan_in:
  "next_scan states bf r is = Inr (nr, r') \<Longrightarrow>
   (nr = Some i \<longrightarrow> i \<in> set is \<and> i < length states \<and> states ! i \<noteq> PIECE_STATE_HAVE) \<and>
   (r' = Some i \<longrightarrow> r = Some i \<or> (i \<in> set is \<and> i < length states \<and> states ! i \<noteq> PIECE_STATE_HAVE))"
proof (induction "is" arbitrary: r)
  case (Cons j "is")
  from Cons.prems obtain s a b where j: "arr_get states j = Inr s"
    "(if s = PIECE_STATE_REQUESTED then BITFIELD_ISSET j bf else Inr False) = Inr a"
    "(if s = PIECE_STATE_NOT_REQUESTED then BITFIELD_ISSET j bf else Inr False) = Inr b"
    by (auto simp: c_bind_eq_Inr)
  have st: "j < length states" "states ! j = s" using j(1) by (auto simp: arr_get_def split: if_splits)
  have ab: "a \<Longrightarrow> s \<noteq> PIECE_STATE_HAVE" "b \<Longrightarrow> s \<noteq> PIECE_STATE_HAVE" using j(2,3) by (auto split: if_splits)
  have run: "next_scan states bf r (j # is) = (if b then Inr (Some j, if a then Some j else r)
      else next_scan states bf (if a then Some j else r) is)"
    using j by (simp add: Let_def)
  show ?case
  proof (cases b)
    case True
    then show ?thesis using Cons.prems run st ab by auto
  next
    case False
    then have "next_scan states bf (if a then Some j else r) is = Inr (nr, r')" using Cons.prems run by simp
    from Cons.IH [OF this] show ?thesis using st ab by (auto split: if_splits)
  qed
qed simp

lemma torrent_next_request_step:
  assumes "torrent_next_request n s bf = Inr (Some i, s')" and "length (sh_piece_states s) = n" and "n < 2 ^ 32"
  shows "sh_step s (Ask i) s'"
proof -
  from assms(1) obtain nr r j where scan: "next_scan (sh_piece_states s) bf None [0..<n] = Inr (nr, r)"
    and j: "(case nr of Some i \<Rightarrow> Some i | None \<Rightarrow> r) = Some j" and i: "i = unat (of_nat j :: u32)"
    and s': "arr_set (sh_piece_states s) i PIECE_STATE_REQUESTED = Inr (sh_piece_states s')"
      "s' = s\<lparr>sh_piece_states := sh_piece_states s'\<rparr>"
    by (auto simp: torrent_next_request_def c_bind_eq_Inr Let_def split: option.splits)
  have jn: "j \<in> set [0..<n] \<and> j < length (sh_piece_states s) \<and> sh_piece_states s ! j \<noteq> PIECE_STATE_HAVE"
    using next_scan_in [OF scan, of j] j by (auto split: option.splits)
  then have "i = j" using i assms(2,3) by (simp add: unat_of_nat)
  then show ?thesis
    using sh_step.ask [of j s] s' jn by (auto simp: arr_set_def split: if_splits)
qed

lemma send_blocks_le: "send_blocks now index c brs = Inr (rc, c') \<Longrightarrow> conn_le c c'"
proof (induction brs arbitrary: c)
  case (Cons br brs)
  show ?case
    using Cons.prems
    by (auto simp: c_bind_eq_Inr split: if_splits dest!: conn_send_le Cons.IH intro: conn_le_trans)
qed simp

lemma request_loop_le: "request_loop n now c = Inr (rc, ni, c') \<Longrightarrow> conn_ok c \<Longrightarrow> conn_le c c'"
proof (induction n arbitrary: c)
  case (Suc n)
  from Suc.prems(1) obtain r s' where nx: "torrent_next_request (info_num_pieces (mi_info (cn_torrent c))) (cn_sh c)
      (cs_peer_have (cn_state c)) = Inr (r, s')"
    by (auto simp: c_bind_eq_Inr)
  show ?case
  proof (cases r)
    case None
    then show ?thesis using Suc.prems(1) nx by simp
  next
    case (Some i)
    let ?c0 = "upd_sh (\<lambda>_. s') c"
    have "sh_step (cn_sh c) (Ask i) s'"
      using torrent_next_request_step nx Some Suc.prems(2) by (simp add: conn_ok_def)
    then have c0: "conn_le c ?c0" by (rule conn_le_step)
    from Suc.prems(1) nx Some obtain pr h1 lr h2 c1 rc1 c2 where
      c1: "c1 = (upd_state (\<lambda>s. s\<lparr>cs_local_requests := lr\<rparr>) ?c0)\<lparr>cn_heap := h2\<rparr>"
      and sb: "send_blocks now (pr_piece_index pr) c1 (da_values (pr_block_requests pr)) = Inr (rc1, c2)"
      and rest: "(if rc1 < 0 then Inr (-1, False, c2)
          else c_bind (piece_request_free pr) (\<lambda>freed. request_loop n now (set_request (da_len lr - 1) freed c2))) = Inr (rc, ni, c')"
      by (auto simp: c_bind_eq_Inr Let_def split: option.splits)
    have c2: "conn_le c c2" using c0 c1 send_blocks_le [OF sb] by (auto intro: conn_le_trans)
    show ?thesis
    proof (cases "rc1 < 0")
      case True
      then show ?thesis using rest c2 by simp
    next
      case False
      then obtain freed where "request_loop n now (set_request (da_len lr - 1) freed c2) = Inr (rc, ni, c')"
        using rest by (auto simp: c_bind_eq_Inr)
      from Suc.IH [OF this] c2 Suc.prems(2) conn_le_ok [OF c2] show ?thesis by (auto intro: conn_le_trans)
    qed
  qed
qed simp

lemma send_requests_le:
  assumes "send_requests now c = Inr (rc, c')" and "conn_ok c"
  shows "conn_le c c'"
proof -
  let ?n = "sint (of_nat (size_sub PEER_NUM_OUTSTANDING_REQUESTS (da_len (cs_local_requests (cn_state c)))) :: u32)"
  show ?thesis
  proof (cases "?n \<le> 0")
    case True
    then show ?thesis using assms(1) by (simp add: send_requests_def)
  next
    case False
    then obtain rc1 ni c1 where r: "request_loop (nat ?n) now c = Inr (rc1, ni, c1)"
      using assms(1) by (auto simp: send_requests_def Let_def c_bind_eq_Inr)
    have "conn_le c c1" by (rule request_loop_le [OF r assms(2)])
    then show ?thesis
      using assms(1) False r interest_le(2) [of c1]
      by (auto simp: send_requests_def Let_def c_bind_eq_Inr split: if_splits intro: conn_le_trans)
  qed
qed

section \<open>Receiving\<close>

text \<open>Receiving changes the torrent in its file contents at most, and consumes from the stream.\<close>

definition recv_frame :: "sock \<Rightarrow> metainfo_t \<Rightarrow> sock \<Rightarrow> metainfo_t \<Rightarrow> bool" where
  "recv_frame sk torrent sk' torrent' \<longleftrightarrow> length (sk_in sk') \<le> length (sk_in sk) \<and> (arrived sk \<longrightarrow> arrived sk') \<and>
     mi_info torrent' = mi_info torrent \<and> mi_max_peers torrent' = mi_max_peers torrent \<and> mi_sh torrent' = mi_sh torrent"

lemma peer_recv_shrinks:
  "peer_recv sk n = (rc, bs, sk') \<Longrightarrow> length (sk_in sk') \<le> length (sk_in sk) \<and> (arrived sk \<longrightarrow> arrived sk')"
  using rd.rd_prefix [of sk n rc bs sk'] peer_recv_arrived [of sk n rc bs sk'] by simp

lemma recv_mems_shrinks:
  "recv_mems sk files ms = Inr (rc, sk', files') \<Longrightarrow> length (sk_in sk') \<le> length (sk_in sk) \<and> (arrived sk \<longrightarrow> arrived sk')"
proof (induction ms arbitrary: sk files)
  case (Cons m ms)
  obtain r bs sk1 where p: "peer_recv sk (fm_size m) = (r, bs, sk1)" by (metis prod_cases3)
  show ?case
    using Cons.prems p peer_recv_shrinks [OF p]
    by (auto simp: c_bind_eq_Inr split: if_splits dest!: Cons.IH)
qed simp

lemma recv_then_eq:
  assumes "recv_then sk n fail k = x"
  obtains (fail) sk' where "fail sk' = x" "length (sk_in sk') \<le> length (sk_in sk)" "arrived sk \<longrightarrow> arrived sk'"
  | (ok) bs sk' where "k bs sk' = x" "length bs = n" "length (sk_in sk') + n = length (sk_in sk)" "arrived sk \<longrightarrow> arrived sk'"
proof -
  obtain rc bs sk' where p: "peer_recv sk n = (rc, bs, sk')" by (metis prod_cases3)
  show thesis
    using assms p rd.rd_rc [OF p] peer_recv_arrived [OF p] arg_cong [OF rd.rd_prefix [OF p], of length] fail [of sk'] ok [of bs sk']
    by (auto simp: recv_then_def)
qed

lemma recv_piece_frame:
  assumes "peer_msg_recv_piece h sk torrent len = Inr (m, sk', torrent', h')"
  shows "recv_frame sk torrent sk' torrent'"
  using assms unfolding peer_msg_recv_piece_def
proof (cases rule: recv_then_eq)
  case (fail sk1)
  then show ?thesis by (simp add: recv_frame_def)
next
  case (ok b1 sk1)
  note l1 = ok(3,4)
  from ok(1) show ?thesis unfolding Let_def
  proof (cases rule: recv_then_eq)
    case (fail sk2)
    then show ?thesis using l1 by (simp add: recv_frame_def)
  next
    case (ok b2 sk2)
    then show ?thesis
      using l1 by (auto simp: c_bind_eq_Inr recv_frame_def split: option.splits dest!: recv_mems_shrinks)
  qed
qed

lemma recv_payload_frame:
  assumes "recv_payload lit h sk torrent type len = Inr (m, sk', torrent', h')"
  shows "recv_frame sk torrent sk' torrent'"
proof (cases type)
  case MSG_PIECE
  then show ?thesis using assms by (auto simp: recv_payload_def c_bind_eq_Inr dest: recv_piece_frame)
next
  case MSG_BITFIELD
  then show ?thesis
    using assms unfolding recv_payload_def Let_def
    by (auto elim!: recv_then_eq simp: c_bind_eq_Inr recv_frame_def split: option.splits)
next
  case MSG_REQUEST
  then show ?thesis
    using assms unfolding recv_payload_def Let_def by (auto elim!: recv_then_eq simp: c_bind_eq_Inr recv_frame_def)
next
  case MSG_HAVE
  then show ?thesis
    using assms unfolding recv_payload_def Let_def by (auto elim!: recv_then_eq simp: c_bind_eq_Inr recv_frame_def)
next
  case MSG_PORT
  then show ?thesis
    using assms unfolding recv_payload_def Let_def by (auto elim!: recv_then_eq simp: c_bind_eq_Inr recv_frame_def)
qed (use assms in \<open>auto simp: recv_payload_def c_bind_eq_Inr recv_frame_def\<close>)

lemma peer_msg_recv_frame:
  assumes "peer_msg_recv lit h sk torrent = Inr (m, sk', torrent', h')"
  shows "recv_frame sk torrent sk' torrent'" and "m \<noteq> None \<Longrightarrow> length (sk_in sk') + 4 \<le> length (sk_in sk)"
proof -
  let ?P = "recv_frame sk torrent sk' torrent' \<and> (m \<noteq> None \<longrightarrow> length (sk_in sk') + 4 \<le> length (sk_in sk))"
  have ?P
    using assms unfolding peer_msg_recv_def Let_def
  proof (cases rule: recv_then_eq)
    case (fail sk0)
    then show ?thesis by (simp add: recv_frame_def)
  next
    case (ok b0 sk0)
    show ?thesis
    proof (cases "ntohl (mem_u32 b0) = 0")
      case True
      then show ?thesis using ok by (auto simp: recv_frame_def)
    next
      case False
      with ok(1) have "recv_then sk0 1 (\<lambda>sk'. Inr (None, sk', torrent, h)) (\<lambda>bt sk1.
          if unat (hd bt) \<ge> msg_code MSG_MAX then Inr (None, sk1, torrent, h) else
          if \<not> valid_len (msg_types ! unat (hd bt)) torrent (ntohl (mem_u32 b0)) then Inr (None, sk1, torrent, h)
          else recv_payload lit h sk1 torrent (msg_types ! unat (hd bt)) (ntohl (mem_u32 b0) - 1)) =
          Inr (m, sk', torrent', h')" by simp
      then show ?thesis
      proof (cases rule: recv_then_eq)
        case (fail sk1)
        then show ?thesis using ok(3,4) by (auto simp: recv_frame_def)
      next
        case (ok bt sk1)
        then show ?thesis
          using \<open>length (sk_in sk0) + 4 = length (sk_in sk)\<close> \<open>arrived sk \<longrightarrow> arrived sk0\<close>
          by (auto simp: recv_frame_def split: if_splits dest!: recv_payload_frame)
      qed
    qed
  qed
  then show "recv_frame sk torrent sk' torrent'" and "m \<noteq> None \<Longrightarrow> length (sk_in sk') + 4 \<le> length (sk_in sk)" by auto
qed

section \<open>A round of the main loop\<close>

text \<open>The effect on the shared state and the description of the torrent.\<close>

definition shared_le :: "conn_t \<Rightarrow> conn_t \<Rightarrow> bool" where
  "shared_le c c' \<longleftrightarrow> mi_info (cn_torrent c') = mi_info (cn_torrent c) \<and>
     mi_max_peers (cn_torrent c') = mi_max_peers (cn_torrent c) \<and> (\<exists>es. sh_run (cn_sh c) es (cn_sh c'))"

lemma conn_le_shared: "conn_le c c' \<Longrightarrow> shared_le c c'"
  by (simp add: conn_le_def shared_le_def)

lemma shared_le_refl [simp]: "shared_le c c"
  by (simp add: conn_le_shared)

lemma shared_le_trans: "shared_le c c1 \<Longrightarrow> shared_le c1 c2 \<Longrightarrow> shared_le c c2"
  unfolding shared_le_def using sh_run_append by metis

lemma shared_le_ok: "shared_le c c' \<Longrightarrow> conn_ok c \<Longrightarrow> conn_ok c'"
  by (auto simp: shared_le_def conn_ok_def dest: sh_run_length)

lemma recv_step_shared:
  assumes "recv_frame sk (cn_torrent c) sk' torrent'"
  shows "shared_le c (c\<lparr>cn_sock := sk', cn_torrent := torrent', cn_heap := h\<rparr>)"
  using assms sh_run.stop by (auto simp: recv_frame_def shared_le_def)

lemma queued_loop_shared: "queued_loop n env now c = Inr (rc, c') \<Longrightarrow> conn_ok c \<Longrightarrow> shared_le c c'"
proof (induction n arbitrary: c)
  case (Suc n)
  show ?case
  proof (cases "peer_msg_buff_nonempty (ev_junk env) (cn_sock c)")
    case False
    then show ?thesis using Suc.prems by simp
  next
    case True
    with Suc.prems(1) obtain m sk' torrent' h' where
      r: "peer_msg_recv (ev_lit env) (cn_heap c) (cn_sock c) (cn_torrent c) = Inr (m, sk', torrent', h')"
      by (auto simp: c_bind_eq_Inr)
    let ?c1 = "c\<lparr>cn_sock := sk', cn_torrent := torrent', cn_heap := h'\<rparr>"
    have c1: "shared_le c ?c1" by (rule recv_step_shared [OF peer_msg_recv_frame(1) [OF r]])
    show ?thesis
    proof (cases m)
      case None
      then show ?thesis using Suc.prems(1) True r c1 by simp
    next
      case (Some msg)
      with Suc.prems(1) True r obtain c2 where p: "process_msg env (?c1\<lparr>cn_last_msg := now\<rparr>) msg = Inr c2"
        "queued_loop n env now c2 = Inr (rc, c')" by (auto simp: c_bind_eq_Inr)
      have "conn_ok ?c1" by (rule shared_le_ok [OF c1 Suc.prems(2)])
      then have "conn_le ?c1 c2" using process_msg_le [OF p(1)] by simp
      then have c2: "shared_le c c2" using c1 conn_le_shared shared_le_trans by blast
      show ?thesis using Suc.IH [OF p(2) shared_le_ok [OF c2 Suc.prems(2)]] c2 shared_le_trans by blast
    qed
  qed
qed simp

text \<open>The parts of a round.\<close>

lemma round_top_le: "round_top now c = Inr (alive, c') \<Longrightarrow> conn_le c c'"
  by (auto simp: round_top_def c_bind_eq_Inr split: if_splits dest: conn_send_le)

lemma round_work_le:
  assumes "round_work now c = Inr (alive, c')" and "conn_ok c"
  shows "conn_le c c'"
  using assms(1) unfolding round_work_def
  by (auto simp: c_bind_eq_Inr split: if_splits dest: service_peer_requests_le send_requests_le [OF _ assms(2)])

lemma queued_messages_shared:
  "process_queued_messages env now c = Inr (rc, c') \<Longrightarrow> conn_ok c \<Longrightarrow> shared_le c c'"
  unfolding process_queued_messages_def by (rule queued_loop_shared)

lemma conn_round_shared:
  assumes "conn_round env now c = Inr (alive, c')" and "conn_ok c"
  shows "shared_le c c'"
proof -
  obtain al c1 where t: "round_top now c = Inr (al, c1)" using assms(1) by (auto simp: conn_round_def c_bind_eq_Inr)
  have c1: "shared_le c c1" by (rule conn_le_shared [OF round_top_le [OF t]])
  show ?thesis
  proof (cases al)
    case False
    then show ?thesis using assms(1) t c1 by (simp add: conn_round_def)
  next
    case True
    with assms(1) t obtain c2 rc c3 where
      h: "service_have_events env c1 = Inr c2" and q: "process_queued_messages env now c2 = Inr (rc, c3)"
      and w: "(if rc < 0 then Inr (False, c3) else round_work now c3) = Inr (alive, c')"
      by (auto simp: conn_round_def c_bind_eq_Inr)
    have c2: "shared_le c c2" using c1 conn_le_shared [OF service_have_events_le [OF h]] shared_le_trans by blast
    have c3: "shared_le c c3" using c2 queued_messages_shared [OF q shared_le_ok [OF c2 assms(2)]] shared_le_trans by blast
    show ?thesis
      using w c3 shared_le_trans [OF c3 conn_le_shared [OF round_work_le [OF _ shared_le_ok [OF c3 assms(2)]]]]
      by (auto split: if_splits)
  qed
qed

end
