(* ===== verification/Swarm_Reach.thy ===== *)
theory Swarm_Reach
  imports Swarm_System Connection_Start
begin

text \<open>
  The system of all threads on one torrent: connections are spawned, run rounds of their main loop and
  see arbitrary traffic on their sockets. The theorems lift the bookkeeping of the shared state to every
  reachable state of this system, show that the loop over the received messages ends, and that a block
  that completes a verified piece is recorded.
\<close>

section \<open>The loop over the received messages ends\<close>

text \<open>The iterations of the loop, one received and processed message each.\<close>

inductive msg_steps :: "env_t \<Rightarrow> int \<Rightarrow> conn_t \<Rightarrow> conn_t \<Rightarrow> bool" for env now where
  no_more: "msg_steps env now c c"
| one_more: "peer_msg_buff_nonempty (ev_junk env) (cn_sock c) \<Longrightarrow>
     peer_msg_recv (ev_lit env) (cn_heap c) (cn_sock c) (cn_torrent c) = Inr (Some msg, sk', torrent', h') \<Longrightarrow>
     process_msg env (c\<lparr>cn_sock := sk', cn_torrent := torrent', cn_heap := h', cn_last_msg := now\<rparr>) msg = Inr c2 \<Longrightarrow>
     msg_steps env now c2 c3 \<Longrightarrow> msg_steps env now c c3"

text \<open>How the loop stops at \<open>c\<close> with result \<open>r\<close>.\<close>

inductive msg_stop :: "env_t \<Rightarrow> int \<Rightarrow> conn_t \<Rightarrow> (int \<times> conn_t) c_result \<Rightarrow> bool" for env now where
  drained: "\<not> peer_msg_buff_nonempty (ev_junk env) (cn_sock c) \<Longrightarrow> msg_stop env now c (Inr (0, c))"
| rejected: "peer_msg_recv (ev_lit env) (cn_heap c) (cn_sock c) (cn_torrent c) = Inr (None, sk', torrent', h') \<Longrightarrow>
     msg_stop env now c (Inr (-1, c\<lparr>cn_sock := sk', cn_torrent := torrent', cn_heap := h'\<rparr>))"
| recv_fault: "peer_msg_recv (ev_lit env) (cn_heap c) (cn_sock c) (cn_torrent c) = Inl e \<Longrightarrow> msg_stop env now c (Inl e)"
| process_fault: "peer_msg_recv (ev_lit env) (cn_heap c) (cn_sock c) (cn_torrent c) = Inr (Some msg, sk', torrent', h') \<Longrightarrow>
     process_msg env (c\<lparr>cn_sock := sk', cn_torrent := torrent', cn_heap := h', cn_last_msg := now\<rparr>) msg = Inl e \<Longrightarrow>
     msg_stop env now c (Inl e)"

lemma msg_step_frame:
  assumes "peer_msg_recv (ev_lit env) (cn_heap c) (cn_sock c) (cn_torrent c) = Inr (Some msg, sk', torrent', h')"
    and "process_msg env (c\<lparr>cn_sock := sk', cn_torrent := torrent', cn_heap := h', cn_last_msg := now\<rparr>) msg = Inr c2"
    and "conn_ok c"
  shows "length (sk_in (cn_sock c2)) + 4 \<le> length (sk_in (cn_sock c))" and "conn_ok c2"
proof -
  let ?c1 = "c\<lparr>cn_sock := sk', cn_torrent := torrent', cn_heap := h', cn_last_msg := now\<rparr>"
  have ok1: "conn_ok ?c1"
    using shared_le_ok [OF recv_step_shared [OF peer_msg_recv_frame(1) [OF assms(1)]] assms(3)] by simp
  have le: "conn_le ?c1 c2" by (rule process_msg_le [OF assms(2) ok1])
  then have "sk_in (cn_sock c2) = sk_in sk'" by (simp add: conn_le_def in_part_def)
  then show "length (sk_in (cn_sock c2)) + 4 \<le> length (sk_in (cn_sock c))"
    using peer_msg_recv_frame(2) [OF assms(1)] by simp
  show "conn_ok c2" by (rule conn_le_ok [OF le ok1])
qed

lemma queued_loop_ends:
  "length (sk_in (cn_sock c)) < n \<Longrightarrow> conn_ok c \<Longrightarrow>
   \<exists>c1. msg_steps env now c c1 \<and> msg_stop env now c1 (queued_loop n env now c)"
proof (induction n arbitrary: c)
  case (Suc n)
  let ?recv = "peer_msg_recv (ev_lit env) (cn_heap c) (cn_sock c) (cn_torrent c)"
  show ?case
  proof (cases "peer_msg_buff_nonempty (ev_junk env) (cn_sock c)")
    case False
    then show ?thesis by (auto intro!: exI [of _ c] msg_steps.no_more msg_stop.drained)
  next
    case True
    consider (fault) e where "?recv = Inl e"
      | (none) sk' torrent' h' where "?recv = Inr (None, sk', torrent', h')"
      | (some) msg sk' torrent' h' where "?recv = Inr (Some msg, sk', torrent', h')"
      by (metis option.exhaust prod_cases4 sum.exhaust)
    then show ?thesis
    proof cases
      case fault
      then show ?thesis using True by (auto intro!: exI [of _ c] msg_steps.no_more msg_stop.recv_fault)
    next
      case none
      then show ?thesis using True by (auto intro!: exI [of _ c] msg_steps.no_more msg_stop.rejected)
    next
      case some
      show ?thesis
      proof (cases "process_msg env (c\<lparr>cn_sock := sk', cn_torrent := torrent', cn_heap := h', cn_last_msg := now\<rparr>) msg")
        case (Inl e)
        then show ?thesis using True some by (auto intro!: exI [of _ c] msg_steps.no_more msg_stop.process_fault)
      next
        case (Inr c2)
        note f = msg_step_frame [OF some Inr Suc.prems(2)]
        then obtain c1 where "msg_steps env now c2 c1" "msg_stop env now c1 (queued_loop n env now c2)"
          using Suc.IH [of c2] Suc.prems(1) by auto
        then show ?thesis using msg_steps.one_more [OF True some Inr] True some Inr by auto
      qed
    qed
  qed
qed simp

text \<open>
  C21. \<open>process_queued_messages\<close> always ends, and how: it processes messages one after the other until none
  is waiting (result 0), one is malformed or cut off (result \<open>-1\<close>), or receiving or processing one
  fails; the pending bytes bound the number of messages, so the model's fuel never runs out.
\<close>
theorem process_queued_messages_ends:
  assumes "length (sh_piece_states (cn_sh c)) = info_num_pieces (mi_info (cn_torrent c))"
    and "info_num_pieces (mi_info (cn_torrent c)) < 2 ^ 32"
  shows "\<exists>c1. msg_steps env now c c1 \<and> msg_stop env now c1 (process_queued_messages env now c)"
  unfolding process_queued_messages_def using assms by (intro queued_loop_ends) (simp_all add: conn_ok_def)

theorem process_queued_messages_ends_witness:
  "let c = (sample_conn [PIECE_STATE_HAVE] [0])\<lparr>cn_sock := plain_sock [0, 0, 0, 1, 2]\<rparr>
   in \<exists>c1. msg_steps (sample_env False) 0 c c1 \<and> msg_stop (sample_env False) 0 c1 (process_queued_messages (sample_env False) 0 c)"
  unfolding Let_def by (rule process_queued_messages_ends) simp_all

section \<open>A thread step by step\<close>

text \<open>One iteration of the loop over the received messages; the loop is the iteration of it.\<close>

datatype msg_outcome = Drained | Broken | More

definition one_msg :: "env_t \<Rightarrow> int \<Rightarrow> conn_t \<Rightarrow> (msg_outcome \<times> conn_t) c_result" where
  "one_msg env now c =
     (if \<not> peer_msg_buff_nonempty (ev_junk env) (cn_sock c) then Inr (Drained, c)
      else c_bind (peer_msg_recv (ev_lit env) (cn_heap c) (cn_sock c) (cn_torrent c)) (\<lambda>(m, sk', torrent', h').
             let c1 = c\<lparr>cn_sock := sk', cn_torrent := torrent', cn_heap := h'\<rparr> in
             case m of
               None \<Rightarrow> Inr (Broken, c1)
             | Some msg \<Rightarrow> c_bind (process_msg env (c1\<lparr>cn_last_msg := now\<rparr>) msg) (\<lambda>c2. Inr (More, c2))))"

lemma queued_loop_one_msg:
  "queued_loop (Suc n) env now c =
     c_bind (one_msg env now c) (\<lambda>(r, c').
       case r of Drained \<Rightarrow> Inr (0, c') | Broken \<Rightarrow> Inr (-1, c') | More \<Rightarrow> queued_loop n env now c')"
  by (auto simp: one_msg_def c_bind_def Let_def split: sum.splits option.splits)

lemma one_msg_shared:
  assumes "one_msg env now c = Inr (r, c')" and "conn_ok c"
  shows "shared_le c c'"
proof (cases "peer_msg_buff_nonempty (ev_junk env) (cn_sock c)")
  case False
  then show ?thesis using assms(1) by (simp add: one_msg_def)
next
  case True
  with assms(1) obtain m sk' torrent' h' where
    r: "peer_msg_recv (ev_lit env) (cn_heap c) (cn_sock c) (cn_torrent c) = Inr (m, sk', torrent', h')"
    by (auto simp: one_msg_def c_bind_eq_Inr)
  let ?c1 = "c\<lparr>cn_sock := sk', cn_torrent := torrent', cn_heap := h'\<rparr>"
  have c1: "shared_le c ?c1" by (rule recv_step_shared [OF peer_msg_recv_frame(1) [OF r]])
  show ?thesis
  proof (cases m)
    case None
    then show ?thesis using assms(1) True r c1 by (simp add: one_msg_def)
  next
    case (Some msg)
    then have p: "process_msg env (?c1\<lparr>cn_last_msg := now\<rparr>) msg = Inr c'"
      using assms(1) True r by (auto simp: one_msg_def c_bind_eq_Inr)
    have "conn_le ?c1 c'" using process_msg_le [OF p] shared_le_ok [OF c1 assms(2)] by simp
    then show ?thesis using c1 conn_le_shared shared_le_trans by blast
  qed
qed

text \<open>Where a thread is in its main loop, and its next step from there; \<open>None\<close>: it leaves the loop.\<close>

datatype phase = At_Top | At_Events | At_Messages | At_Work

definition thread_step :: "env_t \<Rightarrow> int \<Rightarrow> phase \<Rightarrow> conn_t \<Rightarrow> (phase option \<times> conn_t) c_result" where
  "thread_step env now ph c =
     (case ph of
        At_Top \<Rightarrow> c_bind (round_top now c) (\<lambda>(alive, c'). Inr (if alive then Some At_Events else None, c'))
      | At_Events \<Rightarrow> c_bind (service_have_events env c) (\<lambda>c'. Inr (Some At_Messages, c'))
      | At_Messages \<Rightarrow> c_bind (one_msg env now c) (\<lambda>(r, c').
          Inr (case r of Drained \<Rightarrow> Some At_Work | Broken \<Rightarrow> None | More \<Rightarrow> Some At_Messages, c'))
      | At_Work \<Rightarrow> c_bind (round_work now c) (\<lambda>(alive, c'). Inr (if alive then Some At_Top else None, c')))"

lemma thread_step_shared:
  assumes "thread_step env now ph c = Inr (r, c')" and "conn_ok c"
  shows "shared_le c c'"
proof (cases ph)
  case At_Messages
  then show ?thesis using assms one_msg_shared by (auto simp: thread_step_def c_bind_eq_Inr)
qed (use assms in \<open>auto simp: thread_step_def c_bind_eq_Inr
      intro: conn_le_shared [OF round_top_le] conn_le_shared [OF service_have_events_le] conn_le_shared [OF round_work_le]\<close>)

section \<open>All threads\<close>

record swarm =
  sw_torrent :: metainfo_t
  sw_queues :: "string \<rightharpoonup> mqueue"
  sw_conns :: "(phase \<times> conn_t) list"

text \<open>A thread works on the shared torrent and message queues.\<close>

definition view :: "swarm \<Rightarrow> conn_t \<Rightarrow> conn_t" where
  "view s c = c\<lparr>cn_torrent := sw_torrent s, cn_queues := sw_queues s\<rparr>"

definition publish :: "swarm \<Rightarrow> conn_t \<Rightarrow> swarm" where
  "publish s c = s\<lparr>sw_torrent := cn_torrent c, sw_queues := cn_queues c\<rparr>"

text \<open>
  The threads' steps interleave between the parts of their rounds and between messages. A step reads and
  writes the shared torrent as the other threads left it.
\<close>

inductive swarm_step :: "env_t \<Rightarrow> swarm \<Rightarrow> swarm \<Rightarrow> bool" for env where
  spawn: "peer_connection_start env peer_id now (view s c) = Inr (True, c') \<Longrightarrow>
     swarm_step env s ((publish s c')\<lparr>sw_conns := sw_conns s @ [(At_Top, c')]\<rparr>)"
| give_up: "peer_connection_start env peer_id now (view s c) = Inr (False, c') \<Longrightarrow> swarm_step env s (publish s c')"
| advance: "i < length (sw_conns s) \<Longrightarrow> sw_conns s ! i = (ph, c) \<Longrightarrow> thread_step env now ph (view s c) = Inr (Some ph', c') \<Longrightarrow>
     swarm_step env s ((publish s c')\<lparr>sw_conns := (sw_conns s)[i := (ph', c')]\<rparr>)"
| leave: "i < length (sw_conns s) \<Longrightarrow> sw_conns s ! i = (ph, c) \<Longrightarrow> thread_step env now ph (view s c) = Inr (None, c') \<Longrightarrow>
     queue_cleanup env c' = Inr c'' \<Longrightarrow>
     swarm_step env s ((publish s c'')\<lparr>sw_conns := take i (sw_conns s) @ drop (Suc i) (sw_conns s)\<rparr>)"
| network: "i < length (sw_conns s) \<Longrightarrow> sw_conns s ! i = (ph, c) \<Longrightarrow>
     swarm_step env s (s\<lparr>sw_conns := (sw_conns s)[i := (ph, c\<lparr>cn_sock := sk\<rparr>)]\<rparr>)"

definition swarm_run :: "env_t \<Rightarrow> metainfo_t \<Rightarrow> swarm \<Rightarrow> bool" where
  "swarm_run env torrent = (swarm_step env)\<^sup>*\<^sup>* \<lparr>sw_torrent = torrent, sw_queues = Map.empty, sw_conns = []\<rparr>"

inductive_cases swarm_stepE: "swarm_step env s s'"

lemma shared_le_frame [simp]:
  "shared_le c (c'\<lparr>cn_sock := sk\<rparr>) = shared_le c c'" "shared_le c (c'\<lparr>cn_state := st\<rparr>) = shared_le c c'"
  "shared_le c (c'\<lparr>cn_heap := h\<rparr>) = shared_le c c'" "shared_le c (c'\<lparr>cn_last_msg := t\<rparr>) = shared_le c c'"
  "shared_le c (c'\<lparr>cn_last_sent := t\<rparr>) = shared_le c c'" "shared_le c (c'\<lparr>cn_queues := q\<rparr>) = shared_le c c'"
  by (simp_all add: shared_le_def)

lemma queue_open_shared: "peer_queue_open env c = Inr (r, c') \<Longrightarrow> shared_le c c'"
  by (auto simp: peer_queue_open_def c_bind_eq_Inr split: option.splits if_splits)

lemma queue_cleanup_shared: "queue_cleanup env c = Inr c' \<Longrightarrow> shared_le c c'"
  by (auto simp: queue_cleanup_def c_bind_eq_Inr)

lemma start_shared:
  assumes "peer_connection_start env peer_id now c = Inr (r, c')"
  shows "shared_le c c'"
proof -
  have opened: "shared_le c c1" if "peer_queue_open env (c\<lparr>cn_sock := sk'\<rparr>) = Inr (q, c1)" for sk' q c1
    using shared_le_trans [OF _ queue_open_shared [OF that]] by simp
  have sent: "shared_le c c2" if "conn_send (c1\<lparr>cn_state := st, cn_heap := h2\<rparr>) m = Inr (rc, c2)" and "shared_le c c1" for c1 st h2 m rc c2
    using shared_le_trans [OF _ conn_le_shared [OF conn_send_le [OF that(1)]]] that(2) by simp
  from assms show ?thesis
  proof (cases rule: start_cases)
    case (no_state sk' q c1 h1)
    then show ?thesis using shared_le_trans [OF _ queue_cleanup_shared [OF no_state(3)], of c] opened by simp
  next
    case (unsent sk' q c1 st h2 b rc c2)
    then show ?thesis using shared_le_trans [OF sent queue_cleanup_shared] opened by blast
  next
    case (running sk' q c1 st h2 b rc c2 c3)
    then have "shared_le c c3" using shared_le_trans [OF sent conn_le_shared [OF interest_le(3)]] opened by blast
    then show ?thesis using running(5) by simp
  qed (use opened in auto)
qed

definition torrent_inv :: "info_t \<Rightarrow> metainfo_t \<Rightarrow> bool" where
  "torrent_inv info torrent \<longleftrightarrow> mi_info torrent = info \<and> sh_inv (info_num_pieces info) (mi_sh torrent)"

lemma torrent_inv_shared:
  assumes "shared_le (view s c) c'" and "torrent_inv info (sw_torrent s)" and "info_num_pieces info < 2 ^ 32"
  shows "torrent_inv info (cn_torrent c')"
  using assms sh_inv_run by (auto simp: shared_le_def torrent_inv_def view_def)

lemma swarm_step_shared:
  assumes "swarm_step env s s'" and "torrent_inv info (sw_torrent s)" and "info_num_pieces info < 2 ^ 32"
  obtains "sw_torrent s' = sw_torrent s" | c t where "shared_le (view s c) t" "sw_torrent s' = cn_torrent t"
proof -
  have ok: "conn_ok (view s c)" for c
    using assms(2,3) by (simp add: conn_ok_def view_def torrent_inv_def sh_inv_def)
  show thesis
    using assms(1)
  proof (cases rule: swarm_step.cases)
    case (leave i ph c now c' c'')
    then show thesis using that(2) shared_le_trans [OF thread_step_shared [OF leave(4) ok] queue_cleanup_shared] by (auto simp: publish_def)
  next
    case (network i ph c sk)
    then show thesis using that(1) by simp
  qed (auto simp: publish_def intro: that(2) start_shared thread_step_shared [OF _ ok])
qed

lemma swarm_step_inv:
  assumes "swarm_step env s s'" and "torrent_inv info (sw_torrent s)" and "info_num_pieces info < 2 ^ 32"
  shows "torrent_inv info (sw_torrent s')"
  by (rule swarm_step_shared [OF assms]) (use assms(2) torrent_inv_shared [OF _ assms(2,3)] in auto)

interpretation sw: step_system "swarm_step env" "\<lambda>s. torrent_inv info (sw_torrent s) \<and> info_num_pieces info < 2 ^ 32" for env info
  by unfold_locales (use swarm_step_inv in blast)

lemma swarm_run_inv:
  assumes "swarm_run env torrent s" and "sh_fresh n (mi_sh torrent)" and "n = info_num_pieces (mi_info torrent)" and "n < 2 ^ 32"
  shows "torrent_inv (mi_info torrent) (sw_torrent s)"
  using sw.run_inv [OF assms(1) [unfolded swarm_run_def], of "mi_info torrent"] sh_fresh_inv [OF assms(2)] assms(3,4)
  by (simp add: torrent_inv_def)

section \<open>A round is a run of the steps\<close>

definition put_conn :: "swarm \<Rightarrow> nat \<Rightarrow> phase \<Rightarrow> conn_t \<Rightarrow> swarm" where
  "put_conn s i ph c = (publish s c)\<lparr>sw_conns := (sw_conns s)[i := (ph, c)]\<rparr>"

definition drop_conn :: "swarm \<Rightarrow> nat \<Rightarrow> conn_t \<Rightarrow> swarm" where
  "drop_conn s i c = (publish s c)\<lparr>sw_conns := take i (sw_conns s) @ drop (Suc i) (sw_conns s)\<rparr>"

lemma put_conn_simps [simp]:
  "view (put_conn s i ph c) c = c" "length (sw_conns (put_conn s i ph c)) = length (sw_conns s)"
  "i < length (sw_conns s) \<Longrightarrow> sw_conns (put_conn s i ph c) ! i = (ph, c)"
  "put_conn (put_conn s i ph c) i ph' c' = put_conn s i ph' c'" "drop_conn (put_conn s i ph c) i c' = drop_conn s i c'"
  by (simp_all add: put_conn_def drop_conn_def publish_def view_def)

lemma first_step:
  assumes "i < length (sw_conns s)" and "sw_conns s ! i = (ph, c)"
  shows "thread_step env now ph (view s c) = Inr (Some ph', c') \<Longrightarrow> swarm_step env s (put_conn s i ph' c')"
    and "thread_step env now ph (view s c) = Inr (None, c') \<Longrightarrow> queue_cleanup env c' = Inr c'' \<Longrightarrow> swarm_step env s (drop_conn s i c'')"
  using swarm_step.advance [OF assms] swarm_step.leave [OF assms] by (simp_all add: put_conn_def drop_conn_def)

lemma later_step:
  assumes "i < length (sw_conns s)"
  shows "thread_step env now ph c = Inr (Some ph', c') \<Longrightarrow> swarm_step env (put_conn s i ph c) (put_conn s i ph' c')"
    and "thread_step env now ph c = Inr (None, c') \<Longrightarrow> queue_cleanup env c' = Inr c'' \<Longrightarrow>
      swarm_step env (put_conn s i ph c) (drop_conn s i c'')"
  using first_step [of i "put_conn s i ph c" ph c] assms by simp_all

lemma messages_run:
  assumes "i < length (sw_conns s)"
  shows "queued_loop n env now c = Inr (rc, c') \<Longrightarrow>
    if rc < 0 then \<forall>c''. queue_cleanup env c' = Inr c'' \<longrightarrow> (swarm_step env)\<^sup>*\<^sup>* (put_conn s i At_Messages c) (drop_conn s i c'')
    else (swarm_step env)\<^sup>*\<^sup>* (put_conn s i At_Messages c) (put_conn s i At_Work c')"
proof (induction n arbitrary: c)
  case (Suc n)
  obtain r c1 where r: "one_msg env now c = Inr (r, c1)"
    and rest: "(case r of Drained \<Rightarrow> Inr (0, c1) | Broken \<Rightarrow> Inr (-1, c1) | More \<Rightarrow> queued_loop n env now c1) = Inr (rc, c')"
    using Suc.prems unfolding queued_loop_one_msg by (auto simp: c_bind_eq_Inr)
  show ?case
  proof (cases r)
    case Drained
    then have "thread_step env now At_Messages c = Inr (Some At_Work, c1)" using r by (simp add: thread_step_def)
    then show ?thesis using rest Drained later_step(1) [OF assms] by (auto intro!: r_into_rtranclp)
  next
    case Broken
    then have "thread_step env now At_Messages c = Inr (None, c1)" using r by (simp add: thread_step_def)
    then show ?thesis using rest Broken later_step(2) [OF assms] by (auto intro!: r_into_rtranclp)
  next
    case More
    then have "swarm_step env (put_conn s i At_Messages c) (put_conn s i At_Messages c1)"
      using r by (intro later_step(1) [OF assms, of env now]) (simp add: thread_step_def)
    then show ?thesis using Suc.IH [of c1] rest More by (auto intro: converse_rtranclp_into_rtranclp)
  qed
qed simp

lemma work_run:
  assumes "i < length (sw_conns s)" and "round_work now c = Inr (alive, c')"
  shows "if alive then (swarm_step env)\<^sup>*\<^sup>* (put_conn s i At_Work c) (put_conn s i At_Top c')
    else \<forall>c''. queue_cleanup env c' = Inr c'' \<longrightarrow> (swarm_step env)\<^sup>*\<^sup>* (put_conn s i At_Work c) (drop_conn s i c'')"
  using later_step [OF assms(1), of env now At_Work c] assms(2) by (auto simp: thread_step_def intro!: r_into_rtranclp)

text \<open>
  A round of a thread's main loop, as the code writes it, is a run of the small steps of the system in which no
  other thread steps in between: the round that goes on leads back to the top of the loop, the round that
  ends removes the thread and its message queue. What holds of all interleavings holds of it.
\<close>
lemma conn_round_refines:
  assumes "i < length (sw_conns s)" and "sw_conns s ! i = (At_Top, c)" and "conn_round env now (view s c) = Inr (alive, c')"
  shows "if alive then (swarm_step env)\<^sup>*\<^sup>* s (put_conn s i At_Top c')
    else \<forall>c''. queue_cleanup env c' = Inr c'' \<longrightarrow> (swarm_step env)\<^sup>*\<^sup>* s (drop_conn s i c'')"
proof -
  note go = later_step(1) [OF assms(1)]
  obtain al c1 where t: "round_top now (view s c) = Inr (al, c1)" using assms(3) by (auto simp: conn_round_def c_bind_eq_Inr)
  show ?thesis
  proof (cases al)
    case False
    then have "thread_step env now At_Top (view s c) = Inr (None, c')" "\<not> alive" using assms(3) t by (auto simp: conn_round_def thread_step_def)
    then show ?thesis using first_step(2) [OF assms(1,2)] by (auto intro!: r_into_rtranclp)
  next
    case True
    with assms(3) t obtain c2 rc c3 where h: "service_have_events env c1 = Inr c2" and q: "process_queued_messages env now c2 = Inr (rc, c3)"
      and w: "(if rc < 0 then Inr (False, c3) else round_work now c3) = Inr (alive, c')"
      by (auto simp: conn_round_def c_bind_eq_Inr)
    have "swarm_step env s (put_conn s i At_Events c1)"
      using t True by (intro first_step(1) [OF assms(1,2), of env now]) (simp add: thread_step_def)
    moreover have "swarm_step env (put_conn s i At_Events c1) (put_conn s i At_Messages c2)"
      using h by (intro go [of env now]) (simp add: thread_step_def)
    ultimately have start: "(swarm_step env)\<^sup>*\<^sup>* s (put_conn s i At_Messages c2)" by (meson converse_rtranclp_into_rtranclp r_into_rtranclp)
    note m = messages_run [OF assms(1) q [unfolded process_queued_messages_def]]
    show ?thesis
    proof (cases "rc < 0")
      case True
      then show ?thesis using m w start by (auto intro: rtranclp_trans)
    next
      case False
      then have at: "(swarm_step env)\<^sup>*\<^sup>* s (put_conn s i At_Work c3)" using m start by (auto intro: rtranclp_trans)
      from work_run [OF assms(1), of now c3 alive c' env] w False show ?thesis using at by (auto split: if_splits intro: rtranclp_trans)
    qed
  qed
qed

section \<open>Properties\<close>

text \<open>
  C16. The threads' critical sections are the steps of the transition system: choosing a piece asks for it,
  finishing a piece and resetting it change the shared state as their events say, or not at all, and marking a
  completed torrent as seeding is the event for it.
\<close>
theorem critical_sections_refine:
  assumes "length (sh_piece_states s) = n" and "n < 2 ^ 32"
  shows "(torrent_next_request n s bf = Inr (Some i, s1) \<longrightarrow> sh_step s (Ask i) s1) \<and>
    (torrent_next_request n s bf = Inr (None, s2) \<longrightarrow> s2 = s) \<and>
    (finish_piece n i s = Inr (b, s3) \<longrightarrow> s3 = s \<or> sh_step s (Finish i) s3) \<and>
    (reset_piece i s = Inr s4 \<longrightarrow> sh_step s (Reset i) s4) \<and>
    (sh_completed s \<longrightarrow> sh_step s Seed (mark_complete s))"
proof (intro conjI impI)
  show "sh_step s (Ask i) s1" if "torrent_next_request n s bf = Inr (Some i, s1)"
    by (rule torrent_next_request_step [OF that assms])
  show "s2 = s" if "torrent_next_request n s bf = Inr (None, s2)"
    using that by (auto simp: torrent_next_request_def c_bind_eq_Inr Let_def split: option.splits)
  show "s3 = s \<or> sh_step s (Finish i) s3" if "finish_piece n i s = Inr (b, s3)"
    using finish_piece_step [OF that assms(1)] by blast
  show "sh_step s (Reset i) s4" if "reset_piece i s = Inr s4"
    using that by (auto simp: reset_piece_def c_bind_eq_Inr arr_set_def split: if_splits intro!: sh_step.reset)
  show "sh_step s Seed (mark_complete s)" if "sh_completed s" using sh_step.seed [OF that] by (simp add: mark_complete_def)
qed

theorem critical_sections_refine_witness:
  "let s = mi_sh (sample_swarm [PIECE_STATE_REQUESTED])
   in sh_step s (Reset 0) (s\<lparr>sh_piece_states := [PIECE_STATE_NOT_REQUESTED]\<rparr>)"
  unfolding Let_def
  using critical_sections_refine [of "mi_sh (sample_swarm [PIECE_STATE_REQUESTED])" 1 undefined 0 undefined undefined undefined undefined
      "(mi_sh (sample_swarm [PIECE_STATE_REQUESTED]))\<lparr>sh_piece_states := [PIECE_STATE_NOT_REQUESTED]\<rparr>"]
  by (simp add: reset_piece_def)

text \<open>
  C14. The whole system. In every state that the threads of a fresh torrent can reach (connections that
  start, run their main loop and leave, interleaved between the parts of a round and between messages, with
  arbitrary traffic on every socket), the torrent's
  description is unchanged, the shared state has its shape, \<open>pieces_left\<close> never exceeds the number of
  missing pieces, the torrent is completed only when the counter is zero, and it seeds only when it is
  completed.
\<close>
theorem swarm_keeps_invariant:
  assumes "swarm_run env torrent s" and "sh_fresh n (mi_sh torrent)" and "n = info_num_pieces (mi_info torrent)" and "n < 2 ^ 32"
  shows "mi_info (sw_torrent s) = mi_info torrent \<and> length (sh_piece_states (mi_sh (sw_torrent s))) = n \<and>
    sh_pieces_left (mi_sh (sw_torrent s)) \<le> missing (mi_sh (sw_torrent s)) \<and>
    (sh_completed (mi_sh (sw_torrent s)) \<longrightarrow> sh_pieces_left (mi_sh (sw_torrent s)) = 0) \<and>
    (sh_state (mi_sh (sw_torrent s)) = TORRENT_STATE_SEEDING \<longrightarrow> sh_completed (mi_sh (sw_torrent s)))"
  using swarm_run_inv [OF assms] assms(3) by (simp add: torrent_inv_def sh_inv_def)

lemma fresh_sample: "sh_fresh (length ps) (mi_sh (sample_swarm ps))" if "ps = replicate (length ps) PIECE_STATE_NOT_REQUESTED"
  using that by (simp add: sh_fresh_def, simp add: sample_swarm_def sample_torrent_def)

text \<open>The example is the state after one connection has started.\<close>

theorem swarm_keeps_invariant_witness:
  "\<exists>c. swarm_run (sample_env False) (sample_swarm [PIECE_STATE_NOT_REQUESTED])
        \<lparr>sw_torrent = cn_torrent c, sw_queues = cn_queues c, sw_conns = [(At_Top, c)]\<rparr> \<and>
    length (sh_piece_states (mi_sh (cn_torrent c))) = 1 \<and> sh_pieces_left (cn_sh c) \<le> missing (cn_sh c)"
proof -
  let ?t = "sample_swarm [PIECE_STATE_NOT_REQUESTED]"
  let ?s0 = "\<lparr>sw_torrent = ?t, sw_queues = Map.empty, sw_conns = []\<rparr>"
  have "view ?s0 greeted_conn = greeted_conn" by (simp add: view_def greeted_conn_def sample_conn_def)
  then obtain c' where "peer_connection_start (sample_env False) (replicate 20 1) 0 (view ?s0 greeted_conn) = Inr (True, c')"
    using greeted_conn_starts by auto
  then have "swarm_step (sample_env False) ?s0 ((publish ?s0 c')\<lparr>sw_conns := sw_conns ?s0 @ [(At_Top, c')]\<rparr>)" by (rule swarm_step.spawn)
  then have run: "swarm_run (sample_env False) ?t \<lparr>sw_torrent = cn_torrent c', sw_queues = cn_queues c', sw_conns = [(At_Top, c')]\<rparr>"
    using r_into_rtranclp [of "swarm_step (sample_env False)"] by (simp add: publish_def swarm_run_def)
  have "sh_fresh 1 (mi_sh ?t)" using fresh_sample [of "[PIECE_STATE_NOT_REQUESTED]"] by simp
  from swarm_keeps_invariant [OF run this] show ?thesis using run by (intro exI [of _ c']) simp
qed

end
