(* ===== verification/Connection_Loop.thy ===== *)
theory Connection_Loop
  imports Swarm_Reach
begin

text \<open>
  The whole connection thread on a peer that answers the handshake and then says nothing: it waits, round
  after round, and after two minutes gives up its socket and its message queue.
\<close>

section \<open>An idle connection\<close>

text \<open>Nothing has arrived, nothing waits to be served, and nothing may be requested.\<close>

definition idle :: "env_t \<Rightarrow> string \<Rightarrow> conn_t \<Rightarrow> bool" where
  "idle env own c \<longleftrightarrow> sk_in (cn_sock c) = [] \<and> q_size (cs_peer_requests (cn_state c)) = 0 \<and>
     ps_choked (cs_local (cn_state c)) \<and> cn_last_sent c = -1 \<and>
     peer_connection_queue_name (ev_tmem env (cn_self c)) 64 = Inr own \<and>
     (\<exists>q. cn_queues c own = Some q \<and> mq_msgs q = [])"

lemma empty_no_message: "sk_in sk = [] \<Longrightarrow> \<not> peer_msg_buff_nonempty junk sk"
  by (auto simp: peer_msg_buff_nonempty_def peek_def Let_def)

lemma no_have_events:
  assumes "peer_connection_queue_name (ev_tmem env (cn_self c)) 64 = Inr own" and "cn_queues c own = Some q" and "mq_msgs q = []"
  shows "service_have_events env c = Inr c"
proof -
  have "q\<lparr>mq_msgs := []\<rparr> = q" using assms(3) by simp
  then have "(cn_queues c)(own \<mapsto> q\<lparr>mq_msgs := []\<rparr>) = cn_queues c" using assms(2) by auto
  then show ?thesis using assms by (simp add: service_have_events_def)
qed

lemma idle_round:
  assumes "idle env own c"
  shows "conn_round env t c = Inr (t - cn_last_msg c \<le> PEER_TIMEOUT_SEC, c)"
proof -
  have e: "service_have_events env c = Inr c" using assms no_have_events by (auto simp: idle_def)
  have m: "process_queued_messages env t c = Inr (0, c)"
    using assms empty_no_message by (simp add: process_queued_messages_def idle_def)
  show ?thesis
    using assms e m by (auto simp: conn_round_def round_top_def round_work_def idle_def)
qed

lemma idle_loop:
  assumes "idle env own c"
  shows "conn_loop env ts c = Inr (\<forall>t \<in> set ts. t - cn_last_msg c \<le> PEER_TIMEOUT_SEC, c)"
  by (induction ts) (simp_all add: idle_round [OF assms])

section \<open>The whole thread\<close>

lemma started_frame:
  assumes "peer_connection_start env peer_id now c = Inr (True, c')"
    and "peer_connection_queue_name (ev_tmem env (cn_self c)) 64 = Inr own" and "cn_queues c own = None"
  shows "cn_self c' = cn_self c \<and> (\<exists>q. cn_queues c' = (cn_queues c)(own \<mapsto> q) \<and> mq_msgs q = [])"
  using assms(1)
proof (cases rule: start_cases)
  case (running sk' q c1 st h2 b rc c2 c3)
  have "cn_self c1 = cn_self c" "\<exists>q. cn_queues c1 = (cn_queues c)(own \<mapsto> q) \<and> mq_msgs q = []"
    using running(2,6) assms(2,3) by (auto simp: peer_queue_open_def c_bind_eq_Inr split: if_splits)
  moreover have "cn_self c3 = cn_self c1" "cn_queues c3 = cn_queues c1"
    using running(3,4) by (auto simp: conn_send_def unchoke_def c_bind_eq_Inr upd_state_def split: if_splits)
  ultimately show ?thesis using running(5) by simp
qed simp_all

lemma connects:
  assumes "0 \<le> co_socket os" and "co_socket os < 1024" and "co_connect os \<ge> 0 \<or> co_inprogress os" and "co_select os \<noteq> 0" and "co_so_error os = 0"
  shows "thread_socket os (-1) = Inr (co_socket os, [])"
  using assms by (auto simp: thread_socket_def peer_connect_def Let_def)

text \<open>
  C31. A peer that answers the handshake and then closes its side or stays silent: the thread keeps waiting as
  long as its clock has not passed two minutes, and in the first round after them it leaves, having closed
  its socket and removed its message queue.
\<close>
theorem silent_peer_dropped:
  assumes "0 \<le> co_socket os" and "co_socket os < 1024" and "co_connect os \<ge> 0 \<or> co_inprogress os" and "co_select os \<noteq> 0" and "co_so_error os = 0"
    and "heap_ok (cn_heap c)" and "length (mi_info_hash (cn_torrent c)) = 20" and "length peer_id = 20" and "sk_room (cn_sock c) = None"
    and "sk_in (cn_sock c) = (19 # pstr) @ reserved @ mi_info_hash (cn_torrent c) @ pid" and "length reserved = 8" and "length pid = 20"
    and "n = info_num_pieces (mi_info (cn_torrent c))" and "length (sh_piece_states (cn_sh c)) = n" and "BITFIELD_NUM_BYTES n < 2 ^ 16"
    and "length (ev_tmem env (cn_self c)) = 8" and "\<forall>name. ev_mq_open env name"
    and "peer_connection_queue_name (ev_tmem env (cn_self c)) 64 = Inr own" and "cn_queues c own = None"
  shows "\<exists>c'. if \<forall>t \<in> set ts. t \<le> now + 120
    then peer_connection env os (-1) peer_id now ts c = Inr (True, [], c')
    else peer_connection env os (-1) peer_id now ts c = Inr (False, [co_socket os], c') \<and> cn_queues c' = cn_queues c"
proof -
  have input: "sk_in (cn_sock c) = (19 # pstr) @ reserved @ mi_info_hash (cn_torrent c) @ pid @ []" using assms(10) by simp
  obtain c1 st bits where s: "peer_connection_start env peer_id now c = Inr (True, c1)" "sk_in (cn_sock c1) = []" "fresh_state n bits st"
    "cn_state c1 = st\<lparr>cs_remote := \<lparr>ps_choked = False, ps_interested = False\<rparr>\<rparr>" "cn_last_msg c1 = now" "cn_last_sent c1 = -1"
    using peer_connection_start_ok [OF assms(6-9) input assms(11-17)] by blast
  obtain q where q: "cn_self c1 = cn_self c" "cn_queues c1 = (cn_queues c)(own \<mapsto> q)" "mq_msgs q = []"
    using started_frame [OF s(1) assms(18,19)] by blast
  have "q_size (cs_peer_requests st) = 0" using s(3) length_queue_entries [of "cs_peer_requests st"] by (simp add: fresh_state_def)
  then have "idle env own c1" using s q assms(18) by (simp add: idle_def fresh_state_def)
  then have loop: "conn_loop env ts c1 = Inr (\<forall>t \<in> set ts. t \<le> now + 120, c1)"
    using idle_loop [of env own c1 ts] s(5) by (simp add: PEER_TIMEOUT_SEC_def diff_le_eq add.commute)
  let ?c2 = "c1\<lparr>cn_queues := (cn_queues c1)(own := None)\<rparr>"
  have clean: "queue_cleanup env c1 = Inr ?c2" using q(1) assms(18) by (simp add: queue_cleanup_def)
  have "cn_queues ?c2 = cn_queues c" using q(2) assms(19) by auto
  then show ?thesis
    using connects [OF assms(1-5)] s(1) loop clean assms(1)
    by (cases "\<forall>t \<in> set ts. t \<le> now + 120") (auto simp: peer_connection_def peer_connection_cleanup_def)
qed

text \<open>The example is a thread that sees its clock at 60 and at 121 seconds.\<close>

theorem silent_peer_dropped_witness:
  "\<exists>c'. peer_connection (sample_env False) \<lparr>co_socket = 7, co_connect = -1, co_inprogress = True, co_select = 1, co_so_error = 0\<rparr> (-1)
      (replicate 20 1) 0 [60, 121] greeted_conn = Inr (False, [7], c')"
proof -
  obtain own where own: "peer_connection_queue_name (ev_tmem (sample_env False) (cn_self greeted_conn)) 64 = Inr own"
    using queue_name_ok [of "ev_tmem (sample_env False) (cn_self greeted_conn)"] greeted_conn_ok(11) by auto
  have none: "cn_queues greeted_conn own = None" by (simp add: greeted_conn_def sample_conn_def)
  have i: "sk_in (cn_sock greeted_conn) = (19 # pstr) @ replicate 8 0 @ mi_info_hash (cn_torrent greeted_conn) @ replicate 20 5"
    using greeted_conn_ok(5) by simp
  let ?os = "\<lparr>co_socket = 7, co_connect = -1, co_inprogress = True, co_select = 1, co_so_error = 0\<rparr>"
  have os: "0 \<le> co_socket ?os" "co_socket ?os < 1024" "co_connect ?os \<ge> 0 \<or> co_inprogress ?os" "co_select ?os \<noteq> 0" "co_so_error ?os = 0" by simp_all
  from silent_peer_dropped [OF os greeted_conn_ok(1-4) i greeted_conn_ok(6-12) own none, of "[60, 121]" 0]
  show ?thesis by auto
qed

end
