(* ===== verification/Connection_Pair.thy ===== *)
theory Connection_Pair
  imports Connection_Loop
begin

text \<open>
  Two instances of the program that meet: what one of them sends as its greeting makes the other one, in its
  next round, show interest and request the first piece that the peer has and nobody has asked for.
\<close>

section \<open>Messages that have arrived\<close>

lemma unat_Suc_of_nat: "Suc n < 2 ^ 32 \<Longrightarrow> unat (1 + of_nat n :: u32) = Suc n"
  by (simp add: unat_of_nat flip: of_nat_Suc)

lemma length_msg_bytes:
  assumes "wire_msg torrent msg"
  shows "length (msg_bytes torrent msg) = 4 + unat (msgbuf_len (pm_type msg) torrent)"
  using assms by (cases msg) (auto simp: wire_msg_def msg_bytes_def payload_bytes_def msgbuf_len_def unat_Suc_of_nat split: option.splits)

lemma msg_bytes_prefix: "take 4 (msg_bytes torrent msg @ rest) = be32 (msgbuf_len (pm_type msg) torrent)"
  by (cases "msg = Keepalive") (simp_all add: msg_bytes_def msgbuf_len_def)

text \<open>A message all of which has arrived is taken by the loop and processed.\<close>

lemma queued_loop_message:
  assumes "wire_msg (cn_torrent c) msg" and "sk_in (cn_sock c) = msg_bytes (cn_torrent c) msg @ rest" and "arrived (cn_sock c)"
    and "heap_ok (cn_heap c)" and "BITFIELD_NUM_BYTES (info_num_pieces (mi_info (cn_torrent c))) \<le> length (ev_lit env)"
  obtains sk' where "queued_loop (Suc n) env t c = c_bind (process_msg env (c\<lparr>cn_sock := sk', cn_last_msg := t\<rparr>) msg) (queued_loop n env t)"
    "sk_in sk' = rest" "arrived sk'" "out_part sk' = out_part (cn_sock c)"
proof -
  obtain sk' where r: "peer_msg_recv (ev_lit env) (cn_heap c) (cn_sock c) (cn_torrent c) = Inr (Some msg, sk', cn_torrent c, cn_heap c)"
    "sk_in sk' = rest" "out_part sk' = out_part (cn_sock c)"
    by (rule peer_msg_recv_ok [OF assms(1,2,4,5)])
  have "arrived sk'" using peer_msg_recv_frame(1) [OF r(1)] assms(3) by (simp add: recv_frame_def)
  moreover have "peer_msg_buff_nonempty (ev_junk env) (cn_sock c)"
    using assms(2,3) length_msg_bytes [OF assms(1)] msg_bytes_prefix [of "cn_torrent c" msg rest]
    by (simp add: peer_msg_buff_nonempty_iff arrived_def)
  ultimately show thesis using r by (intro that [of sk']) simp_all
qed

lemma unchoked_interested: "p\<lparr>ps_interested := True, ps_choked := False\<rparr> = \<lparr>ps_choked = False, ps_interested = True\<rparr>"
  for p :: peer_state_t
  by (cases p) simp

text \<open>The two messages of a greeting, one after the other.\<close>

lemma greeting_processed:
  assumes "n = info_num_pieces (mi_info (cn_torrent c))" and "cs_bitlen (cn_state c) = n"
    and "length (sh_piece_states (cn_sh c)) = n" and "length (cs_peer_have (cn_state c)) = BITFIELD_NUM_BYTES n"
    and "length bits = BITFIELD_NUM_BYTES n" and "BITFIELD_NUM_BYTES n < 2 ^ 16" and "BITFIELD_NUM_BYTES n \<le> length (ev_lit env)"
    and "heap_ok (cn_heap c)" and "sk_room (cn_sock c) = None" and "arrived (cn_sock c)"
    and "sk_in (cn_sock c) = msg_bytes (cn_torrent c) (Bitfield (Some \<lparr>bs_size = BITFIELD_NUM_BYTES n, bs_str = bits @ [0]\<rparr>)) @
      msg_bytes (cn_torrent c) Unchoke"
    and "\<exists>i<n. sh_piece_states (cn_sh c) ! i \<noteq> PIECE_STATE_HAVE \<and> i \<in> bf_ones bits"
  obtains sk' where "process_queued_messages env t c = Inr (0, upd_state (\<lambda>s. s\<lparr>cs_peer_have := bits,
      cs_local := \<lparr>ps_choked = False, ps_interested = True\<rparr>, cs_remote := (cs_remote s)\<lparr>ps_interested := True\<rparr>\<rparr>)
      (c\<lparr>cn_sock := sk', cn_last_msg := t\<rparr>))"
    "sk_out sk' = sk_out (cn_sock c) @ msg_bytes (cn_torrent c) Interested" "sk_room sk' = None"
proof -
  let ?t = "cn_torrent c" and ?str = "\<lparr>bs_size = BITFIELD_NUM_BYTES n, bs_str = bits @ [0]\<rparr>"
  have w: "wire_msg ?t (Bitfield (Some ?str))" "wire_msg ?t Unchoke" using assms(1,5,6) by (simp_all add: wire_msg_def)
  have "2 \<le> length (sk_in (cn_sock c))" using assms(11) length_msg_bytes [OF w(1)] by simp
  from le_Suc_ex [OF this] obtain m where "length (sk_in (cn_sock c)) = 2 + m" ..
  then have m: "length (sk_in (cn_sock c)) = Suc (Suc m)" by simp
  obtain sk1 where s1: "queued_loop (Suc (Suc (Suc m))) env t c =
      c_bind (process_msg env (c\<lparr>cn_sock := sk1, cn_last_msg := t\<rparr>) (Bitfield (Some ?str))) (queued_loop (Suc (Suc m)) env t)"
    "sk_in sk1 = msg_bytes ?t Unchoke" "arrived sk1" "out_part sk1 = out_part (cn_sock c)"
    using queued_loop_message [OF w(1) assms(11,10,8)] assms(1,7) by blast
  let ?c1 = "c\<lparr>cn_sock := sk1, cn_last_msg := t\<rparr>"
  obtain sk2 where s2: "process_msg env ?c1 (Bitfield (Some ?str)) = Inr (upd_state (\<lambda>s. s\<lparr>cs_peer_have := bits,
        cs_local := (cs_local s)\<lparr>ps_interested := True \<or> ps_interested (cs_local s)\<rparr>\<rparr>) (?c1\<lparr>cn_sock := sk2\<rparr>))"
    "sk_out sk2 = sk_out (cn_sock ?c1) @ (if True then msg_bytes (cn_torrent ?c1) Interested else [])" "wr.open_end sk2" "in_part sk2 = in_part (cn_sock ?c1)"
    using assms(1-5,9,12) s1(4) by (rule_tac process_bitfield_ok [of n ?c1 ?str bits True env]) (simp_all add: out_part_def)
  define c2 where "c2 = upd_state (\<lambda>s. s\<lparr>cs_peer_have := bits, cs_local := (cs_local s)\<lparr>ps_interested := True\<rparr>\<rparr>) (?c1\<lparr>cn_sock := sk2\<rparr>)"
  have c2: "wire_msg (cn_torrent c2) Unchoke" "sk_in (cn_sock c2) = msg_bytes (cn_torrent c2) Unchoke @ []" "arrived (cn_sock c2)"
    "heap_ok (cn_heap c2)" "BITFIELD_NUM_BYTES (info_num_pieces (mi_info (cn_torrent c2))) \<le> length (ev_lit env)"
    using assms(1,7,8) w(2) s1(2,3) s2(4) by (simp_all add: c2_def in_part_def arrived_def)
  obtain sk3 where s3: "queued_loop (Suc (Suc m)) env t c2 =
      c_bind (process_msg env (c2\<lparr>cn_sock := sk3, cn_last_msg := t\<rparr>) Unchoke) (queued_loop (Suc m) env t)"
    "sk_in sk3 = []" "arrived sk3" "out_part sk3 = out_part (cn_sock c2)"
    by (rule queued_loop_message [OF c2])
  define c3 where "c3 = upd_state (\<lambda>s. s\<lparr>cs_peer_have := bits, cs_local := \<lparr>ps_choked = False, ps_interested = True\<rparr>,
      cs_remote := (cs_remote s)\<lparr>ps_interested := True\<rparr>\<rparr>) (c\<lparr>cn_sock := sk3, cn_last_msg := t\<rparr>)"
  have "process_queued_messages env t c = queued_loop (Suc (Suc (Suc m))) env t c" by (simp only: process_queued_messages_def m)
  also have "\<dots> = queued_loop (Suc (Suc m)) env t c2" unfolding s1(1) s2(1) by (simp add: c2_def del: queued_loop.simps)
  also have "\<dots> = queued_loop (Suc m) env t c3"
    unfolding s3(1) by (simp add: process_msg_def c2_def c3_def upd_state_def unchoked_interested del: queued_loop.simps)
  also have "\<dots> = Inr (0, c3)" using empty_no_message [OF s3(2)] by (simp add: c3_def)
  finally show thesis
    using s1(4) s2(2,3) s3(4) by (intro that [of sk3]) (simp_all add: c3_def c2_def out_part_def wr.open_end_def)
qed

section \<open>Two instances\<close>

text \<open>What a thread needs to start, and the handshake it sends.\<close>

definition startable :: "env_t \<Rightarrow> byte list \<Rightarrow> conn_t \<Rightarrow> bool" where
  "startable env peer_id c \<longleftrightarrow> heap_ok (cn_heap c) \<and> length (mi_info_hash (cn_torrent c)) = 20 \<and> length peer_id = 20 \<and>
     sk_room (cn_sock c) = None \<and> length (sh_piece_states (cn_sh c)) = info_num_pieces (mi_info (cn_torrent c)) \<and>
     BITFIELD_NUM_BYTES (info_num_pieces (mi_info (cn_torrent c))) < 2 ^ 16 \<and> length (ev_tmem env (cn_self c)) = 8 \<and>
     (\<forall>name. ev_mq_open env name)"

definition handshake_of :: "byte list \<Rightarrow> conn_t \<Rightarrow> byte list" where
  "handshake_of peer_id c = [19] @ pstr @ replicate 8 0 @ mi_info_hash (cn_torrent c) @ peer_id"

lemma startable_starts:
  assumes "startable env peer_id c" and "n = info_num_pieces (mi_info (cn_torrent c))"
    and "sk_in (cn_sock c) = handshake_of pid d" and "mi_info_hash (cn_torrent d) = mi_info_hash (cn_torrent c)" and "length pid = 20"
  obtains c' st bits where "peer_connection_start env peer_id now c = Inr (True, c')"
    "sk_out (cn_sock c') = sk_out (cn_sock c) @ handshake_of peer_id c @
      msg_bytes (cn_torrent c) (Bitfield (Some \<lparr>bs_size = BITFIELD_NUM_BYTES n, bs_str = bits @ [0]\<rparr>)) @ msg_bytes (cn_torrent c) Unchoke"
    "length bits = BITFIELD_NUM_BYTES n" "bf_ones bits = {i. i < n \<and> sh_piece_states (cn_sh c) ! i = PIECE_STATE_HAVE}"
    "fresh_state n (cs_local_have st) st" "cn_state c' = st\<lparr>cs_remote := \<lparr>ps_choked = False, ps_interested = False\<rparr>\<rparr>"
    "cn_torrent c' = cn_torrent c" "cn_heap c' = cn_heap c" "cn_last_msg c' = now" "cn_last_sent c' = -1"
proof -
  have i: "sk_in (cn_sock c) = (19 # pstr) @ replicate 8 0 @ mi_info_hash (cn_torrent c) @ pid @ []"
    using assms(3,4) by (simp add: handshake_of_def)
  note s = assms(1) [unfolded startable_def]
  from peer_connection_start_ok [OF _ _ _ _ i _ assms(5) assms(2), of peer_id env now] s assms(2) show thesis
    by (auto simp: handshake_of_def fresh_state_def intro: that)
qed

text \<open>The first piece that the other side has and that nobody has been asked for.\<close>

definition first_offer :: "piece_state_t list \<Rightarrow> piece_state_t list \<Rightarrow> nat \<Rightarrow> bool" where
  "first_offer theirs ours i \<longleftrightarrow> i < length ours \<and> ours ! i = PIECE_STATE_NOT_REQUESTED \<and> theirs ! i = PIECE_STATE_HAVE \<and>
     (\<forall>j<i. \<not> (ours ! j = PIECE_STATE_NOT_REQUESTED \<and> theirs ! j = PIECE_STATE_HAVE))"

lemma first_offer_choice:
  assumes "first_offer theirs ours i" and "length ours = n" and "bf_ones bits = {j. j < n \<and> theirs ! j = PIECE_STATE_HAVE}"
  shows "piece_choice ours bits [0..<n] None = Some i" and "\<exists>j<n. ours ! j \<noteq> PIECE_STATE_HAVE \<and> j \<in> bf_ones bits"
proof -
  have "find (fresh_piece ours bits) [0..<n] = Some i"
    using assms unfolding find_Some_iff by (intro exI [of _ i]) (auto simp: first_offer_def fresh_piece_def)
  then show "piece_choice ours bits [0..<n] None = Some i" by (simp add: piece_choice_def)
  show "\<exists>j<n. ours ! j \<noteq> PIECE_STATE_HAVE \<and> j \<in> bf_ones bits"
    using assms by (intro exI [of _ i]) (auto simp: first_offer_def)
qed

lemma msg_bytes_info: "mi_info torrent = mi_info torrent' \<Longrightarrow> msg_bytes torrent msg = msg_bytes torrent' msg"
  by (simp add: msg_bytes_def msgbuf_len_def split: msg_type_t.split)

lemma leecher_round:
  assumes "N = info_num_pieces (mi_info (cn_torrent c))" and "length (sh_piece_states (cn_sh c)) = N" and "N < 2 ^ 32"
    and "fresh_state N (cs_local_have st) st" and "cn_state c = st\<lparr>cs_remote := \<lparr>ps_choked = False, ps_interested = False\<rparr>\<rparr>"
    and "length bits = BITFIELD_NUM_BYTES N" and "BITFIELD_NUM_BYTES N < 2 ^ 16" and "BITFIELD_NUM_BYTES N \<le> length (ev_lit env)"
    and "heap_ok (cn_heap c)" and "sk_room (cn_sock c) = None" and "arrived (cn_sock c)"
    and "sk_in (cn_sock c) = msg_bytes (cn_torrent c) (Bitfield (Some \<lparr>bs_size = BITFIELD_NUM_BYTES N, bs_str = bits @ [0]\<rparr>)) @
      msg_bytes (cn_torrent c) Unchoke"
    and "service_have_events env c = Inr c" and "t \<le> cn_last_msg c + 120" and "cn_last_sent c = -1"
    and "bf_ones bits = {j. j < N \<and> theirs ! j = PIECE_STATE_HAVE}" and "first_offer theirs (sh_piece_states (cn_sh c)) i"
    and "files_ok fs" and "mi_files (cn_torrent c) = map Some fs @ None # xs"
    and "L = info_piece_length (mi_info (cn_torrent c))" and "L < 2 ^ 64" and "16384 dvd L"
    and "L * i \<le> total_size fs" and "n = min L (total_size fs - L * i)"
  shows "\<exists>c'. conn_round env t c = Inr (True, c') \<and>
    sk_out (cn_sock c') = sk_out (cn_sock c) @ msg_bytes (cn_torrent c) Interested @ concat (map (msg_bytes (cn_torrent c)) (request_msgs i n)) \<and>
    sh_piece_states (cn_sh c') = (sh_piece_states (cn_sh c))[i := PIECE_STATE_REQUESTED]"
proof -
  note offer = first_offer_choice [OF assms(17,2,16)]
  have st: "cs_bitlen (cn_state c) = N" "length (cs_peer_have (cn_state c)) = BITFIELD_NUM_BYTES N"
    "da_values (cs_local_requests (cn_state c)) = []" "q_size (cs_peer_requests (cn_state c)) = 0"
    using assms(4,5) length_queue_entries [of "cs_peer_requests st"] by (simp_all add: fresh_state_def)
  obtain sk' where m: "process_queued_messages env t c = Inr (0, upd_state (\<lambda>s. s\<lparr>cs_peer_have := bits,
      cs_local := \<lparr>ps_choked = False, ps_interested = True\<rparr>, cs_remote := (cs_remote s)\<lparr>ps_interested := True\<rparr>\<rparr>)
      (c\<lparr>cn_sock := sk', cn_last_msg := t\<rparr>))"
    "sk_out sk' = sk_out (cn_sock c) @ msg_bytes (cn_torrent c) Interested" "sk_room sk' = None"
    by (rule greeting_processed [OF assms(1) st(1) assms(2) st(2) assms(6-12) offer(2)])
  define c1 where "c1 = upd_state (\<lambda>s. s\<lparr>cs_peer_have := bits,
      cs_local := \<lparr>ps_choked = False, ps_interested = True\<rparr>, cs_remote := (cs_remote s)\<lparr>ps_interested := True\<rparr>\<rparr>)
      (c\<lparr>cn_sock := sk', cn_last_msg := t\<rparr>)"
  have "N \<le> 8 * BITFIELD_NUM_BYTES N" using num_bytes_index [of "N - 1" N] by (cases N) simp_all
  then have "\<exists>c2 pr. send_requests t c1 = Inr (0, c2) \<and>
    sk_out (cn_sock c2) = sk_out (cn_sock c1) @ concat (map (msg_bytes (cn_torrent c1)) (request_msgs i n)) \<and>
    sh_piece_states (cn_sh c2) = (sh_piece_states (cn_sh c1))[i := PIECE_STATE_REQUESTED] \<and>
    da_values (cs_local_requests (cn_state c2)) = [pr] \<and> pr_piece_index pr = of_nat i \<and>
    pr_blocks_left pr = of_nat (block_count n) \<and> pr_freed pr \<and>
    list_all2 (block_covers fs (L * i)) (da_values (pr_block_requests pr)) (block_plan n)"
    using assms(1-3,6,9,18-24) st m(3) offer(1) by (intro send_requests_ok [where N = N and xs = xs]) (simp_all add: c1_def)
  then obtain c2 where c2: "send_requests t c1 = Inr (0, c2)"
    "sk_out (cn_sock c2) = sk_out (cn_sock c1) @ concat (map (msg_bytes (cn_torrent c1)) (request_msgs i n))"
    "sh_piece_states (cn_sh c2) = (sh_piece_states (cn_sh c1))[i := PIECE_STATE_REQUESTED]" by blast
  have "conn_round env t c = Inr (True, c2)"
    using assms(13-15) st(4) m(1) c2(1) by (simp add: conn_round_def round_top_def round_work_def PEER_TIMEOUT_SEC_def flip: c1_def)
      (simp add: c1_def)
  then show ?thesis using c2(2,3) m(2) by (simp add: c1_def)
qed

text \<open>
  C11. Two instances of the program on the same torrent: both start on each other's handshake, and in the first
  round after the other's greeting has arrived (within two minutes), however the network cuts it, the one that
  lacks pieces shows interest and requests exactly the blocks of the first piece that the other has and that
  nobody has been asked for, which it marks as requested.
\<close>
theorem leecher_asks_seeder:
  assumes "startable env peer_id c" and "startable env' peer_id' s"
    and "mi_info (cn_torrent s) = mi_info (cn_torrent c)" and "mi_info_hash (cn_torrent s) = mi_info_hash (cn_torrent c)"
    and "sk_in (cn_sock c) = handshake_of peer_id' s" and "sk_in (cn_sock s) = handshake_of peer_id c"
    and "peer_connection_queue_name (ev_tmem env (cn_self c)) 64 = Inr own" and "cn_queues c own = None"
    and "BITFIELD_NUM_BYTES (info_num_pieces (mi_info (cn_torrent c))) \<le> length (ev_lit env)"
    and "first_offer (sh_piece_states (cn_sh s)) (sh_piece_states (cn_sh c)) i"
    and "files_ok fs" and "mi_files (cn_torrent c) = map Some fs @ None # xs"
    and "L = info_piece_length (mi_info (cn_torrent c))" and "L < 2 ^ 64" and "16384 dvd L"
    and "L * i \<le> total_size fs" and "n = min L (total_size fs - L * i)"
  shows "\<exists>c1 s1 greeting. peer_connection_start env peer_id now c = Inr (True, c1) \<and>
    peer_connection_start env' peer_id' now' s = Inr (True, s1) \<and>
    sk_out (cn_sock s1) = sk_out (cn_sock s) @ handshake_of peer_id' s @ greeting \<and>
    (\<forall>sk t. sk_in sk = greeting \<and> arrived sk \<and> sk_out sk = sk_out (cn_sock c1) \<and> sk_room sk = None \<and> t \<le> now + 120 \<longrightarrow>
      (\<exists>c2. conn_round env t (c1\<lparr>cn_sock := sk\<rparr>) = Inr (True, c2) \<and>
        sk_out (cn_sock c2) = sk_out (cn_sock c1) @ msg_bytes (cn_torrent c) Interested @
          concat (map (msg_bytes (cn_torrent c)) (request_msgs i n)) \<and>
        sh_piece_states (cn_sh c2) = (sh_piece_states (cn_sh c))[i := PIECE_STATE_REQUESTED]))"
proof -
  let ?N = "info_num_pieces (mi_info (cn_torrent c))"
  have len: "length peer_id = 20" "length peer_id' = 20" "heap_ok (cn_heap c)" "BITFIELD_NUM_BYTES ?N < 2 ^ 16"
    "length (sh_piece_states (cn_sh c)) = ?N" using assms(1,2) by (simp_all add: startable_def)
  have N: "?N < 2 ^ 32" using len(4) num_bytes_index [of "8 * 2 ^ 16" ?N] by (cases "8 * 2 ^ 16 < ?N") auto
  obtain c1 st where c1: "peer_connection_start env peer_id now c = Inr (True, c1)" "fresh_state ?N (cs_local_have st) st"
    "cn_state c1 = st\<lparr>cs_remote := \<lparr>ps_choked = False, ps_interested = False\<rparr>\<rparr>"
    "cn_torrent c1 = cn_torrent c" "cn_heap c1 = cn_heap c" "cn_last_msg c1 = now" "cn_last_sent c1 = -1"
    by (rule startable_starts [OF assms(1) refl assms(5,4) len(2), of now]) blast
  obtain s1 bits where s1: "peer_connection_start env' peer_id' now' s = Inr (True, s1)"
    "sk_out (cn_sock s1) = sk_out (cn_sock s) @ handshake_of peer_id' s @
      msg_bytes (cn_torrent s) (Bitfield (Some \<lparr>bs_size = BITFIELD_NUM_BYTES ?N, bs_str = bits @ [0]\<rparr>)) @ msg_bytes (cn_torrent s) Unchoke"
    "length bits = BITFIELD_NUM_BYTES ?N" "bf_ones bits = {j. j < ?N \<and> sh_piece_states (cn_sh s) ! j = PIECE_STATE_HAVE}"
    by (rule startable_starts [OF assms(2) _ assms(6) assms(4) [symmetric] len(1), of ?N now']) (auto simp: assms(3))
  obtain q where q: "cn_self c1 = cn_self c" "cn_queues c1 own = Some q" "mq_msgs q = []"
    using started_frame [OF c1(1) assms(7,8)] by auto
  note to_c = msg_bytes_info [OF assms(3)]
  have "\<exists>c2. conn_round env t (c1\<lparr>cn_sock := sk\<rparr>) = Inr (True, c2) \<and>
      sk_out (cn_sock c2) = sk_out (cn_sock c1) @ msg_bytes (cn_torrent c) Interested @
        concat (map (msg_bytes (cn_torrent c)) (request_msgs i n)) \<and>
      sh_piece_states (cn_sh c2) = (sh_piece_states (cn_sh c))[i := PIECE_STATE_REQUESTED]"
    if sk: "sk_in sk = msg_bytes (cn_torrent s) (Bitfield (Some \<lparr>bs_size = BITFIELD_NUM_BYTES ?N, bs_str = bits @ [0]\<rparr>)) @ msg_bytes (cn_torrent s) Unchoke"
      "arrived sk" "sk_out sk = sk_out (cn_sock c1)" "sk_room sk = None" "t \<le> now + 120" for sk t
  proof -
    have e: "service_have_events env (c1\<lparr>cn_sock := sk\<rparr>) = Inr (c1\<lparr>cn_sock := sk\<rparr>)"
      using q assms(7) by (intro no_have_events) simp_all
    show ?thesis
      using leecher_round [OF _ _ N c1(2) _ s1(3) len(4) assms(9), of "c1\<lparr>cn_sock := sk\<rparr>" t "sh_piece_states (cn_sh s)" i fs xs L n] sk e c1 s1(4) len assms(10-17)
      by (simp add: to_c)
  qed
  then show ?thesis using c1(1) s1(1,2) by blast
qed

text \<open>The example is a torrent of two pieces, of which one side has both and the other the first.\<close>

definition met_conn :: "piece_state_t list \<Rightarrow> byte list \<Rightarrow> conn_t" where
  "met_conn ps pid = (sample_conn ps [0])\<lparr>cn_sock := plain_sock (handshake_of pid (sample_conn ps [0]))\<rparr>"

lemma met_conn_ok:
  assumes "length ps = 2" and "length pid = 20"
  shows "startable (sample_env False) pid (met_conn ps pid')" and "mi_info_hash (cn_torrent (met_conn ps pid')) = replicate 20 0"
    and "mi_info (cn_torrent (met_conn ps pid')) = (mi_info (sample_torrent 32768 []))\<lparr>info_num_pieces := 2\<rparr>"
    and "mi_files (cn_torrent (met_conn ps pid')) = map Some sample_files @ None # []" and "sh_piece_states (cn_sh (met_conn ps pid')) = ps"
    and "cn_queues (met_conn ps pid') own = None"
    and "sk_in (cn_sock (met_conn ps pid')) = handshake_of pid' d \<longleftrightarrow> mi_info_hash (cn_torrent d) = replicate 20 0"
proof -
  have h: "mi_info_hash (sample_swarm ps) = replicate 20 0" "mi_info (sample_swarm ps) = (mi_info (sample_torrent 32768 []))\<lparr>info_num_pieces := 2\<rparr>"
    using assms(1) by (simp_all add: sample_swarm_def sample_torrent_def)
  show "mi_info_hash (cn_torrent (met_conn ps pid')) = replicate 20 0"
    "mi_info (cn_torrent (met_conn ps pid')) = (mi_info (sample_torrent 32768 []))\<lparr>info_num_pieces := 2\<rparr>"
    "mi_files (cn_torrent (met_conn ps pid')) = map Some sample_files @ None # []" "sh_piece_states (cn_sh (met_conn ps pid')) = ps"
    "cn_queues (met_conn ps pid') own = None"
    "sk_in (cn_sock (met_conn ps pid')) = handshake_of pid' d \<longleftrightarrow> mi_info_hash (cn_torrent d) = replicate 20 0"
    using h by (auto simp: met_conn_def handshake_of_def sample_conn_def)
  show "startable (sample_env False) pid (met_conn ps pid')"
    using h assms by (simp add: startable_def met_conn_def BITFIELD_NUM_BYTES_def CHAR_BIT_def) (simp add: sample_env_def)
qed

theorem leecher_asks_seeder_witness:
  "\<exists>c1 s1 sk c2. peer_connection_start (sample_env False) (replicate 20 1) 0
        (met_conn [PIECE_STATE_HAVE, PIECE_STATE_NOT_REQUESTED] (replicate 20 2)) = Inr (True, c1) \<and>
    peer_connection_start (sample_env False) (replicate 20 2) 0 (met_conn [PIECE_STATE_HAVE, PIECE_STATE_HAVE] (replicate 20 1)) = Inr (True, s1) \<and>
    conn_round (sample_env False) 60 (c1\<lparr>cn_sock := sk\<rparr>) = Inr (True, c2) \<and>
    sh_piece_states (cn_sh c2) = [PIECE_STATE_HAVE, PIECE_STATE_REQUESTED]"
proof -
  let ?c = "met_conn [PIECE_STATE_HAVE, PIECE_STATE_NOT_REQUESTED] (replicate 20 2)"
  let ?s = "met_conn [PIECE_STATE_HAVE, PIECE_STATE_HAVE] (replicate 20 1)"
  have l: "length [PIECE_STATE_HAVE, PIECE_STATE_NOT_REQUESTED] = 2" "length [PIECE_STATE_HAVE, PIECE_STATE_HAVE] = 2"
    "length (replicate 20 (1 :: byte)) = 20" "length (replicate 20 (2 :: byte)) = 20" by simp_all
  note c = met_conn_ok [OF l(1,3), of "replicate 20 2"] and s = met_conn_ok [OF l(2,4), of "replicate 20 1"]
  obtain own where own: "peer_connection_queue_name (ev_tmem (sample_env False) (cn_self ?c)) 64 = Inr own"
    using queue_name_ok [of "ev_tmem (sample_env False) (cn_self ?c)"] by (auto simp: sample_env_def)
  have offer: "first_offer (sh_piece_states (cn_sh ?s)) (sh_piece_states (cn_sh ?c)) 1"
    unfolding c(5) s(5) by (simp add: first_offer_def)
  have "files_ok sample_files" "32768 \<le> total_size sample_files" by simp_all
  with c s own offer obtain c1 s1 greeting where g: "peer_connection_start (sample_env False) (replicate 20 1) 0 ?c = Inr (True, c1)"
    "peer_connection_start (sample_env False) (replicate 20 2) 0 ?s = Inr (True, s1)"
    "\<forall>sk t. sk_in sk = greeting \<and> arrived sk \<and> sk_out sk = sk_out (cn_sock c1) \<and> sk_room sk = None \<and> t \<le> 0 + 120 \<longrightarrow>
      (\<exists>c2. conn_round (sample_env False) t (c1\<lparr>cn_sock := sk\<rparr>) = Inr (True, c2) \<and>
        sh_piece_states (cn_sh c2) = (sh_piece_states (cn_sh ?c))[1 := PIECE_STATE_REQUESTED])"
    using leecher_asks_seeder [of "sample_env False" "replicate 20 1" ?c "sample_env False" "replicate 20 2" ?s own 1 sample_files "[]" 32768 _ 0 0]
    by (fastforce simp: BITFIELD_NUM_BYTES_def CHAR_BIT_def sample_env_def)
  from g(3) [rule_format, of "(plain_sock greeting)\<lparr>sk_out := sk_out (cn_sock c1)\<rparr>" 60] g(1,2) c(5) show ?thesis
    by (auto simp: arrived_def plain_sock_def)
qed

end
