(* ===== verification/Connection_Memory.thy ===== *)
theory Connection_Memory
  imports Peer_Connection
begin

text \<open>
  The memory of a connection's state: which of the blocks that \<open>conn_state_init\<close> allocates are freed, on its
  error paths and by \<open>conn_state_cleanup\<close>. A block is known by what points to it; freeing one that is not
  allocated is an error.
\<close>

section \<open>Blocks\<close>

datatype block = State_Block | Peer_Have | Peer_Wants | Queue_Block | Queue_Mem | Requests_Block | Request_Values | Local_Have

definition free :: "block \<Rightarrow> block list \<Rightarrow> block list c_result" where
  "free b live = (if b \<in> set live then Inr (remove1 b live) else Inl Use_After_Free)"

fun free_all :: "block list \<Rightarrow> block list \<Rightarrow> block list c_result" where
  "free_all [] live = Inr live"
| "free_all (b # bs) live = c_bind (free b live) (free_all bs)"

text \<open>The labels at the end of \<open>conn_state_init\<close>; each falls through to the next one.\<close>

definition fail_peer_have :: "block list \<Rightarrow> block list c_result" where
  "fail_peer_have live = free State_Block live"

definition fail_peer_wants :: "block list \<Rightarrow> block list c_result" where
  "fail_peer_wants live = c_bind (free Peer_Have live) fail_peer_have"

definition fail_peer_requests :: "block list \<Rightarrow> block list c_result" where
  "fail_peer_requests live = c_bind (free Peer_Wants live) fail_peer_wants"

definition fail_local_have :: "block list \<Rightarrow> block list c_result" where
  "fail_local_have live = c_bind (free Queue_Block live) fail_peer_requests"

definition fail_local_request_values :: "block list \<Rightarrow> block list c_result" where
  "fail_local_request_values live = c_bind (free Requests_Block live) fail_local_have"

text \<open>Whether \<open>conn_state_init\<close> succeeds, and the blocks that are allocated when it returns.\<close>

definition conn_state_live :: "c_heap \<Rightarrow> metainfo_t \<Rightarrow> (bool \<times> block list) c_result" where
  "conn_state_live h torrent =
     (let failed = (\<lambda>r. c_bind r (\<lambda>live. Inr (False, live)));
          num_bytes = unat (of_nat (BITFIELD_NUM_BYTES (info_num_pieces (mi_info torrent))) :: u16) in
      case alloc h of (ok0, h0) \<Rightarrow>
      if \<not> ok0 then Inr (False, []) else
      case malloc h0 num_bytes of
        (None, h1) \<Rightarrow> failed (fail_peer_have [State_Block])
      | (Some _, h1) \<Rightarrow>
      case malloc h1 num_bytes of
        (None, h2) \<Rightarrow> failed (fail_peer_wants [Peer_Have, State_Block])
      | (Some _, h2) \<Rightarrow>
      case queue_init h2 12 16 of
        (None, h3) \<Rightarrow> failed (fail_peer_requests [Peer_Wants, Peer_Have, State_Block])
      | (Some _, h3) \<Rightarrow>
      let live = [Queue_Mem, Queue_Block, Peer_Wants, Peer_Have, State_Block] in
      case alloc h3 of (ok4, h4) \<Rightarrow>
      if \<not> ok4 then failed (fail_local_have live) else
      case da_init h4 :: piece_request_t da option \<times> c_heap of
        (None, h5) \<Rightarrow> failed (fail_local_request_values (Requests_Block # live))
      | (Some _, h5) \<Rightarrow>
      c_bind (make_bitfield h5 torrent) (\<lambda>(r, h6).
        case r of
          None \<Rightarrow> failed (fail_local_have (Request_Values # Requests_Block # live))
        | Some _ \<Rightarrow> Inr (True, Local_Have # Request_Values # Requests_Block # live)))"

text \<open>\<open>queue_free\<close>, and the clean-up of a thread that has left its main loop.\<close>

definition queue_free :: "block list \<Rightarrow> block list c_result" where
  "queue_free = free_all [Queue_Mem, Queue_Block]"

definition conn_state_cleanup :: "block list \<Rightarrow> block list c_result" where
  "conn_state_cleanup live =
     c_bind (free_all [Peer_Have, Peer_Wants, Local_Have] live) (\<lambda>l. c_bind (queue_free l) (free State_Block))"

section \<open>What is left behind\<close>

lemma fail_frees:
  "fail_peer_have [State_Block] = Inr []" "fail_peer_wants [Peer_Have, State_Block] = Inr []"
  "fail_peer_requests [Peer_Wants, Peer_Have, State_Block] = Inr []"
  "fail_local_have [Queue_Mem, Queue_Block, Peer_Wants, Peer_Have, State_Block] = Inr [Queue_Mem]"
  "fail_local_request_values [Requests_Block, Queue_Mem, Queue_Block, Peer_Wants, Peer_Have, State_Block] = Inr [Queue_Mem]"
  "fail_local_have [Request_Values, Requests_Block, Queue_Mem, Queue_Block, Peer_Wants, Peer_Have, State_Block] =
     Inr [Request_Values, Requests_Block, Queue_Mem]"
  by code_simp+

lemma cleanup_frees:
  "conn_state_cleanup [Local_Have, Request_Values, Requests_Block, Queue_Mem, Queue_Block, Peer_Wants, Peer_Have, State_Block] =
     Inr [Request_Values, Requests_Block]"
  by code_simp

definition left_behind :: "bool \<Rightarrow> block list \<Rightarrow> bool" where
  "left_behind ok live \<longleftrightarrow>
     (if ok then live = [Local_Have, Request_Values, Requests_Block, Queue_Mem, Queue_Block, Peer_Wants, Peer_Have, State_Block]
      else live \<in> {[], [Queue_Mem], [Request_Values, Requests_Block, Queue_Mem]})"

lemma left_behind_simps [simp]:
  "left_behind False []" "left_behind False [Queue_Mem]" "left_behind False [Request_Values, Requests_Block, Queue_Mem]"
  "left_behind True [Local_Have, Request_Values, Requests_Block, Queue_Mem, Queue_Block, Peer_Wants, Peer_Have, State_Block]"
  by (simp_all add: left_behind_def)

lemma conn_state_live_cases:
  assumes "conn_state_init h torrent = Inr (st, h')"
  shows "\<exists>live. conn_state_live h torrent = Inr (st \<noteq> None, live) \<and> left_behind (st \<noteq> None) live"
proof -
  let ?n = "unat (of_nat (BITFIELD_NUM_BYTES (info_num_pieces (mi_info torrent))) :: u16)"
  obtain ok0 h0 where a0: "alloc h = (ok0, h0)" by (cases "alloc h")
  obtain m1 h1 where a1: "malloc h0 ?n = (m1, h1)" by (cases "malloc h0 ?n")
  obtain m2 h2 where a2: "malloc h1 ?n = (m2, h2)" by (cases "malloc h1 ?n")
  obtain q h3 where a3: "queue_init h2 12 16 = (q, h3)" by (cases "queue_init h2 12 16")
  obtain ok4 h4 where a4: "alloc h3 = (ok4, h4)" by (cases "alloc h3")
  obtain d :: "piece_request_t da option" and h5 where a5: "da_init h4 = (d, h5)" by (cases "da_init h4 :: piece_request_t da option \<times> c_heap")
  note init = assms [unfolded conn_state_init_def Let_def a0 prod.case a1 a2 a3 a4 a5]
  note live = conn_state_live_def [of h torrent, unfolded Let_def a0 prod.case a1 a2 a3 a4 a5]
  consider "\<not> ok0" | "ok0" "m1 = None" | x where "ok0" "m1 = Some x" "m2 = None" | x y where "ok0" "m1 = Some x" "m2 = Some y" "q = None"
    | x y z where "ok0" "m1 = Some x" "m2 = Some y" "q = Some z" "\<not> ok4"
    | x y z where "ok0" "m1 = Some x" "m2 = Some y" "q = Some z" "ok4" "d = None"
    | x y z w where "ok0" "m1 = Some x" "m2 = Some y" "q = Some z" "ok4" "d = Some w"
    by (cases ok0; cases m1; cases m2; cases q; cases ok4; cases d) auto
  then show ?thesis
  proof cases
    case (7 x y z w)
    then obtain r h6 where b: "make_bitfield h5 torrent = Inr (r, h6)" using init by (auto simp: c_bind_eq_Inr)
    then show ?thesis using 7 init by (cases r) (auto simp: live fail_frees)
  qed (use init in \<open>auto simp: live fail_frees\<close>)
qed

text \<open>
  C32. The memory of a connection. However the allocations go, no block is freed twice; a connection that could not
  be set up leaves nothing behind, or the memory of its queue, or also the list of its requests, which the
  code does not free; one that ends leaves the list of its requests.
\<close>
theorem conn_state_memory:
  assumes "conn_state_init h torrent = Inr (st, h')"
  shows "\<exists>live. conn_state_live h torrent = Inr (st \<noteq> None, live) \<and>
    (st = None \<longrightarrow> live \<in> {[], [Queue_Mem], [Request_Values, Requests_Block, Queue_Mem]}) \<and>
    (st \<noteq> None \<longrightarrow> conn_state_cleanup live = Inr [Request_Values, Requests_Block])"
proof -
  obtain live where l: "conn_state_live h torrent = Inr (st \<noteq> None, live)" "left_behind (st \<noteq> None) live"
    using conn_state_live_cases [OF assms] by blast
  show ?thesis
  proof (cases st)
    case None
    then show ?thesis using l by (auto simp: left_behind_def)
  next
    case (Some x)
    then show ?thesis using l cleanup_frees by (auto simp: left_behind_def)
  qed
qed

text \<open>The example is a system that has memory for all but the last block.\<close>

theorem conn_state_memory_witness:
  "\<exists>torrent h' live. conn_state_init \<lparr>heap_script = [True, True, True, True, True, True, True, False], heap_junk = \<lambda>_. 0\<rparr> torrent = Inr (None, h') \<and>
    conn_state_live \<lparr>heap_script = [True, True, True, True, True, True, True, False], heap_junk = \<lambda>_. 0\<rparr> torrent = Inr (False, live) \<and>
    live \<in> {[], [Queue_Mem], [Request_Values, Requests_Block, Queue_Mem]}"
proof -
  fix torrent
  let ?h = "\<lparr>heap_script = [True, True, True, True, True, True, True, False], heap_junk = \<lambda>_. 0\<rparr>"
  have "conn_state_init ?h torrent = Inr (None, \<lparr>heap_script = [], heap_junk = \<lambda>_. 0\<rparr>)"
    by (simp add: conn_state_init_def alloc_def malloc_def queue_init_def calloc_def da_init_def make_bitfield_def)
  from conn_state_memory [OF this] this show ?thesis by (intro exI [of _ torrent]) auto
qed

end
