(* ===== verification/Bencode.thy ===== *)
theory Bencode
  imports Hash_Table Dyn_Array
begin

text \<open>
  \<open>src/deps/stb_bencode.h\<close>: the lexer and the recursive-descent parser for torrent files and tracker
  responses, with \<open>compute_info_hash\<close> of \<open>src/file-parser/file-parser.c\<close>, which the parser calls for
  the \<open>info\<close> dictionary. The lexer looks one token ahead and never tests the end of its buffer;
  strings are stored without a final NUL. What such reads find is an argument of the model: \<open>lx_mem\<close>
  is the buffer together with the memory readable behind it, \<open>be_gap\<close> what is readable behind a string.
  Dictionaries are the hash tables of \<open>Hash_Table\<close>; their values are pointers, modelled as indices into
  \<open>p_values\<close>, the values allocated so far.
\<close>

section \<open>Tokens\<close>

datatype TokenType =
    ILLEGAL | LIST_START | DICT_START | INT_START | INT_TOK | END | STRING_SIZE | STRING | COLON | END_OF_FILE

primrec token_code :: "TokenType \<Rightarrow> nat" where
  "token_code ILLEGAL = 0"
| "token_code LIST_START = 1"
| "token_code DICT_START = 2"
| "token_code INT_START = 3"
| "token_code INT_TOK = 4"
| "token_code END = 5"
| "token_code STRING_SIZE = 6"
| "token_code STRING = 7"
| "token_code COLON = 8"
| "token_code END_OF_FILE = 9"

text \<open>The two members of the union are never confused; both start as zero.\<close>

record Token =
  tk_type :: TokenType
  tk_pos :: nat
  tk_asString :: "byte list option"
  tk_asInt :: int

definition no_token :: Token where
  "no_token = \<lparr>tk_type = ILLEGAL, tk_pos = 0, tk_asString = None, tk_asInt = 0\<rparr>"

text \<open>\<open>lx_eof\<close> is \<open>input && feof (input)\<close>.\<close>

record Lexer =
  lx_mem :: "byte list"
  lx_eof :: bool
  lx_pos :: nat
  lx_read_pos :: nat
  lx_ch :: byte
  lx_prevprev :: Token
  lx_prev :: Token

section \<open>Lexer\<close>

definition read_char :: "Lexer \<Rightarrow> Lexer c_result" where
  "read_char l =
     c_bind (arr_get (lx_mem l) (lx_read_pos l)) (\<lambda>c.
       Inr (l\<lparr>lx_ch := c, lx_pos := lx_read_pos l, lx_read_pos := lx_read_pos l + 1\<rparr>))"

definition peek_char :: "Lexer \<Rightarrow> byte c_result" where
  "peek_char l = arr_get (lx_mem l) (lx_read_pos l)"

definition isdigit :: "byte \<Rightarrow> bool" where
  "isdigit c \<longleftrightarrow> 48 \<le> c \<and> c \<le> 57"

text \<open>
  \<open>strtol (mem, NULL, 10)\<close> on text that starts with a digit or a minus sign: the digits up to the first
  other character, saturated to the range of \<open>long\<close>.
\<close>

definition digits_value :: "byte list \<Rightarrow> nat" where
  "digits_value ds = foldl (\<lambda>a d. 10 * a + (unat d - 48)) 0 ds"

definition scan_digits :: "byte list \<Rightarrow> nat c_result" where
  "scan_digits mem =
     (let ds = takeWhile isdigit mem in
      if length ds = length mem then Inl Out_Of_Bounds else Inr (digits_value ds))"

definition strtol :: "byte list \<Rightarrow> int c_result" where
  "strtol mem =
     (case mem of
        [] \<Rightarrow> Inl Out_Of_Bounds
      | c # cs \<Rightarrow>
          if c = 45 then c_bind (scan_digits cs) (\<lambda>n. Inr (max (- (2 ^ 63)) (- int n)))
          else c_bind (scan_digits mem) (\<lambda>n. Inr (min (2 ^ 63 - 1) (int n))))"

text \<open>
  The loop that copies the \<open>n\<close> characters of a string, \<open>k = n - 1\<close> of them still to be followed by
  \<open>read_char\<close>.
\<close>

primrec string_loop :: "nat \<Rightarrow> Lexer \<Rightarrow> byte list \<Rightarrow> (byte list \<times> Lexer) c_result" where
  "string_loop 0 l acc = Inr (acc @ [lx_ch l], l)"
| "string_loop (Suc k) l acc = c_bind (read_char l) (\<lambda>l'. string_loop k l' (acc @ [lx_ch l]))"

text \<open>
  The loop over the characters of a number, with \<open>k\<close> places left in \<open>buf[500]\<close>; \<open>None\<close> is the early
  return of an illegal token.
\<close>

primrec number_loop :: "nat \<Rightarrow> Lexer \<Rightarrow> byte list \<Rightarrow> (byte list option \<times> Lexer) c_result" where
  "number_loop 0 l acc = Inl Out_Of_Bounds"
| "number_loop (Suc k) l acc =
     (if \<not> isdigit (lx_ch l) \<and> lx_ch l \<noteq> 45 then Inr (None, l)
      else c_bind (peek_char l) (\<lambda>c.
        if c = 101 \<or> c = 58 then Inr (Some (acc @ [lx_ch l]), l)
        else c_bind (read_char l) (\<lambda>l'. number_loop k l' (acc @ [lx_ch l]))))"

definition finish_token :: "Token \<Rightarrow> Lexer \<Rightarrow> c_heap \<Rightarrow> (Token \<times> Lexer \<times> c_heap) c_result" where
  "finish_token t l h = Inr (t, l\<lparr>lx_prevprev := lx_prev l, lx_prev := t\<rparr>, h)"

text \<open>
  The default case. A string of size 0 makes \<open>n - 1\<close> wrap around and is written outside its empty
  block; the result of \<open>calloc\<close> is used unchecked.
\<close>

definition lex_default :: "Lexer \<Rightarrow> c_heap \<Rightarrow> (Token \<times> Lexer \<times> c_heap) c_result" where
  "lex_default l h =
     (if tk_type (lx_prevprev l) = STRING_SIZE then
        let n = nat (tk_asInt (lx_prevprev l) mod 2 ^ 64) in
        case calloc h n 1 of
          (None, h') \<Rightarrow> Inl Null_Deref
        | (Some m, h') \<Rightarrow>
            if n = 0 then Inl Out_Of_Bounds
            else c_bind (string_loop (n - 1) l []) (\<lambda>(s, l').
                   finish_token (no_token\<lparr>tk_type := STRING, tk_asString := Some s\<rparr>) l' h')
      else if isdigit (lx_ch l) \<or> lx_ch l = 45 then
        c_bind (number_loop 500 l []) (\<lambda>(r, l').
          case r of
            None \<Rightarrow> Inr (no_token, l', h)
          | Some buf \<Rightarrow>
              c_bind (peek_char l') (\<lambda>c.
              c_bind (strtol (buf @ replicate (500 - length buf) 0)) (\<lambda>v.
                finish_token
                  (no_token\<lparr>tk_type := (if tk_type (lx_prev l') = INT_START then INT_TOK
                                       else if c = 58 then STRING_SIZE else ILLEGAL),
                            tk_asInt := v\<rparr>) l' h)))
      else if lx_eof l then finish_token (no_token\<lparr>tk_type := END_OF_FILE\<rparr>) l h
      else finish_token no_token l h)"

text \<open>Behind a colon the letters are characters of a string: the cases fall through to the default.\<close>

definition next_token :: "Lexer \<Rightarrow> c_heap \<Rightarrow> (Token \<times> Lexer \<times> c_heap) c_result" where
  "next_token l0 h =
     c_bind (read_char l0) (\<lambda>l.
       if lx_ch l = 58 then finish_token (no_token\<lparr>tk_type := COLON\<rparr>) l h
       else if lx_ch l = 100 \<and> tk_type (lx_prev l) \<noteq> COLON
       then finish_token (no_token\<lparr>tk_type := DICT_START, tk_pos := lx_pos l\<rparr>) l h
       else if lx_ch l = 108 \<and> tk_type (lx_prev l) \<noteq> COLON
       then finish_token (no_token\<lparr>tk_type := LIST_START\<rparr>) l h
       else if lx_ch l = 105 \<and> tk_type (lx_prev l) \<noteq> COLON
       then finish_token (no_token\<lparr>tk_type := INT_START\<rparr>) l h
       else if lx_ch l = 101 \<and> tk_type (lx_prev l) \<noteq> COLON
       then finish_token (no_token\<lparr>tk_type := END, tk_pos := lx_pos l\<rparr>) l h
       else lex_default l h)"

section \<open>Values\<close>

datatype BencodeType = BencodeType (sha1_digest: "byte list") (payload: BencodePayload)
and BencodePayload =
    AsString nat "byte list option"
  | AsInt int
  | AsList "BencodeType list"
  | AsDict "nat hash_table_t"
  | AsError

datatype BencodeKind = BYTESTRING | INTEGER | LIST | DICTIONARY | ERROR

primrec bencode_kind :: "BencodePayload \<Rightarrow> BencodeKind" where
  "bencode_kind (AsString n s) = BYTESTRING"
| "bencode_kind (AsInt i) = INTEGER"
| "bencode_kind (AsList vs) = LIST"
| "bencode_kind (AsDict t) = DICTIONARY"
| "bencode_kind AsError = ERROR"

section \<open>Parser\<close>

record Parser =
  p_l :: Lexer
  p_cur_token :: Token
  p_peek_token :: Token
  p_errors :: "string list"
  p_heap :: c_heap
  p_values :: "BencodeType list"
  p_tables :: nat

text \<open>
  \<open>be_sha1\<close>: OpenSSL's SHA-1; \<open>be_gap\<close>: memory readable behind a string; \<open>be_rand\<close> and \<open>be_table\<close>: the
  result of \<open>rand ()\<close> and the uninitialised table for the \<open>k\<close>-th dictionary.
\<close>

record bc_env =
  be_sha1 :: "byte list \<Rightarrow> byte list"
  be_gap :: "byte list"
  be_rand :: "nat \<Rightarrow> nat"
  be_table :: "nat \<Rightarrow> nat hash_table_t"

definition parser_next_token :: "Parser \<Rightarrow> Parser c_result" where
  "parser_next_token p =
     c_bind (next_token (p_l p) (p_heap p)) (\<lambda>(t, l', h').
       Inr (p\<lparr>p_cur_token := p_peek_token p, p_peek_token := t, p_l := l', p_heap := h'\<rparr>))"

text \<open>\<open>errors\<close> has 500 places.\<close>

definition parse_error :: "Parser \<Rightarrow> string \<Rightarrow> Parser c_result" where
  "parse_error p error =
     (if length (p_errors p) < 500 then Inr (p\<lparr>p_errors := p_errors p @ [error]\<rparr>) else Inl Out_Of_Bounds)"

definition expect_peek :: "Parser \<Rightarrow> TokenType \<Rightarrow> (bool \<times> Parser) c_result" where
  "expect_peek p expected =
     (if tk_type (p_peek_token p) \<noteq> expected
      then c_bind (parse_error p (''ERROR: expected token '' @ [char_of (48 + token_code expected)])) (\<lambda>p'. Inr (False, p'))
      else c_bind (parser_next_token p) (\<lambda>p'. Inr (True, p')))"

text \<open>Contents of a \<open>BencodeType\<close> that is not initialised.\<close>

definition digest_junk :: "Parser \<Rightarrow> byte list" where
  "digest_junk p = map (heap_junk (p_heap p)) [0..<20]"

definition parse_integer :: "Parser \<Rightarrow> (BencodeType \<times> Parser) c_result" where
  "parse_integer p =
     c_bind (expect_peek p INT_TOK) (\<lambda>(ok, p1).
     c_bind (if ok then Inr p1 else parse_error p1 ''Integer initializer is not followed by an integer value'') (\<lambda>p2.
     c_bind (expect_peek p2 END) (\<lambda>(ok', p3).
     c_bind (if ok' then Inr p3 else parse_error p3 ''Unterminated int value'') (\<lambda>p4.
       Inr (BencodeType (digest_junk p) (AsInt (tk_asInt (p_cur_token p2))), p4)))))"

definition parse_bytestring :: "Parser \<Rightarrow> (BencodeType \<times> Parser) c_result" where
  "parse_bytestring p =
     c_bind (c_assert (tk_type (p_cur_token p) = STRING_SIZE)) (\<lambda>_.
       let len = nat (tk_asInt (p_cur_token p) mod 2 ^ 64); nul = replicate 20 0 in
       c_bind (expect_peek p COLON) (\<lambda>(ok, p1).
         if \<not> ok then Inr (BencodeType nul (AsString 0 None), p1)
         else c_bind (expect_peek p1 STRING) (\<lambda>(ok', p2).
           if \<not> ok' then c_bind (parse_error p2 ''ERROR: A colon should be followed by a string'') (\<lambda>p3.
                           Inr (BencodeType nul (AsString 0 None), p3))
           else Inr (BencodeType nul (AsString len (tk_asString (p_cur_token p2))), p2))))"

text \<open>C strings: \<open>strlen\<close> and \<open>strcmp (s, "info") == 0\<close> on the readable memory from a pointer on.\<close>

definition strlen :: "byte list \<Rightarrow> nat c_result" where
  "strlen m = (let n = length (takeWhile (\<lambda>b. b \<noteq> 0) m) in if n < length m then Inr n else Inl Out_Of_Bounds)"

fun strcmp_eq :: "byte list \<Rightarrow> byte list \<Rightarrow> bool c_result" where
  "strcmp_eq (a # as) (b # bs) = (if a \<noteq> b then Inr False else if a = 0 then Inr True else strcmp_eq as bs)"
| "strcmp_eq as bs = Inl Out_Of_Bounds"

definition info_key :: "byte list" where
  "info_key = [105, 110, 102, 111]"

text \<open>
  The digest is written over the copy of the dictionary's text, a local array of just its length: a
  text of fewer than 20 bytes is overrun.
\<close>

definition compute_info_hash ::
  "(byte list \<Rightarrow> byte list) \<Rightarrow> c_heap \<Rightarrow> byte list \<Rightarrow> nat \<Rightarrow> nat \<Rightarrow> (byte list \<times> c_heap) c_result" where
  "compute_info_hash sha1 h in_buf start end =
     c_bind (mem_read in_buf (int start) (end - start + 1)) (\<lambda>buf.
       let digest = sha1 buf in
       if length buf < length digest then Inl Out_Of_Bounds
       else case alloc h of (ok, h') \<Rightarrow> if ok then Inr (digest, h') else Inl Null_Deref)"

text \<open>The parts of the loop of \<open>parse_dict\<close> before and after the value: is it the \<open>info\<close> entry, and storing it.\<close>

definition dict_key :: "bc_env \<Rightarrow> byte list \<Rightarrow> Parser \<Rightarrow> bool c_result" where
  "dict_key env str p =
     c_bind (strcmp_eq (str @ be_gap env) (info_key @ [0])) (\<lambda>parsing_info_dict.
     c_bind (c_assert (parsing_info_dict \<longrightarrow> tk_type (p_peek_token p) = DICT_START)) (\<lambda>_. Inr parsing_info_dict))"

definition dict_digest ::
  "bc_env \<Rightarrow> bool \<Rightarrow> nat \<Rightarrow> BencodeType \<Rightarrow> c_heap \<Rightarrow> Parser \<Rightarrow> (BencodeType \<times> c_heap) c_result" where
  "dict_digest env parsing_info_dict start_pos v h p =
     (if parsing_info_dict
      then c_bind (c_assert (tk_type (p_cur_token p) = END)) (\<lambda>_.
           c_bind (compute_info_hash (be_sha1 env) h (lx_mem (p_l p)) start_pos (tk_pos (p_cur_token p))) (\<lambda>(digest, h').
           c_bind (mem_read digest 0 20) (\<lambda>d. Inr (BencodeType d (payload v), h'))))
      else Inr (v, h))"

definition dict_store ::
  "bc_env \<Rightarrow> bool \<Rightarrow> nat \<Rightarrow> byte list \<Rightarrow> nat hash_table_t \<Rightarrow> BencodeType \<Rightarrow> Parser \<Rightarrow> (nat hash_table_t \<times> Parser) c_result" where
  "dict_store env parsing_info_dict start_pos str t v p =
     (case alloc (p_heap p) of (ok, h1) \<Rightarrow>
        c_bind (dict_digest env parsing_info_dict start_pos v h1 p) (\<lambda>(v', h2).
          if \<not> ok then Inl Null_Deref
          else c_bind (strlen (str @ be_gap env)) (\<lambda>key_len.
               c_bind (mem_read (str @ be_gap env) 0 key_len) (\<lambda>k.
               c_bind (hash_table_insert (t, h2) k (Some (length (p_values p)))) (\<lambda>(t', h3).
               c_bind (parser_next_token (p\<lparr>p_heap := h3, p_values := p_values p @ [v']\<rparr>)) (\<lambda>p'.
                 Inr (t', p')))))))"

text \<open>
  The recursion consumes a character per round; \<open>fuel\<close> bounds it (\<open>parse_item_fuel\<close> shows how much is
  enough). The loops of \<open>parse_list\<close> and \<open>parse_dict\<close> are functions of their own.
\<close>

fun parse_item :: "bc_env \<Rightarrow> nat \<Rightarrow> Parser \<Rightarrow> (BencodeType \<times> Parser) c_result"
and parse_list :: "bc_env \<Rightarrow> nat \<Rightarrow> Parser \<Rightarrow> (BencodeType \<times> Parser) c_result"
and list_loop :: "bc_env \<Rightarrow> nat \<Rightarrow> BencodeType da option \<Rightarrow> Parser \<Rightarrow> (BencodeType \<times> Parser) c_result"
and parse_dict :: "bc_env \<Rightarrow> nat \<Rightarrow> Parser \<Rightarrow> (BencodeType \<times> Parser) c_result"
and dict_loop :: "bc_env \<Rightarrow> nat \<Rightarrow> nat hash_table_t \<Rightarrow> Parser \<Rightarrow> (BencodeType \<times> Parser) c_result" where
  "parse_item env 0 p = Inl No_Fuel"
| "parse_item env (Suc n) p =
     (case tk_type (p_cur_token p) of
        INT_START \<Rightarrow> parse_integer p
      | LIST_START \<Rightarrow> parse_list env n p
      | DICT_START \<Rightarrow> parse_dict env n p
      | STRING_SIZE \<Rightarrow> parse_bytestring p
      | _ \<Rightarrow> c_bind (parse_error p ''unexpected token'') (\<lambda>p'. Inr (BencodeType (digest_junk p) AsError, p')))"
| "parse_list env 0 p = Inl No_Fuel"
| "parse_list env (Suc n) p =
     (case da_init (p_heap p) of (l, h1) \<Rightarrow>
        c_bind (parser_next_token (p\<lparr>p_heap := h1\<rparr>)) (\<lambda>p1. list_loop env n l p1))"
| "list_loop env 0 l p = Inl No_Fuel"
| "list_loop env (Suc n) l p =
     (if tk_type (p_cur_token p) = END
      then Inr (BencodeType (digest_junk p) (AsList (case l of None \<Rightarrow> [] | Some d \<Rightarrow> da_values d)), p)
      else case (case l of None \<Rightarrow> (None, p_heap p) | Some d \<Rightarrow> da_grow (p_heap p) d) of (g, h') \<Rightarrow>
        c_bind (parse_item env n (p\<lparr>p_heap := h'\<rparr>)) (\<lambda>(item, p1).
          case g of
            None \<Rightarrow> Inl Null_Deref
          | Some d \<Rightarrow>
              c_bind (parser_next_token p1) (\<lambda>p2. list_loop env n (Some (d\<lparr>da_values := da_values d @ [item]\<rparr>)) p2)))"
| "parse_dict env 0 p = Inl No_Fuel"
| "parse_dict env (Suc n) p =
     c_bind (hash_table_init (p_heap p) (be_rand env (p_tables p)) (be_table env (p_tables p))) (\<lambda>(t, h1).
     c_bind (parser_next_token (p\<lparr>p_heap := h1, p_tables := Suc (p_tables p)\<rparr>)) (\<lambda>p1. dict_loop env n t p1))"
| "dict_loop env 0 t p = Inl No_Fuel"
| "dict_loop env (Suc n) t p =
     (if tk_type (p_cur_token p) = END then Inr (BencodeType (digest_junk p) (AsDict t), p)
      else c_bind (parse_item env n p) (\<lambda>(key, p1).
        case payload key of
          AsString len (Some str) \<Rightarrow>
            c_bind (dict_key env str p1) (\<lambda>parsing_info_dict.
            c_bind (parser_next_token p1) (\<lambda>p2.
            c_bind (parse_item env n p2) (\<lambda>(v, p3).
            c_bind (dict_store env parsing_info_dict (tk_pos (p_peek_token p1)) str t v p3) (\<lambda>(t', p4).
              dict_loop env n t' p4))))
        | AsString len None \<Rightarrow> Inl Null_Deref
        | _ \<Rightarrow> c_bind (parse_error p1 ''Dictionary key is not a string'') (\<lambda>p2.
                 Inr (BencodeType (digest_junk p) (AsDict t), p2))))"

text \<open>
  \<open>content\<close> is the file \<open>fopen\<close> finds, \<open>None\<close> when it cannot be opened. \<open>fread\<close> fills the buffer with
  the whole file; \<open>slack\<close> is what lies behind it, \<open>pp\<close> and \<open>pv\<close> the uninitialised \<open>prevprev\<close> and \<open>prev\<close>.
\<close>

definition new_lexer ::
  "c_heap \<Rightarrow> byte list option \<Rightarrow> byte list \<Rightarrow> byte \<Rightarrow> Token \<Rightarrow> Token \<Rightarrow> (Lexer \<times> c_heap) c_result" where
  "new_lexer h content slack ch0 pp pv =
     (case alloc h of (ok, h') \<Rightarrow>
        case content of
          None \<Rightarrow> Inl Exited
        | Some buf \<Rightarrow>
            if ok then Inr (\<lparr>lx_mem = buf @ slack, lx_eof = False, lx_pos = 0, lx_read_pos = 0, lx_ch = ch0,
                             lx_prevprev = pp, lx_prev = pv\<rparr>, h')
            else Inl Null_Deref)"

definition new_parser :: "Lexer \<Rightarrow> c_heap \<Rightarrow> Parser c_result" where
  "new_parser l h =
     c_bind (next_token l h) (\<lambda>(cur, l1, h1).
     c_bind (next_token l1 h1) (\<lambda>(peek, l2, h2).
       Inr \<lparr>p_l = l2, p_cur_token = cur, p_peek_token = peek, p_errors = [], p_heap = h2, p_values = [], p_tables = 0\<rparr>))"

text \<open>
  Lexer, parser and \<open>parse_item\<close> as \<open>parse_file\<close> calls them. \<open>parse_fuel\<close> is enough for any input: a
  nesting or a round of a loop uses three steps and reads at least one character.
\<close>

definition parse_fuel :: "Parser \<Rightarrow> nat" where
  "parse_fuel p = 3 * (length (lx_mem (p_l p)) - lx_read_pos (p_l p)) + 2"

definition parse_text ::
  "bc_env \<Rightarrow> c_heap \<Rightarrow> byte list option \<Rightarrow> byte list \<Rightarrow> byte \<Rightarrow> Token \<Rightarrow> Token \<Rightarrow> (BencodeType \<times> Parser) c_result" where
  "parse_text env h content slack ch0 pp pv =
     c_bind (new_lexer h content slack ch0 pp pv) (\<lambda>(l, h1).
     c_bind (new_parser l h1) (\<lambda>p. parse_item env (parse_fuel p) p))"

end
