(* ===== verification/Bencode_Lex.thy ===== *)
theory Bencode_Lex
  imports Bencode
begin

text \<open>
  The format as a specification (values, their encoding and its tokens), and that the lexer produces
  exactly these tokens from an encoded value, whatever follows it.
\<close>

section \<open>The format\<close>

datatype bvalue = BStr "byte list" | BInt int | BList "bvalue list" | BDict "(byte list \<times> bvalue) list"

fun dec :: "nat \<Rightarrow> byte list" where
  "dec n = (if n < 10 then [of_nat (48 + n)] else dec (n div 10) @ [of_nat (48 + n mod 10)])"

declare dec.simps [simp del]

definition dec_int :: "int \<Rightarrow> byte list" where
  "dec_int i = (if i < 0 then 45 # dec (nat (- i)) else dec (nat i))"

fun enc :: "bvalue \<Rightarrow> byte list"
and enc_list :: "bvalue list \<Rightarrow> byte list"
and enc_dict :: "(byte list \<times> bvalue) list \<Rightarrow> byte list" where
  "enc (BStr s) = dec (length s) @ 58 # s"
| "enc (BInt i) = 105 # dec_int i @ [101]"
| "enc (BList vs) = 108 # enc_list vs @ [101]"
| "enc (BDict kvs) = 100 # enc_dict kvs @ [101]"
| "enc_list [] = []"
| "enc_list (v # vs) = enc v @ enc_list vs"
| "enc_dict [] = []"
| "enc_dict ((k, v) # kvs) = enc (BStr k) @ enc v @ enc_dict kvs"

text \<open>
  What the parser can read: strings that are not empty and do not start with a colon, integers in the
  range of \<open>long\<close>, dictionaries with distinct keys without NUL, and an \<open>info\<close> entry only with a dictionary
  of at least 20 bytes.
\<close>

definition good_str :: "byte list \<Rightarrow> bool" where
  "good_str s \<longleftrightarrow> s \<noteq> [] \<and> hd s \<noteq> 58 \<and> length s < 2 ^ 63"

primrec is_dict :: "bvalue \<Rightarrow> bool" where
  "is_dict (BStr s) = False"
| "is_dict (BInt i) = False"
| "is_dict (BList vs) = False"
| "is_dict (BDict kvs) = True"

fun good :: "bvalue \<Rightarrow> bool"
and good_list :: "bvalue list \<Rightarrow> bool"
and good_dict :: "(byte list \<times> bvalue) list \<Rightarrow> bool" where
  "good (BStr s) = good_str s"
| "good (BInt i) = (- (2 ^ 63) \<le> i \<and> i < 2 ^ 63)"
| "good (BList vs) = good_list vs"
| "good (BDict kvs) = (good_dict kvs \<and> distinct (map fst kvs) \<and> length kvs \<le> 2 ^ 29)"
| "good_list [] = True"
| "good_list (v # vs) = (good v \<and> good_list vs)"
| "good_dict [] = True"
| "good_dict ((k, v) # kvs) =
     (good_str k \<and> 0 \<notin> set k \<and> (k = info_key \<longrightarrow> is_dict v \<and> 20 \<le> length (enc v)) \<and> good v \<and> good_dict kvs)"

definition size_tok :: "nat \<Rightarrow> Token" where
  "size_tok n = no_token\<lparr>tk_type := STRING_SIZE, tk_asInt := int n\<rparr>"

definition str_tok :: "byte list \<Rightarrow> Token" where
  "str_tok s = no_token\<lparr>tk_type := STRING, tk_asString := Some s\<rparr>"

definition end_tok :: "nat \<Rightarrow> Token" where
  "end_tok pos = no_token\<lparr>tk_type := END, tk_pos := pos\<rparr>"

fun toks :: "nat \<Rightarrow> bvalue \<Rightarrow> Token list"
and toks_list :: "nat \<Rightarrow> bvalue list \<Rightarrow> Token list"
and toks_dict :: "nat \<Rightarrow> (byte list \<times> bvalue) list \<Rightarrow> Token list" where
  "toks pos (BStr s) = [size_tok (length s), no_token\<lparr>tk_type := COLON\<rparr>, str_tok s]"
| "toks pos (BInt i) =
     [no_token\<lparr>tk_type := INT_START\<rparr>, no_token\<lparr>tk_type := INT_TOK, tk_asInt := i\<rparr>, end_tok (pos + 1 + length (dec_int i))]"
| "toks pos (BList vs) = no_token\<lparr>tk_type := LIST_START\<rparr> # toks_list (pos + 1) vs @ [end_tok (pos + 1 + length (enc_list vs))]"
| "toks pos (BDict kvs) =
     no_token\<lparr>tk_type := DICT_START, tk_pos := pos\<rparr> # toks_dict (pos + 1) kvs @ [end_tok (pos + 1 + length (enc_dict kvs))]"
| "toks_list pos [] = []"
| "toks_list pos (v # vs) = toks pos v @ toks_list (pos + length (enc v)) vs"
| "toks_dict pos [] = []"
| "toks_dict pos ((k, v) # kvs) =
     toks pos (BStr k) @ toks (pos + length (enc (BStr k))) v @ toks_dict (pos + length (enc (BStr k)) + length (enc v)) kvs"

section \<open>Numbers\<close>

lemma unat_digit: "k < 10 \<Longrightarrow> unat (of_nat (48 + k) :: byte) = 48 + k"
  by (simp del: of_nat_add add: unat_of_nat)

lemma dec_digits: "list_all isdigit (dec n)"
proof (induction n rule: dec.induct)
  case (1 n)
  have d: "isdigit (of_nat (48 + k))" if "k < 10" for k :: nat
    using unat_digit [OF that] that by (simp add: isdigit_def word_le_nat_alt)
  show ?case
  proof (cases "n < 10")
    case True
    then show ?thesis using d [OF True] by (simp add: dec.simps [of n])
  next
    case False
    then show ?thesis using 1 d [of "n mod 10"] by (simp add: dec.simps [of n])
  qed
qed

lemma dec_nonempty [simp]: "dec n \<noteq> []"
  by (subst dec.simps) simp

lemma digits_value_append: "digits_value (ds @ [d]) = 10 * digits_value ds + (unat d - 48)"
  by (simp add: digits_value_def)

lemma digits_value_dec [simp]: "digits_value (dec n) = n"
proof (induction n rule: dec.induct)
  case (1 n)
  have u: "unat (of_nat (48 + k) :: byte) - 48 = k" if "k < 10" for k :: nat
    using unat_digit [OF that] by simp
  show ?case
  proof (cases "n < 10")
    case True
    then show ?thesis using u [OF True] by (simp add: dec.simps [of n] digits_value_def)
  next
    case False
    then show ?thesis using 1 u [of "n mod 10"] by (simp add: dec.simps [of n] digits_value_append)
  qed
qed

lemma dec_length: "n < 10 ^ k \<Longrightarrow> 0 < k \<Longrightarrow> length (dec n) \<le> k"
proof (induction k arbitrary: n)
  case (Suc k)
  show ?case
  proof (cases "n < 10")
    case True
    then show ?thesis by (simp add: dec.simps [of n])
  next
    case False
    then have "0 < k" using Suc.prems by (cases k) auto
    moreover have "n div 10 < 10 ^ k" using Suc.prems(1) by (simp add: div_less_iff_less_mult mult.commute)
    ultimately show ?thesis using Suc.IH [of "n div 10"] False by (simp add: dec.simps [of n])
  qed
qed simp

lemma dec_length_long: "n \<le> 2 ^ 63 \<Longrightarrow> length (dec n) \<le> 19"
  by (rule dec_length) (auto intro: le_less_trans)

lemma scan_digits_ok: "list_all isdigit ds \<Longrightarrow> scan_digits (ds @ 0 # zs) = Inr (digits_value ds)"
proof -
  assume "list_all isdigit ds"
  then have "takeWhile isdigit (ds @ 0 # zs) = ds"
    by (simp add: takeWhile_append list_all_iff isdigit_def)
  then show ?thesis by (simp add: scan_digits_def)
qed

lemma isdigit_facts: "isdigit c \<Longrightarrow> c \<noteq> 45 \<and> c \<noteq> 58 \<and> c \<noteq> 100 \<and> c \<noteq> 101 \<and> c \<noteq> 105 \<and> c \<noteq> 108"
  by (auto simp: isdigit_def)

lemma zero_pad: "k < 500 \<Longrightarrow> replicate (500 - k) (0 :: byte) = 0 # replicate (499 - k) 0"
proof -
  assume "k < 500"
  then have "500 - k = Suc (499 - k)" by simp
  then show ?thesis by (simp only: replicate_Suc)
qed

lemma strtol_dec: "n < 2 ^ 63 \<Longrightarrow> strtol (dec n @ 0 # zs) = Inr (int n)"
proof -
  assume n: "n < 2 ^ 63"
  obtain c cs where d: "dec n = c # cs" using dec_nonempty [of n] by (cases "dec n") auto
  have "c \<noteq> 45" using dec_digits [of n] d isdigit_facts by simp
  then have "strtol (dec n @ 0 # zs) = c_bind (scan_digits (dec n @ 0 # zs)) (\<lambda>n. Inr (min (2 ^ 63 - 1) (int n)))"
    by (simp add: strtol_def d)
  then show ?thesis using scan_digits_ok [OF dec_digits] n by simp
qed

lemma strtol_dec_int:
  assumes "- (2 ^ 63) \<le> i" and "i < 2 ^ 63"
  shows "strtol (dec_int i @ 0 # zs) = Inr i"
proof (cases "i < 0")
  case True
  then have "strtol (dec_int i @ 0 # zs) = c_bind (scan_digits (dec (nat (- i)) @ 0 # zs)) (\<lambda>n. Inr (max (- (2 ^ 63)) (- int n)))"
    by (simp add: strtol_def dec_int_def)
  then show ?thesis using scan_digits_ok [OF dec_digits] assms True by simp
next
  case False
  then show ?thesis using strtol_dec [of "nat i"] assms by (simp add: dec_int_def)
qed

lemma dec_int_shape:
  assumes "- (2 ^ 63) \<le> i" and "i < 2 ^ 63"
  obtains c cs where "dec_int i = c # cs" "isdigit c \<or> c = 45" "list_all isdigit cs" "length cs < 20"
proof (cases "i < 0")
  case True
  have "length (dec (nat (- i))) \<le> 19" using assms by (intro dec_length_long) simp
  then show thesis using that [of 45 "dec (nat (- i))"] dec_digits True by (simp add: dec_int_def)
next
  case False
  have "length (dec (nat i)) \<le> 19" using assms by (intro dec_length_long) simp
  moreover obtain c cs where "dec (nat i) = c # cs" using dec_nonempty [of "nat i"] by (cases "dec (nat i)") auto
  ultimately show thesis using that [of c cs] dec_digits [of "nat i"] False by (simp add: dec_int_def)
qed

section \<open>The lexer's place\<close>

definition at :: "Lexer \<Rightarrow> byte list \<Rightarrow> byte list \<Rightarrow> bool" where
  "at l pre rest \<longleftrightarrow> lx_mem l = pre @ rest \<and> lx_read_pos l = length pre"

definition boundary :: "Lexer \<Rightarrow> bool" where
  "boundary l \<longleftrightarrow> tk_type (lx_prev l) \<notin> {COLON, INT_START, STRING_SIZE} \<and> tk_type (lx_prevprev l) \<noteq> STRING_SIZE"

definition moved :: "Lexer \<Rightarrow> byte \<Rightarrow> Lexer" where
  "moved l c = l\<lparr>lx_ch := c, lx_pos := lx_read_pos l, lx_read_pos := lx_read_pos l + 1\<rparr>"

lemma read_char_at: "at l pre (c # rest) \<Longrightarrow> read_char l = Inr (moved l c)"
  by (simp add: at_def read_char_def moved_def)

lemma at_moved: "at l pre (c # rest) \<Longrightarrow> at (moved l c) (pre @ [c]) rest"
  by (simp add: at_def moved_def)

lemma moved_simps [simp]:
  "lx_ch (moved l c) = c" "lx_prev (moved l c) = lx_prev l" "lx_prevprev (moved l c) = lx_prevprev l"
  "lx_pos (moved l c) = lx_read_pos l"
  by (simp_all add: moved_def)

lemma peek_char_at: "at l pre (c # rest) \<Longrightarrow> peek_char l = Inr c"
  by (simp add: at_def peek_char_def)

lemma string_loop_at:
  "at l pre (cs @ rest) \<Longrightarrow> \<exists>l'. string_loop (length cs) l acc = Inr (acc @ lx_ch l # cs, l') \<and> at l' (pre @ cs) rest \<and>
     lx_prev l' = lx_prev l \<and> lx_prevprev l' = lx_prevprev l"
proof (induction cs arbitrary: l pre acc)
  case (Cons c cs)
  have a: "at l pre (c # cs @ rest)" using Cons.prems by simp
  from Cons.IH [OF at_moved [OF a], of "acc @ [lx_ch l]"] show ?case
    using read_char_at [OF a] by auto
qed simp

lemma number_loop_at:
  "at l pre (ds @ x # rest) \<Longrightarrow> list_all isdigit ds \<Longrightarrow> x = 101 \<or> x = 58 \<Longrightarrow> isdigit (lx_ch l) \<or> lx_ch l = 45 \<Longrightarrow>
   length ds < k \<Longrightarrow>
   \<exists>l'. number_loop k l acc = Inr (Some (acc @ lx_ch l # ds), l') \<and> at l' (pre @ ds) (x # rest) \<and>
     lx_prev l' = lx_prev l \<and> lx_prevprev l' = lx_prevprev l"
proof (induction ds arbitrary: l pre acc k)
  case Nil
  then show ?case using peek_char_at [of l pre x rest] by (cases k) auto
next
  case (Cons d ds)
  obtain k' where k: "k = Suc k'" using Cons.prems(5) by (cases k) auto
  have a: "at l pre (d # ds @ x # rest)" using Cons.prems(1) by simp
  have d: "isdigit d" using Cons.prems(2) by simp
  obtain l' where "number_loop k' (moved l d) (acc @ [lx_ch l]) = Inr (Some ((acc @ [lx_ch l]) @ d # ds), l')"
    "at l' ((pre @ [d]) @ ds) (x # rest)" "lx_prev l' = lx_prev l" "lx_prevprev l' = lx_prevprev l"
    using Cons.IH [OF at_moved [OF a], of k' "acc @ [lx_ch l]"] Cons.prems d k by auto
  then show ?case using peek_char_at [OF a] read_char_at [OF a] d isdigit_facts [OF d] Cons.prems(4) k by auto
qed


section \<open>Single tokens\<close>

lemma finish_token_ok: "finish_token t l h = Inr (t, l\<lparr>lx_prevprev := lx_prev l, lx_prev := t\<rparr>, h)"
  by (simp add: finish_token_def)

lemma at_finish [simp]: "at (l\<lparr>lx_prevprev := a, lx_prev := b\<rparr>) pre rest = at l pre rest"
  by (simp add: at_def)

lemma lex_colon:
  assumes "at l pre (58 # rest)"
  shows "next_token l h = Inr (no_token\<lparr>tk_type := COLON\<rparr>,
    (moved l 58)\<lparr>lx_prevprev := lx_prev l, lx_prev := no_token\<lparr>tk_type := COLON\<rparr>\<rparr>, h)"
  using read_char_at [OF assms] by (simp add: next_token_def finish_token_ok)

lemma lex_letter:
  assumes "at l pre (c # rest)" and "tk_type (lx_prev l) \<noteq> COLON"
    and "(c, t) \<in> {(100, no_token\<lparr>tk_type := DICT_START, tk_pos := length pre\<rparr>), (108, no_token\<lparr>tk_type := LIST_START\<rparr>),
        (105, no_token\<lparr>tk_type := INT_START\<rparr>), (101, end_tok (length pre))}"
  shows "next_token l h = Inr (t, (moved l c)\<lparr>lx_prevprev := lx_prev l, lx_prev := t\<rparr>, h)"
proof -
  have r: "read_char l = Inr (moved l c)" and pos: "lx_read_pos l = length pre"
    using read_char_at [OF assms(1)] assms(1) by (simp_all add: at_def)
  from assms(3) consider "c = 100" "t = no_token\<lparr>tk_type := DICT_START, tk_pos := length pre\<rparr>"
    | "c = 108" "t = no_token\<lparr>tk_type := LIST_START\<rparr>" | "c = 105" "t = no_token\<lparr>tk_type := INT_START\<rparr>"
    | "c = 101" "t = end_tok (length pre)" by blast
  then show ?thesis
    by cases (use assms(2) pos in \<open>simp_all add: next_token_def r finish_token_ok end_tok_def\<close>)
qed

lemma lex_number:
  assumes "at l pre (ds @ x # rest)" and "ds = d # ds'" and "isdigit d \<or> d = 45" and "list_all isdigit ds'" and "length ds' < 20"
    and "x = 101 \<or> x = 58" and "tk_type (lx_prevprev l) \<noteq> STRING_SIZE" and "strtol (ds @ replicate (500 - length ds) 0) = Inr v"
    and "t = no_token\<lparr>tk_type := (if tk_type (lx_prev l) = INT_START then INT_TOK else if x = 58 then STRING_SIZE else ILLEGAL), tk_asInt := v\<rparr>"
  shows "\<exists>l'. next_token l h = Inr (t, l', h) \<and> at l' (pre @ ds) (x # rest) \<and> lx_prev l' = t \<and> lx_prevprev l' = lx_prev l"
proof -
  have a: "at l pre (d # ds' @ x # rest)" using assms(1,2) by simp
  have d: "d \<noteq> 58 \<and> d \<noteq> 100 \<and> d \<noteq> 101 \<and> d \<noteq> 105 \<and> d \<noteq> 108" using assms(3) isdigit_facts by auto
  obtain l1 where l1: "number_loop 500 (moved l d) [] = Inr (Some ds, l1)" "at l1 (pre @ ds) (x # rest)"
    "lx_prev l1 = lx_prev l" "lx_prevprev l1 = lx_prevprev l"
    using number_loop_at [OF at_moved [OF a], of 500 "[]"] assms by auto
  have "next_token l h = lex_default (moved l d) h" using read_char_at [OF a] d by (simp add: next_token_def)
  also have "\<dots> = Inr (t, l1\<lparr>lx_prevprev := lx_prev l, lx_prev := t\<rparr>, h)"
    using l1 peek_char_at [OF l1(2)] assms by (simp add: lex_default_def finish_token_ok)
  finally show ?thesis using l1(2) by auto
qed

lemma lex_string:
  assumes "at l pre (s @ rest)" and "good_str s" and "lx_prevprev l = size_tok (length s)" and "tk_type (lx_prev l) = COLON" and "heap_ok h"
  shows "\<exists>l'. next_token l h = Inr (str_tok s, l', h) \<and> at l' (pre @ s) rest \<and> lx_prev l' = str_tok s \<and> lx_prevprev l' = lx_prev l"
proof -
  obtain c cs where s: "s = c # cs" "c \<noteq> 58" using assms(2) by (cases s) (auto simp: good_str_def)
  have a: "at l pre (c # cs @ rest)" using assms(1) s by simp
  have n: "nat (int (length s) mod 2 ^ 64) = length s" "length s < 2 ^ 64" using assms(2) by (simp_all add: good_str_def)
  obtain l1 where l1: "string_loop (length cs) (moved l c) [] = Inr (s, l1)" "at l1 (pre @ s) rest"
    "lx_prev l1 = lx_prev l" "lx_prevprev l1 = lx_prevprev l"
    using string_loop_at [OF at_moved [OF a], of "[]"] s by auto
  have "next_token l h = lex_default (moved l c) h" using read_char_at [OF a] s(2) assms(4) by (simp add: next_token_def)
  also have "\<dots> = Inr (str_tok s, l1\<lparr>lx_prevprev := lx_prev l, lx_prev := str_tok s\<rparr>, h)"
  proof -
    have "tk_type (size_tok (length s)) = STRING_SIZE" "tk_asInt (size_tok (length s)) = int (length s)" by (simp_all add: size_tok_def)
    then show ?thesis
      unfolding lex_default_def using l1 n assms(3,5) s by (simp add: calloc_def finish_token_ok str_tok_def Let_def)
  qed
  finally show ?thesis using l1(2) by auto
qed

section \<open>Values\<close>

inductive lexes :: "c_heap \<Rightarrow> Lexer \<Rightarrow> Token list \<Rightarrow> Lexer \<Rightarrow> bool" for h where
  lexes_none: "lexes h l [] l"
| lexes_more: "next_token l h = Inr (t, l1, h) \<Longrightarrow> lexes h l1 ts l2 \<Longrightarrow> lexes h l (t # ts) l2"

inductive_cases lexes_NilE: "lexes h l [] l'"
inductive_cases lexes_ConsE: "lexes h l (t # ts) l'"

lemma lexes_append: "lexes h l ts l1 \<Longrightarrow> lexes h l1 us l2 \<Longrightarrow> lexes h l (ts @ us) l2"
  by (induction rule: lexes.induct) (auto intro: lexes.intros)

lemma lexes_appendD: "lexes h l (ts @ us) l2 \<Longrightarrow> \<exists>l1. lexes h l ts l1 \<and> lexes h l1 us l2"
proof (induction ts arbitrary: l)
  case Nil
  then show ?case using lexes_none by auto
next
  case (Cons t ts)
  from Cons.prems obtain l0 where "next_token l h = Inr (t, l0, h)" "lexes h l0 (ts @ us) l2"
    by (auto elim: lexes_ConsE)
  then show ?case using Cons.IH lexes_more by blast
qed

lemma lexes_one: "next_token l h = Inr (t, l', h) \<Longrightarrow> lexes h l [t] l'"
  by (auto intro: lexes.intros)

text \<open>\<open>lexed l pre text rest ts l'\<close>: from \<open>l\<close> the lexer turns \<open>text\<close> into \<open>ts\<close>, between two boundaries.\<close>

definition lexed :: "c_heap \<Rightarrow> Lexer \<Rightarrow> byte list \<Rightarrow> byte list \<Rightarrow> byte list \<Rightarrow> Token list \<Rightarrow> Lexer \<Rightarrow> bool" where
  "lexed h l pre text rest ts l' \<longleftrightarrow> lexes h l ts l' \<and> at l' (pre @ text) rest \<and> boundary l'"

lemma lex_bstr:
  assumes "at l pre (enc (BStr s) @ rest)" and "boundary l" and "good_str s" and "heap_ok h"
  shows "\<exists>l'. lexed h l pre (enc (BStr s)) rest (toks pos (BStr s)) l'"
proof -
  let ?n = "length s" and ?c = "no_token\<lparr>tk_type := COLON\<rparr>"
  obtain d ds where d: "dec ?n = d # ds" using dec_nonempty [of ?n] by (cases "dec ?n") auto
  have dd: "isdigit d \<or> d = 45" "list_all isdigit ds" using dec_digits [of ?n] d by simp_all
  have n: "?n < 2 ^ 63" using assms(3) by (simp add: good_str_def)
  then have len: "length (dec ?n) \<le> 19" by (intro dec_length_long) simp
  then have st: "strtol (dec ?n @ replicate (500 - length (dec ?n)) 0) = Inr (int ?n)"
    using strtol_dec [OF n] by (simp only: zero_pad)
  have a: "at l pre (dec ?n @ 58 # s @ rest)" using assms(1) by simp
  obtain l1 where l1: "next_token l h = Inr (size_tok ?n, l1, h)" "at l1 (pre @ dec ?n) (58 # s @ rest)"
    "lx_prev l1 = size_tok ?n" "lx_prevprev l1 = lx_prev l"
    using lex_number [OF a d dd _ _ _ st, where t = "size_tok ?n"] len assms(2) d by (auto simp: boundary_def size_tok_def)
  let ?l2 = "(moved l1 58)\<lparr>lx_prevprev := lx_prev l1, lx_prev := ?c\<rparr>"
  have l2: "next_token l1 h = Inr (?c, ?l2, h)" "at ?l2 ((pre @ dec ?n) @ [58]) (s @ rest)"
    using lex_colon [OF l1(2)] at_moved [OF l1(2)] by simp_all
  obtain l3 where l3: "next_token ?l2 h = Inr (str_tok s, l3, h)" "at l3 (((pre @ dec ?n) @ [58]) @ s) rest"
    "lx_prev l3 = str_tok s" "lx_prevprev l3 = ?c"
    using lex_string [OF l2(2) assms(3)] l1(3) assms(4) by auto
  have "lexes h l (toks pos (BStr s)) l3"
    using l1(1) l2(1) l3(1) by (auto intro!: lexes.intros)
  then show ?thesis using l3(2-4) by (auto simp: lexed_def boundary_def str_tok_def)
qed

lemma lex_bint:
  assumes "at l pre (enc (BInt i) @ rest)" and "boundary l" and "- (2 ^ 63) \<le> i" and "i < 2 ^ 63"
  shows "\<exists>l'. lexed h l pre (enc (BInt i)) rest (toks (length pre) (BInt i)) l'"
proof -
  let ?s = "no_token\<lparr>tk_type := INT_START\<rparr>" and ?i = "no_token\<lparr>tk_type := INT_TOK, tk_asInt := i\<rparr>"
  obtain c cs where d: "dec_int i = c # cs" "isdigit c \<or> c = 45" "list_all isdigit cs" "length cs < 20"
    by (rule dec_int_shape [OF assms(3,4)])
  have st: "strtol (dec_int i @ replicate (500 - length (dec_int i)) 0) = Inr i"
    using strtol_dec_int [OF assms(3,4)] zero_pad [of "length (dec_int i)"] d by simp
  have a: "at l pre (105 # dec_int i @ 101 # rest)" using assms(1) by simp
  let ?l1 = "(moved l 105)\<lparr>lx_prevprev := lx_prev l, lx_prev := ?s\<rparr>"
  have l1: "next_token l h = Inr (?s, ?l1, h)" "at ?l1 (pre @ [105]) (dec_int i @ 101 # rest)"
    using lex_letter [OF a, where t = ?s] at_moved [OF a] assms(2) by (auto simp: boundary_def)
  obtain l2 where l2: "next_token ?l1 h = Inr (?i, l2, h)" "at l2 ((pre @ [105]) @ dec_int i) (101 # rest)"
    "lx_prev l2 = ?i" "lx_prevprev l2 = ?s"
    using lex_number [OF l1(2) d _ _ st, where t = ?i] assms(2) by (auto simp: boundary_def)
  let ?e = "end_tok (length pre + 1 + length (dec_int i))"
  let ?l3 = "(moved l2 101)\<lparr>lx_prevprev := lx_prev l2, lx_prev := ?e\<rparr>"
  have l3: "next_token l2 h = Inr (?e, ?l3, h)" "at ?l3 (((pre @ [105]) @ dec_int i) @ [101]) rest"
    using lex_letter [OF l2(2), where t = ?e] at_moved [OF l2(2)] l2(3) by auto
  have "lexes h l (toks (length pre) (BInt i)) ?l3"
    using l1(1) l2(1) l3(1) by (auto intro!: lexes.intros)
  then show ?thesis using l3(2) l2(3) by (auto simp: lexed_def boundary_def end_tok_def)
qed


lemma lexed_append:
  "lexed h l pre a (b @ rest) ts l1 \<Longrightarrow> lexed h l1 (pre @ a) b rest us l2 \<Longrightarrow> lexed h l pre (a @ b) rest (ts @ us) l2"
  by (auto simp: lexed_def intro: lexes_append)

lemma lex_bracket:
  assumes "at l pre (c # text @ 101 # rest)" and "boundary l"
    and "(c, t) \<in> {(100, no_token\<lparr>tk_type := DICT_START, tk_pos := length pre\<rparr>), (108, no_token\<lparr>tk_type := LIST_START\<rparr>)}"
    and body: "\<And>l1. at l1 (pre @ [c]) (text @ 101 # rest) \<Longrightarrow> boundary l1 \<Longrightarrow> \<exists>l2. lexed h l1 (pre @ [c]) text (101 # rest) ts l2"
  shows "\<exists>l'. lexed h l pre (c # text @ [101]) rest (t # ts @ [end_tok (length pre + 1 + length text)]) l'"
proof -
  let ?l1 = "(moved l c)\<lparr>lx_prevprev := lx_prev l, lx_prev := t\<rparr>"
  have l1: "next_token l h = Inr (t, ?l1, h)" "at ?l1 (pre @ [c]) (text @ 101 # rest)" "boundary ?l1"
    using lex_letter [OF assms(1), of t] assms(2,3) at_moved [OF assms(1)] by (auto simp: boundary_def)
  obtain l2 where l2: "lexes h ?l1 ts l2" "at l2 ((pre @ [c]) @ text) (101 # rest)" "boundary l2"
    using body [OF l1(2,3)] by (auto simp: lexed_def)
  let ?e = "end_tok (length pre + 1 + length text)"
  let ?l3 = "(moved l2 101)\<lparr>lx_prevprev := lx_prev l2, lx_prev := ?e\<rparr>"
  have l3: "next_token l2 h = Inr (?e, ?l3, h)" "at ?l3 (((pre @ [c]) @ text) @ [101]) rest" "boundary ?l3"
    using lex_letter [OF l2(2), of ?e] l2(3) at_moved [OF l2(2)] by (auto simp: boundary_def end_tok_def)
  have "lexes h l (t # ts @ [?e]) ?l3"
    using lexes_more [OF l1(1) lexes_append [OF l2(1) lexes_one [OF l3(1)]]] by simp
  then show ?thesis using l3(2,3) by (auto simp: lexed_def)
qed

lemma lex_value:
  shows "heap_ok h \<Longrightarrow> good v \<Longrightarrow> at l pre (enc v @ rest) \<Longrightarrow> boundary l \<Longrightarrow> \<exists>l'. lexed h l pre (enc v) rest (toks (length pre) v) l'"
    and "heap_ok h \<Longrightarrow> good_list vs \<Longrightarrow> at l pre (enc_list vs @ rest) \<Longrightarrow> boundary l \<Longrightarrow>
      \<exists>l'. lexed h l pre (enc_list vs) rest (toks_list (length pre) vs) l'"
    and "heap_ok h \<Longrightarrow> good_dict kvs \<Longrightarrow> at l pre (enc_dict kvs @ rest) \<Longrightarrow> boundary l \<Longrightarrow>
      \<exists>l'. lexed h l pre (enc_dict kvs) rest (toks_dict (length pre) kvs) l'"
proof (induction v and vs and kvs arbitrary: l pre rest and l pre rest and l pre rest rule: enc_enc_list_enc_dict.induct)
  case (1 s)
  then show ?case using lex_bstr [of l pre s rest h "length pre"] by simp
next
  case (2 i)
  then show ?case using lex_bint [of l pre i rest h] by simp
next
  case (3 vs)
  have a: "at l pre (108 # enc_list vs @ 101 # rest)" using 3 by simp
  show ?case unfolding enc.simps toks.simps
    by (rule lex_bracket [OF a 3(5)]) (use 3(1) [OF 3(2), of _ "pre @ [108]" "101 # rest"] 3(3) in auto)
next
  case (4 kvs)
  have a: "at l pre (100 # enc_dict kvs @ 101 # rest)" using 4 by simp
  show ?case unfolding enc.simps toks.simps
    by (rule lex_bracket [OF a 4(5)]) (use 4(1) [OF 4(2), of _ "pre @ [100]" "101 # rest"] 4(3) in auto)
next
  case 5
  then show ?case by (auto simp: lexed_def intro: lexes_none)
next
  case (6 v vs)
  have a: "at l pre (enc v @ enc_list vs @ rest)" and g: "good v" "good_list vs" using 6(4,5) by simp_all
  obtain l1 where l1: "lexed h l pre (enc v) (enc_list vs @ rest) (toks (length pre) v) l1"
    using 6(1) [OF 6(3) g(1) a 6(6)] by blast
  then have "at l1 (pre @ enc v) (enc_list vs @ rest)" "boundary l1" by (simp_all add: lexed_def)
  then obtain l2 where "lexed h l1 (pre @ enc v) (enc_list vs) rest (toks_list (length (pre @ enc v)) vs) l2"
    using 6(2) [OF 6(3) g(2)] by blast
  from lexed_append [OF l1 this] show ?case by auto
next
  case 7
  then show ?case by (auto simp: lexed_def intro: lexes_none)
next
  case (8 k v kvs)
  have a: "at l pre (enc (BStr k) @ (enc v @ enc_dict kvs) @ rest)" and g: "good_str k" "good v" "good_dict kvs"
    using 8(5,6) by simp_all
  obtain l1 where l1: "lexed h l pre (enc (BStr k)) ((enc v @ enc_dict kvs) @ rest) (toks (length pre) (BStr k)) l1"
    using lex_bstr [OF a 8(7) g(1) 8(4)] by blast
  then have a1: "at l1 (pre @ enc (BStr k)) (enc v @ enc_dict kvs @ rest)" "boundary l1" by (simp_all add: lexed_def)
  then obtain l2 where l2: "lexed h l1 (pre @ enc (BStr k)) (enc v) (enc_dict kvs @ rest) (toks (length (pre @ enc (BStr k))) v) l2"
    using 8(2) [OF 8(4) g(2) a1] by blast
  then have "at l2 ((pre @ enc (BStr k)) @ enc v) (enc_dict kvs @ rest)" "boundary l2" by (simp_all add: lexed_def)
  then obtain l3 where "lexed h l2 ((pre @ enc (BStr k)) @ enc v) (enc_dict kvs) rest (toks_dict (length ((pre @ enc (BStr k)) @ enc v)) kvs) l3"
    using 8(3) [OF 8(4) g(3)] by blast
  from lexed_append [OF l1 lexed_append [OF l2 this]] show ?case by (auto simp: add.assoc)
qed

end
