(* ===== verification/C_String.thy ===== *)
theory C_String
  imports Bencode_Lex
begin

text \<open>
  Text in C: the bytes of a string literal, the characters of a byte sequence, and the functions of the
  C library that cut and read text (\<open>strtok_r\<close>, \<open>atoi\<close>, \<open>strdup\<close>). A C string is the list of its
  characters without the final NUL.
\<close>

section \<open>Characters and bytes\<close>

definition c_lit :: "string \<Rightarrow> byte list" where
  "c_lit s = map of_char s"

definition c_str :: "byte list \<Rightarrow> string" where
  "c_str bs = map (\<lambda>b. char_of (unat b)) bs"

lemma char_of_of_char: "char_of (unat (of_char c :: byte)) = c"
proof -
  have "(of_char c :: byte) = of_nat (of_char c)" by (simp only: of_nat_of_char)
  moreover have "(of_char c :: nat) < 256" by simp
  ultimately have "unat (of_char c :: byte) = of_char c" by (simp add: unat_of_nat)
  then show ?thesis by simp
qed

lemma c_str_lit [simp]: "c_str (c_lit s) = s"
  by (induction s) (simp_all add: c_str_def c_lit_def char_of_of_char)

lemma c_lit_length [simp]: "length (c_lit s) = length s" "length (c_str bs) = length bs"
  by (simp_all add: c_lit_def c_str_def)

lemma of_char_char_of: "of_char (char_of (unat b)) = (b :: byte)"
proof -
  have "(of_char (char_of (unat b)) :: nat) = unat b" using unsigned_less [of b, where 'a = nat] by (simp add: of_char_of)
  then have "(of_nat (of_char (char_of (unat b)) :: nat) :: byte) = b" by simp
  then show ?thesis by (simp only: of_nat_of_char)
qed

lemma c_lit_str [simp]: "c_lit (c_str bs) = bs"
  by (simp add: c_lit_def c_str_def of_char_char_of o_def)

lemma c_lit_simps [simp]: "c_lit [] = []" "c_lit (s @ s') = c_lit s @ c_lit s'" "c_str [] = []" "c_str (bs @ bs') = c_str bs @ c_str bs'"
  by (simp_all add: c_lit_def c_str_def)

section \<open>The C library\<close>

text \<open>
  The next token from offset \<open>off\<close> on with its offset, and the new \<open>save_ptr\<close>. The separator behind a
  token is overwritten by a NUL, which no later call looks at.
\<close>

definition strtok_r :: "string \<Rightarrow> string \<Rightarrow> nat \<Rightarrow> (nat \<times> string) option \<times> nat" where
  "strtok_r buf delim off =
     (let rest = drop off buf;
          start = off + length (takeWhile (\<lambda>c. c \<in> set delim) rest);
          tok = takeWhile (\<lambda>c. c \<notin> set delim) (drop start buf);
          stop = start + length tok
      in if tok = [] then (None, start)
         else (Some (start, tok), if stop < length buf then stop + 1 else stop))"

definition isspace :: "char \<Rightarrow> bool" where
  "isspace c \<longleftrightarrow> c = CHR '' '' \<or> (9 \<le> (of_char c :: nat) \<and> (of_char c :: nat) \<le> 13)"

text \<open>\<open>atoi\<close> is \<open>strtol\<close> in base 10, which first skips white space and accepts a plus sign, cast to \<open>int\<close>.\<close>

definition atoi :: "string \<Rightarrow> int c_result" where
  "atoi s =
     (let s' = dropWhile isspace s;
          s'' = (case s' of c # cs \<Rightarrow> if c = CHR ''+'' then (if cs \<noteq> [] \<and> hd cs = CHR ''-'' then [] else cs) else s' | [] \<Rightarrow> [])
      in c_bind (strtol (c_lit s'' @ [0])) (\<lambda>v. Inr (signed_take_bit 31 v)))"

definition strdup :: "c_heap \<Rightarrow> string \<Rightarrow> string option \<times> c_heap" where
  "strdup h s = (case alloc h of (ok, h') \<Rightarrow> (if ok then Some s else None, h'))"

text \<open>What \<open>printf\<close> writes for an unsigned number.\<close>

definition dec_str :: "nat \<Rightarrow> string" where
  "dec_str n = c_str (dec n)"

section \<open>Cutting text into tokens\<close>

lemma strtok_r_next:
  assumes "set seps \<subseteq> set delim" and "tok \<noteq> []" and "set tok \<inter> set delim = {}" and "d \<in> set delim"
  shows "strtok_r (pre @ seps @ tok @ d # rest) delim (length pre) =
    (Some (length pre + length seps, tok), length pre + length seps + length tok + 1)"
proof -
  obtain c cs where tok: "tok = c # cs" using assms(2) by (cases tok) auto
  have s: "takeWhile (\<lambda>c. c \<in> set delim) (seps @ tok @ d # rest) = seps"
    using assms(1,3) tok by (subst takeWhile_append2) auto
  have t: "takeWhile (\<lambda>c. c \<notin> set delim) (tok @ d # rest) = tok"
    using assms(3,4) by (subst takeWhile_append2) auto
  have "drop (length pre + length seps) (pre @ seps @ tok @ d # rest) = tok @ d # rest" by simp
  then show ?thesis using s t assms(2) by (simp add: strtok_r_def Let_def)
qed

lemma strtok_r_last:
  assumes "set seps \<subseteq> set delim" and "tok \<noteq> []" and "set tok \<inter> set delim = {}"
  shows "strtok_r (pre @ seps @ tok) delim (length pre) =
    (Some (length pre + length seps, tok), length pre + length seps + length tok)"
proof -
  obtain c cs where tok: "tok = c # cs" using assms(2) by (cases tok) auto
  have s: "takeWhile (\<lambda>c. c \<in> set delim) (seps @ tok) = seps"
    using assms(1,3) tok by (subst takeWhile_append2) auto
  have t: "takeWhile (\<lambda>c. c \<notin> set delim) tok = tok"
    using assms(3) by (auto simp: takeWhile_eq_all_conv)
  have "drop (length pre + length seps) (pre @ seps @ tok) = tok" by simp
  then show ?thesis using s t assms(2) by (simp add: strtok_r_def Let_def del: takeWhile_eq_all_conv)
qed

lemma dec_str_chars: "c \<in> set (dec_str n) \<Longrightarrow> \<exists>b. isdigit b \<and> c = char_of (unat b)"
  using dec_digits [of n] by (auto simp: dec_str_def c_str_def list_all_iff)

lemma digit_char:
  assumes "isdigit b"
  shows "48 \<le> (of_char (char_of (unat b)) :: nat) \<and> (of_char (char_of (unat b)) :: nat) \<le> 57"
proof -
  have "unat b \<le> 57" "48 \<le> unat b" using assms by (simp_all add: isdigit_def word_le_nat_alt)
  then show ?thesis by (simp add: of_char_of)
qed

lemma dec_str_range: "c \<in> set (dec_str n) \<Longrightarrow> 48 \<le> (of_char c :: nat) \<and> (of_char c :: nat) \<le> 57"
  using dec_str_chars digit_char by blast

lemma dec_str_free: "CHR '':'' \<notin> set (dec_str n)" "CHR ''/'' \<notin> set (dec_str n)"
  using dec_str_range [of "CHR '':''" n] dec_str_range [of "CHR ''/''" n] by auto

lemma dec_str_nonempty [simp]: "dec_str n \<noteq> []"
  by (simp add: dec_str_def c_str_def)

lemma atoi_dec_str:
  assumes "n < 2 ^ 31"
  shows "atoi (dec_str n) = Inr (int n)"
proof -
  obtain c cs where d: "dec_str n = c # cs" using dec_str_nonempty [of n] by (cases "dec_str n") auto
  have r: "48 \<le> (of_char c :: nat) \<and> (of_char c :: nat) \<le> 57" using dec_str_range [of c n] d by simp
  then have "\<not> isspace c" "c \<noteq> CHR ''+''" by (auto simp: isspace_def)
  moreover have "strtol (c_lit (dec_str n) @ [0]) = Inr (int n)" using strtol_dec [of n "[]"] assms by (simp add: dec_str_def)
  moreover have "signed_take_bit 31 (int n) = int n" using assms by (intro signed_take_bit_int_eq_self) simp_all
  ultimately show ?thesis using d by (simp add: atoi_def)
qed

end
