(* ===== verification/Url.thy ===== *)
theory Url
  imports C_String
begin

text \<open>
  \<open>src/url/url.c\<close>: the address of a tracker, cut at colons and slashes by \<open>strtok_r\<close>. Pointers into the
  copy of the text are offsets; \<open>save_ptr\<close> is the offset the next call starts from.
\<close>

datatype protocol_t = PROTOCOL_UNKNOWN | PROTOCOL_HTTP | PROTOCOL_HTTPS | PROTOCOL_UDP

text \<open>\<open>None\<close>: \<open>strdup\<close> returned NULL.\<close>

record url_t =
  url_protocol :: protocol_t
  url_host :: "string option"
  url_port :: u16
  url_path :: "string option"

section \<open>\<open>url_from_string\<close>\<close>

definition url_protocol_of :: "string \<Rightarrow> protocol_t" where
  "url_protocol_of buf =
     (if take 5 buf = ''http:'' then PROTOCOL_HTTP
      else if take 6 buf = ''https:'' then PROTOCOL_HTTPS
      else if take 6 buf = ''udp://'' then PROTOCOL_UDP
      else PROTOCOL_UNKNOWN)"

text \<open>The port and the \<open>save_ptr\<close> behind it. An address that ends in the colon makes \<open>atoi\<close> read NULL.\<close>

definition url_port_at :: "string \<Rightarrow> protocol_t \<Rightarrow> nat \<Rightarrow> nat \<Rightarrow> (u16 \<times> nat) c_result" where
  "url_port_at input protocol host_end save =
     (if take 1 (drop host_end input) = '':''
      then (case strtok_r input '':/'' save of
              (None, save') \<Rightarrow> Inl Null_Deref
            | (Some (_, port), save') \<Rightarrow> c_bind (atoi port) (\<lambda>v. Inr (word_of_int v, save')))
      else if protocol = PROTOCOL_HTTP then Inr (80, save)
      else if protocol = PROTOCOL_HTTPS then Inr (443, save)
      else Inr (0, save))"

definition url_from_string :: "c_heap \<Rightarrow> string \<Rightarrow> (url_t \<times> c_heap) c_result" where
  "url_from_string h input =
     (let protocol = url_protocol_of input; (_, save1) = strtok_r input '':/'' 0 in
      case strtok_r input '':/'' save1 of
        (None, save2) \<Rightarrow> Inl Null_Deref
      | (Some (start, host), save2) \<Rightarrow>
          (case strdup h host of (host', h1) \<Rightarrow>
             c_bind (url_port_at input protocol (start + length host) save2) (\<lambda>(port, save3).
               let path = (case strtok_r input '':/'' save3 of (None, _) \<Rightarrow> [] | (Some (_, p), _) \<Rightarrow> p) in
               case strdup h1 path of (path', h2) \<Rightarrow>
                 Inr (\<lparr>url_protocol = protocol, url_host = host', url_port = port, url_path = path'\<rparr>, h2))))"

section \<open>Reading back an address\<close>

primrec scheme :: "protocol_t \<Rightarrow> string" where
  "scheme PROTOCOL_UNKNOWN = ''ftp''"
| "scheme PROTOCOL_HTTP = ''http''"
| "scheme PROTOCOL_HTTPS = ''https''"
| "scheme PROTOCOL_UDP = ''udp''"

primrec default_port :: "protocol_t \<Rightarrow> u16" where
  "default_port PROTOCOL_UNKNOWN = 0"
| "default_port PROTOCOL_HTTP = 80"
| "default_port PROTOCOL_HTTPS = 443"
| "default_port PROTOCOL_UDP = 0"

definition url_text :: "protocol_t \<Rightarrow> string \<Rightarrow> nat option \<Rightarrow> string \<Rightarrow> string" where
  "url_text pr host port path =
     scheme pr @ ''://'' @ host @ (case port of None \<Rightarrow> [] | Some p \<Rightarrow> '':'' @ dec_str p) @ ''/'' @ path"

text \<open>A part of an address: not empty, without the separators.\<close>

definition url_part :: "string \<Rightarrow> bool" where
  "url_part s \<longleftrightarrow> s \<noteq> [] \<and> CHR '':'' \<notin> set s \<and> CHR ''/'' \<notin> set s"

lemma scheme_part: "url_part (scheme pr)"
  by (cases pr) (simp_all add: url_part_def)

lemma protocol_of_text: "url_protocol_of (scheme pr @ ''://'' @ rest) = pr"
  by (cases pr) (simp_all add: url_protocol_of_def)

lemma part_tok:
  assumes "url_part s" and "set seps \<subseteq> set '':/''" and "d \<in> set '':/''"
  shows "strtok_r (pre @ seps @ s @ d # rest) '':/'' (length pre) = (Some (length pre + length seps, s), length pre + length seps + length s + 1)"
  using assms by (intro strtok_r_next) (auto simp: url_part_def)

lemma path_tok:
  assumes "url_part s" and "rest = [] \<or> hd rest \<in> set '':/''"
  shows "\<exists>k. strtok_r (pre @ s @ rest) '':/'' (length pre) = (Some (length pre, s), k)"
proof (cases rest)
  case Nil
  then show ?thesis using strtok_r_last [of "[]" "'':/''" s pre] assms(1) by (auto simp: url_part_def)
next
  case (Cons d r)
  then show ?thesis using part_tok [OF assms(1), of "[]" d pre r] assms(2) by auto
qed

lemma url_from_string_ok:
  assumes "url_part host" and "url_part path" and "rest = [] \<or> hd rest \<in> set '':/''" and "\<forall>p \<in> set_option port. p < 2 ^ 16" and "heap_ok h"
  shows "url_from_string h (url_text pr host port (path @ rest)) =
    Inr (\<lparr>url_protocol = pr, url_host = Some host, url_port = (case port of None \<Rightarrow> default_port pr | Some p \<Rightarrow> of_nat p),
          url_path = Some path\<rparr>, h)"
proof -
  let ?in = "url_text pr host port (path @ rest)"
  have p: "url_protocol_of ?in = pr" using protocol_of_text by (simp add: url_text_def)
  have t1: "strtok_r ?in '':/'' 0 = (Some (0, scheme pr), length (scheme pr) + 1)"
    using part_tok [OF scheme_part, of "[]" "CHR '':''" "[]"] by (simp add: url_text_def)
  let ?pre = "scheme pr @ '':''"
  show ?thesis
  proof (cases port)
    case None
    have "strtok_r (?pre @ ''//'' @ host @ CHR ''/'' # path @ rest) '':/'' (length ?pre) =
        (Some (length ?pre + 2, host), length ?pre + 2 + length host + 1)"
      using part_tok [OF assms(1), of "''//''" "CHR ''/''" ?pre "path @ rest"] by simp
    then have t2: "strtok_r ?in '':/'' (length (scheme pr) + 1) = (Some (length ?pre + 2, host), length ?pre + 2 + length host + 1)"
      using None by (simp add: url_text_def)
    have "?in = (?pre @ ''//'' @ host @ ''/'') @ path @ rest" using None by (simp add: url_text_def)
    moreover have "length ?pre + 2 + length host + 1 = length (?pre @ ''//'' @ host @ ''/'')" by simp
    ultimately obtain k where t3: "strtok_r ?in '':/'' (length ?pre + 2 + length host + 1) = (Some (length ?pre + 2 + length host + 1, path), k)"
      using path_tok [OF assms(2,3), of "?pre @ ''//'' @ host @ ''/''"] by metis
    have "drop (length ?pre + 2 + length host) ?in = CHR ''/'' # path @ rest" using None by (simp add: url_text_def numeral_3_eq_3)
    then have "url_port_at ?in pr (length ?pre + 2 + length host) save = Inr (default_port pr, save)" for save
      by (cases pr) (simp_all add: url_port_at_def)
    then show ?thesis using p t1 t2 t3 None assms(5) by (simp add: url_from_string_def strdup_def)
  next
    case (Some n)
    have n: "n < 2 ^ 16" using assms(4) Some by simp
    have "strtok_r (?pre @ ''//'' @ host @ CHR '':'' # dec_str n @ ''/'' @ path @ rest) '':/'' (length ?pre) =
        (Some (length ?pre + 2, host), length ?pre + 2 + length host + 1)"
      using part_tok [OF assms(1), of "''//''" "CHR '':''" ?pre "dec_str n @ ''/'' @ path @ rest"] by simp
    then have t2: "strtok_r ?in '':/'' (length (scheme pr) + 1) = (Some (length ?pre + 2, host), length ?pre + 2 + length host + 1)"
      using Some by (simp add: url_text_def)
    let ?pre2 = "?pre @ ''//'' @ host @ '':''"
    have "url_part (dec_str n)" using dec_str_free [of n] by (simp add: url_part_def)
    from part_tok [OF this, of "[]" "CHR ''/''" ?pre2 "path @ rest"]
    have t3: "strtok_r ?in '':/'' (length ?pre2) = (Some (length ?pre2, dec_str n), length ?pre2 + length (dec_str n) + 1)"
      using Some by (simp add: url_text_def)
    let ?pre3 = "?pre2 @ dec_str n @ ''/''"
    have "?in = ?pre3 @ path @ rest" using Some by (simp add: url_text_def)
    then obtain k where t4: "strtok_r ?in '':/'' (length ?pre3) = (Some (length ?pre3, path), k)" using path_tok [OF assms(2,3)] by metis
    have "drop (length ?pre + 2 + length host) ?in = CHR '':'' # dec_str n @ ''/'' @ path @ rest" using Some by (simp add: url_text_def numeral_3_eq_3)
    moreover have "atoi (dec_str n) = Inr (int n)" using n by (intro atoi_dec_str) simp
    ultimately have "url_port_at ?in pr (length ?pre + 2 + length host) (length ?pre2) = Inr (of_nat n, length ?pre3)"
      using t3 by (simp add: url_port_at_def)
    then show ?thesis using p t1 t2 t4 Some assms(5) by (simp add: url_from_string_def strdup_def)
  qed
qed

text \<open>
  C27. An address \<open>scheme://host:port/path\<close> is taken apart into its protocol, host, port and path, with the
  default port where none is given (80 and 443, 0 for UDP). Of a path with more than one part only the
  first part is kept.
\<close>
theorem url_from_string_reads:
  assumes "url_part host" and "url_part path" and "rest = [] \<or> hd rest \<in> set '':/''" and "\<forall>p \<in> set_option port. p < 2 ^ 16" and "heap_ok h"
  shows "url_from_string h (url_text pr host port (path @ rest)) =
    Inr (\<lparr>url_protocol = pr, url_host = Some host, url_port = (case port of None \<Rightarrow> default_port pr | Some p \<Rightarrow> of_nat p),
          url_path = Some path\<rparr>, h)"
  by (rule url_from_string_ok [OF assms])

theorem url_from_string_reads_witness:
  "url_from_string calm_heap (url_text PROTOCOL_UDP ''concen.org'' (Some 6969) (''announce'' @ ''/x'')) =
    Inr (\<lparr>url_protocol = PROTOCOL_UDP, url_host = Some ''concen.org'', url_port = 6969, url_path = Some ''announce''\<rparr>, calm_heap)"
  using url_from_string_reads [of "''concen.org''" "''announce''" "''/x''" "Some 6969" calm_heap PROTOCOL_UDP]
  by (simp add: url_part_def)

text \<open>The unit tests of \<open>src/url/url_test.c\<close> hold of the model.\<close>

lemma url_test:
  assumes "url_text pr ''tracker.opentrackr.org'' port ''announce'' = input" and "\<forall>p \<in> set_option port. p < 2 ^ 16"
  shows "url_from_string calm_heap input =
    Inr (\<lparr>url_protocol = pr, url_host = Some ''tracker.opentrackr.org'',
          url_port = (case port of None \<Rightarrow> default_port pr | Some p \<Rightarrow> of_nat p), url_path = Some ''announce''\<rparr>, calm_heap)"
  unfolding assms(1) [symmetric]
  using url_from_string_ok [of "''tracker.opentrackr.org''" "''announce''" "[]" port calm_heap pr] assms(2) by (simp add: url_part_def)

lemma dec_str_1337: "dec_str 1337 = ''1337''"
  by code_simp

lemma test_http_url:
  "url_from_string calm_heap ''http://tracker.opentrackr.org:1337/announce'' =
    Inr (\<lparr>url_protocol = PROTOCOL_HTTP, url_host = Some ''tracker.opentrackr.org'', url_port = 1337, url_path = Some ''announce''\<rparr>, calm_heap)"
  using url_test [of PROTOCOL_HTTP "Some 1337" "''http://tracker.opentrackr.org:1337/announce''"]
  by (simp add: url_text_def dec_str_1337)

lemma test_https_url:
  "url_from_string calm_heap ''https://tracker.opentrackr.org:1337/announce'' =
    Inr (\<lparr>url_protocol = PROTOCOL_HTTPS, url_host = Some ''tracker.opentrackr.org'', url_port = 1337, url_path = Some ''announce''\<rparr>, calm_heap)"
  using url_test [of PROTOCOL_HTTPS "Some 1337" "''https://tracker.opentrackr.org:1337/announce''"]
  by (simp add: url_text_def dec_str_1337)

lemma test_default_ports:
  "url_from_string calm_heap ''http://tracker.opentrackr.org/announce'' =
    Inr (\<lparr>url_protocol = PROTOCOL_HTTP, url_host = Some ''tracker.opentrackr.org'', url_port = 80, url_path = Some ''announce''\<rparr>, calm_heap)"
  "url_from_string calm_heap ''https://tracker.opentrackr.org/announce'' =
    Inr (\<lparr>url_protocol = PROTOCOL_HTTPS, url_host = Some ''tracker.opentrackr.org'', url_port = 443, url_path = Some ''announce''\<rparr>, calm_heap)"
  using url_test [of PROTOCOL_HTTP None "''http://tracker.opentrackr.org/announce''"]
    url_test [of PROTOCOL_HTTPS None "''https://tracker.opentrackr.org/announce''"]
  by (simp_all add: url_text_def)

end
