(* ===== verification/Tracker.thy ===== *)
theory Tracker
  imports Url Metainfo
begin

text \<open>
  What the three ways to reach a tracker share: requests and responses (\<open>src/tracker/tracker_announce.h\<close>),
  the request for a torrent (\<open>src/tracker/tracker_request.c\<close>) and the compact list of peers
  (\<open>src/tracker/peer_parser.c\<close>).
\<close>

section \<open>Requests and responses\<close>

datatype tracker_event_t = EVENT_STARTED | EVENT_STOPPED | EVENT_COMPLETED

primrec event_code :: "tracker_event_t \<Rightarrow> u32" where
  "event_code EVENT_STARTED = 0"
| "event_code EVENT_STOPPED = 1"
| "event_code EVENT_COMPLETED = 2"

definition NO_PEER_ID :: byte where "NO_PEER_ID = 1"
definition COMPACT :: byte where "COMPACT = 2"

record tracker_request_t =
  tq_flags :: byte
  tq_info_hash :: "byte list"
  tq_peer_id :: "byte list"
  tq_port :: u16
  tq_uploaded :: nat
  tq_downloaded :: nat
  tq_left :: nat
  tq_event :: tracker_event_t

definition SET_FLAG :: "tracker_request_t \<Rightarrow> byte \<Rightarrow> tracker_request_t" where
  "SET_FLAG req f = req\<lparr>tq_flags := tq_flags req OR f\<rparr>"

definition CLEAR_FLAG :: "tracker_request_t \<Rightarrow> byte \<Rightarrow> tracker_request_t" where
  "CLEAR_FLAG req f = req\<lparr>tq_flags := tq_flags req AND NOT f\<rparr>"

text \<open>The macro assigns: testing a flag clears all others.\<close>

definition HAS_FLAG :: "tracker_request_t \<Rightarrow> byte \<Rightarrow> bool \<times> tracker_request_t" where
  "HAS_FLAG req f = (let req' = req\<lparr>tq_flags := tq_flags req AND f\<rparr> in (tq_flags req' \<noteq> 0, req'))"

text \<open>\<open>tr_peers\<close> is the memory behind the pointer \<open>peers\<close>, \<open>tr_num_peers\<close> the separate field \<open>num_peers\<close>.\<close>

record tracker_response_t =
  tr_failure_reason :: "string option"
  tr_warning_message :: "string option"
  tr_interval :: u32
  tr_tracker_id :: "string option"
  tr_complete :: u32
  tr_incomplete :: u32
  tr_num_peers :: nat
  tr_peers :: "peer_t list"

section \<open>The request for a torrent\<close>

definition multi_left :: "info_t \<Rightarrow> nat" where
  "multi_left info = foldl (\<lambda>result f. (result + fi_length f) mod 2 ^ 64) 0 (info_files info)"

text \<open>
  \<open>None\<close>: \<open>malloc\<close> returned NULL. \<open>event\<close> keeps the zero of \<open>memset\<close>, which is \<open>EVENT_STARTED\<close>.
\<close>

definition build_tracker_announce_request ::
  "c_heap \<Rightarrow> byte list \<Rightarrow> metainfo_t \<Rightarrow> tracker_request_t option \<times> c_heap" where
  "build_tracker_announce_request h peer_id metainfo =
     (case alloc h of (ok, h') \<Rightarrow>
        if \<not> ok then (None, h')
        else
          let left = (case info_mode (mi_info metainfo) of
                        INFO_SINGLE \<Rightarrow> info_length (mi_info metainfo)
                      | INFO_MULTI \<Rightarrow> multi_left (mi_info metainfo));
              req = \<lparr>tq_flags = 0, tq_info_hash = mi_info_hash metainfo, tq_peer_id = peer_id, tq_port = 6889,
                     tq_uploaded = 0, tq_downloaded = 0, tq_left = left, tq_event = EVENT_STARTED\<rparr>
          in (Some (SET_FLAG req COMPACT), h'))"

section \<open>Peers\<close>

definition peer_at :: "byte list \<Rightarrow> nat \<Rightarrow> peer_t c_result" where
  "peer_at buf i =
     c_bind (mem_read buf (int (6 * i)) 4) (\<lambda>ip.
     c_bind (mem_read buf (int (6 * i + 4)) 2) (\<lambda>port.
       Inr \<lparr>peer_ip = mem_u32 ip, peer_port = mem_u16 port, peer_peer_id = replicate 20 0\<rparr>))"

primrec peers_loop :: "byte list \<Rightarrow> nat \<Rightarrow> peer_t list c_result" where
  "peers_loop buf 0 = Inr []"
| "peers_loop buf (Suc i) =
     c_bind (peers_loop buf i) (\<lambda>ps. c_bind (peer_at buf i) (\<lambda>p. Inr (ps @ [p])))"

definition parse_peers :: "c_heap \<Rightarrow> byte list \<Rightarrow> nat \<Rightarrow> (peer_t list \<times> c_heap) c_result" where
  "parse_peers h buf peer_count =
     (case alloc h of (ok, h') \<Rightarrow>
        if peer_count = 0 then Inr ([], h')
        else if \<not> ok then Inl Null_Deref
        else c_bind (peers_loop buf peer_count) (\<lambda>ps. Inr (ps, h')))"

text \<open>The compact form: address and port as they lie in memory, six bytes a peer.\<close>

definition peer_wire :: "peer_t \<Rightarrow> byte list" where
  "peer_wire p = u32_mem (peer_ip p) @ u16_mem (peer_port p)"

definition plain_peer :: "peer_t \<Rightarrow> bool" where
  "plain_peer p \<longleftrightarrow> peer_peer_id p = replicate 20 0"

lemma peer_wire_length [simp]: "length (peer_wire p) = 6"
  by (simp add: peer_wire_def)

lemma peers_wire_length: "length (concat (map peer_wire ps)) = 6 * length ps"
  by (induction ps) simp_all

lemma peers_loop_ok: "list_all plain_peer ps \<Longrightarrow> peers_loop (concat (map peer_wire ps) @ rest) (length ps) = Inr ps"
proof (induction ps arbitrary: rest rule: rev_induct)
  case (snoc p ps)
  let ?buf = "concat (map peer_wire ps) @ peer_wire p @ rest"
  have "length (concat (map peer_wire ps)) = 6 * length ps" by (rule peers_wire_length)
  then have "mem_read ?buf (int (6 * length ps)) 4 = Inr (u32_mem (peer_ip p))" "mem_read ?buf (int (6 * length ps + 4)) 2 = Inr (u16_mem (peer_port p))"
    by (simp_all add: mem_read_def peer_wire_def nat_add_distrib nat_mult_distrib)
  then have "peer_at ?buf (length ps) = Inr p" using snoc.prems by (simp add: peer_at_def plain_peer_def)
  then show ?case using snoc.IH [of "peer_wire p @ rest"] snoc.prems by simp
qed simp

lemma parse_peers_ok:
  assumes "list_all plain_peer ps" and "heap_ok h"
  shows "parse_peers h (concat (map peer_wire ps) @ rest) (length ps) = Inr (ps, h)"
  using peers_loop_ok [OF assms(1)] assms(2) by (auto simp: parse_peers_def)

lemma peers_loop_reads: "6 * n \<le> length buf \<Longrightarrow> \<exists>ps. peers_loop buf n = Inr ps \<and> length ps = n"
proof (induction n)
  case (Suc n)
  then have "mem_read buf (int (6 * n)) 4 = Inr (take 4 (drop (6 * n) buf))"
    "mem_read buf (int (6 * n + 4)) 2 = Inr (take 2 (drop (6 * n + 4) buf))"
    by (intro mem_read_ok; simp)+
  then have "\<exists>p. peer_at buf n = Inr p" by (simp add: peer_at_def)
  then show ?case using Suc by auto
qed simp

section \<open>Properties\<close>

lemma multi_left_sum: "multi_left info = sum_list (map fi_length (info_files info)) mod 2 ^ 64"
proof -
  have "foldl (\<lambda>result f. (result + fi_length f) mod 2 ^ 64) (a mod 2 ^ 64) fs = (a + sum_list (map fi_length fs)) mod 2 ^ 64" for a fs
    by (induction fs arbitrary: a) (simp_all add: mod_add_left_eq add.assoc)
  from this [of 0 "info_files info"] show ?thesis by (simp add: multi_left_def)
qed

text \<open>
  C28. Reading the compact list of peers gives back exactly the peers whose addresses and ports were
  written, whatever follows them in memory.
\<close>
theorem parse_peers_roundtrip:
  assumes "list_all plain_peer ps" and "heap_ok h"
  shows "parse_peers h (concat (map peer_wire ps) @ rest) (length ps) = Inr (ps, h)"
  by (rule parse_peers_ok [OF assms])

text \<open>A peer and a request for the examples.\<close>

definition sample_peer :: peer_t where
  "sample_peer = \<lparr>peer_ip = 0x0100007F, peer_port = 0xE91A, peer_peer_id = replicate 20 0\<rparr>"

definition sample_announce :: tracker_request_t where
  "sample_announce = \<lparr>tq_flags = 2, tq_info_hash = replicate 20 1, tq_peer_id = replicate 20 2, tq_port = 6889, tq_uploaded = 0,
     tq_downloaded = 0, tq_left = 3, tq_event = EVENT_STARTED\<rparr>"

theorem parse_peers_roundtrip_witness:
  "parse_peers calm_heap (concat (map peer_wire [sample_peer]) @ [1]) 1 = Inr ([sample_peer], calm_heap)"
  using parse_peers_roundtrip [of "[sample_peer]" calm_heap "[1]"] by (simp add: plain_peer_def sample_peer_def)

end
