(* ===== verification/Tracker_Udp.thy ===== *)
theory Tracker_Udp
  imports Tracker
begin

text \<open>
  \<open>src/tracker/udp/tracker_udp.c\<close>: the announce over UDP. The socket takes the outcomes of the coming
  \<open>send\<close> and \<open>recv\<close> calls from scripts and records the datagrams sent and the timeouts set; behind the
  end of the scripts a \<open>send\<close> succeeds and a \<open>recv\<close> times out. \<open>clock k\<close> is what the \<open>k\<close>-th call of \<open>time\<close> returns.
\<close>

section \<open>Datagrams\<close>

definition PROTOCOL_ID :: u64 where "PROTOCOL_ID = 0x41727101980"
definition MAX_RECV_BUFSIZE :: nat where "MAX_RECV_BUFSIZE = 2048"

datatype udp_action_t = ACTION_CONNECT | ACTION_ANNOUNCE | ACTION_SCRAPE | ACTION_ERROR

primrec action_code :: "udp_action_t \<Rightarrow> u32" where
  "action_code ACTION_CONNECT = 0"
| "action_code ACTION_ANNOUNCE = 1"
| "action_code ACTION_SCRAPE = 2"
| "action_code ACTION_ERROR = 3"

text \<open>The packed structures, their fields as they are stored; \<open>_bytes\<close> is the memory image that is sent.\<close>

record udp_connect_req_t =
  ucq_connection_id :: "byte list"
  ucq_action :: u32
  ucq_transaction_id :: u32

definition connect_req_bytes :: "udp_connect_req_t \<Rightarrow> byte list" where
  "connect_req_bytes r = ucq_connection_id r @ u32_mem (ucq_action r) @ u32_mem (ucq_transaction_id r)"

record udp_connect_res_t =
  ucs_action :: u32
  ucs_transaction_id :: u32
  ucs_connection_id :: u64

definition connect_res_of :: "byte list \<Rightarrow> udp_connect_res_t" where
  "connect_res_of bs =
     \<lparr>ucs_action = mem_u32 (take 4 bs), ucs_transaction_id = mem_u32 (take 4 (drop 4 bs)),
      ucs_connection_id = mem_u64 (take 8 (drop 8 bs))\<rparr>"

record udp_announce_req_t =
  uaq_connection_id :: u64
  uaq_action :: u32
  uaq_transaction_id :: u32
  uaq_info_hash :: "byte list"
  uaq_peer_id :: "byte list"
  uaq_downloaded :: u64
  uaq_left :: u64
  uaq_uploaded :: u64
  uaq_event :: u32
  uaq_ip_address :: u32
  uaq_key :: u32
  uaq_num_want :: u32
  uaq_port :: u16

definition announce_req_bytes :: "udp_announce_req_t \<Rightarrow> byte list" where
  "announce_req_bytes r =
     u64_mem (uaq_connection_id r) @ u32_mem (uaq_action r) @ u32_mem (uaq_transaction_id r) @ uaq_info_hash r @
     uaq_peer_id r @ u64_mem (uaq_downloaded r) @ u64_mem (uaq_left r) @ u64_mem (uaq_uploaded r) @
     u32_mem (uaq_event r) @ u32_mem (uaq_ip_address r) @ u32_mem (uaq_key r) @ u32_mem (uaq_num_want r) @
     u16_mem (uaq_port r)"

record udp_announce_res_header_t =
  uas_action :: u32
  uas_transaction_id :: u32
  uas_interval :: u32
  uas_leechers :: u32
  uas_seeders :: u32

definition announce_header_of :: "byte list \<Rightarrow> udp_announce_res_header_t" where
  "announce_header_of bs =
     \<lparr>uas_action = mem_u32 (take 4 bs), uas_transaction_id = mem_u32 (take 4 (drop 4 bs)),
      uas_interval = mem_u32 (take 4 (drop 8 bs)), uas_leechers = mem_u32 (take 4 (drop 12 bs)),
      uas_seeders = mem_u32 (take 4 (drop 16 bs))\<rparr>"

section \<open>The socket\<close>

datatype send_outcome = Sent_All | Sent_Part | Send_Again | Send_Failed

record udp_sock =
  us_sends :: "send_outcome list"
  us_dgrams :: "byte list option list"
  us_out :: "byte list list"
  us_timeouts :: "int list"
  us_again :: bool
  us_ticks :: nat

definition time_now :: "(nat \<Rightarrow> int) \<Rightarrow> udp_sock \<Rightarrow> int \<times> udp_sock" where
  "time_now clock s = (clock (us_ticks s), s\<lparr>us_ticks := us_ticks s + 1\<rparr>)"

definition new_transaction_id :: "(u32 \<Rightarrow> u32) \<Rightarrow> (nat \<Rightarrow> int) \<Rightarrow> udp_sock \<Rightarrow> u32 \<times> udp_sock" where
  "new_transaction_id rand_r clock s = (case time_now clock s of (t, s') \<Rightarrow> (rand_r (word_of_int t), s'))"

text \<open>\<open>us_again\<close>: \<open>errno\<close> is \<open>EAGAIN\<close> or \<open>EWOULDBLOCK\<close> after the failed call.\<close>

definition udp_send_dgram :: "udp_sock \<Rightarrow> byte list \<Rightarrow> (int \<times> udp_sock) c_result" where
  "udp_send_dgram s buf =
     (let s' = s\<lparr>us_sends := tl (us_sends s)\<rparr> in
      case us_sends s of
        Send_Again # _ \<Rightarrow> Inr (-1, s'\<lparr>us_again := True\<rparr>)
      | Send_Failed # _ \<Rightarrow> Inr (-1, s'\<lparr>us_again := False\<rparr>)
      | Sent_Part # _ \<Rightarrow> Inl Assert_Failed
      | _ \<Rightarrow> Inr (0, s'\<lparr>us_out := us_out s @ [buf]\<rparr>))"

text \<open>
  The return code, the bytes stored at the start of \<open>buf\<close> and \<open>dgram_size\<close>. The result of \<open>recv\<close> is kept as
  a \<open>size_t\<close>: the value \<open>-1\<close> of a failed call is \<open>2^64 - 1\<close>, the test \<open>n < 0\<close> is never true, and the
  function always returns 0.
\<close>

definition udp_recv_dgram :: "udp_sock \<Rightarrow> int \<Rightarrow> nat \<Rightarrow> int \<times> byte list \<times> nat \<times> udp_sock" where
  "udp_recv_dgram s timeout buf_len =
     (let s' = s\<lparr>us_timeouts := us_timeouts s @ [timeout], us_dgrams := tl (us_dgrams s)\<rparr> in
      case us_dgrams s of
        Some d # _ \<Rightarrow> (0, take buf_len d, min buf_len (length d), s')
      | _ \<Rightarrow> (0, [], 2 ^ 64 - 1, s'))"

text \<open>\<open>out\<close> and \<open>outlen\<close> are the caller's buffer and size, overwritten by what arrives.\<close>

definition overlay :: "byte list \<Rightarrow> byte list \<Rightarrow> byte list" where
  "overlay bs buf = bs @ drop (length bs) buf"

definition udp_tryconnect ::
  "udp_sock \<Rightarrow> int \<Rightarrow> u32 \<Rightarrow> byte list \<Rightarrow> nat \<Rightarrow> (int \<times> byte list \<times> nat \<times> udp_sock) c_result" where
  "udp_tryconnect s timeout transaction_id out outlen =
     (let req = \<lparr>ucq_connection_id = be64 PROTOCOL_ID, ucq_action = htonl (action_code ACTION_CONNECT),
                 ucq_transaction_id = transaction_id\<rparr> in
      c_bind (udp_send_dgram s (connect_req_bytes req)) (\<lambda>(r, s1).
        if r < 0 then Inr (-1, out, outlen, s1)
        else case udp_recv_dgram s1 timeout 16 of (r', bs, n, s2) \<Rightarrow>
          if r' < 0 then Inr (-1, out, outlen, s2) else Inr (0, overlay bs out, n, s2)))"

definition udp_tryannounce ::
  "udp_sock \<Rightarrow> int \<Rightarrow> udp_announce_req_t \<Rightarrow> byte list \<Rightarrow> nat \<Rightarrow> (int \<times> byte list \<times> nat \<times> udp_sock) c_result" where
  "udp_tryannounce s timeout req out outlen =
     c_bind (udp_send_dgram s (announce_req_bytes req)) (\<lambda>(r, s1).
       if r < 0 then Inr (-1, out, outlen, s1)
       else case udp_recv_dgram s1 timeout MAX_RECV_BUFSIZE of (r', bs, n, s2) \<Rightarrow>
         if r' < 0 then Inr (-1, out, outlen, s2) else Inr (0, overlay bs out, n, s2))"

definition timeout :: "nat \<Rightarrow> int" where
  "timeout n = 30 * push_bit n 1"

text \<open>
  \<open>htonl\<close> is applied to the 64-bit counters and to the 16-bit port as well: the counters are cut to
  32 bits and swapped inside the lower half, and of the port only the upper half of the swapped word,
  which is zero, remains.
\<close>

definition fill_announce_request :: "tracker_request_t \<Rightarrow> u64 \<Rightarrow> u32 \<Rightarrow> udp_announce_req_t" where
  "fill_announce_request req connection_id transaction_id =
     \<lparr>uaq_connection_id = connection_id, uaq_action = htonl (action_code ACTION_ANNOUNCE),
      uaq_transaction_id = transaction_id, uaq_info_hash = take 20 (tq_info_hash req), uaq_peer_id = take 20 (tq_peer_id req),
      uaq_downloaded = ucast (htonl (of_nat (tq_downloaded req))), uaq_left = ucast (htonl (of_nat (tq_left req))),
      uaq_uploaded = ucast (htonl (of_nat (tq_uploaded req))), uaq_event = htonl (event_code (tq_event req)),
      uaq_ip_address = 0, uaq_key = 0, uaq_num_want = htonl 50, uaq_port = ucast (htonl (ucast (tq_port req)))\<rparr>"

section \<open>The announce\<close>

lemma udp_send_dgram_fail: "udp_send_dgram s buf = Inr (r, s') \<Longrightarrow> r < 0 \<Longrightarrow> length (us_sends s') < length (us_sends s)"
  by (auto simp: udp_send_dgram_def Let_def split: list.splits send_outcome.splits)

lemma udp_send_dgram_le: "udp_send_dgram s buf = Inr (r, s') \<Longrightarrow> length (us_sends s') \<le> length (us_sends s)"
  by (auto simp: udp_send_dgram_def Let_def split: list.splits send_outcome.splits)

lemma udp_recv_dgram_frame: "udp_recv_dgram s t n = (r, bs, k, s') \<Longrightarrow> r = 0 \<and> us_sends s' = us_sends s \<and> length bs \<le> n"
  by (auto simp: udp_recv_dgram_def Let_def split: list.splits option.splits)

lemma udp_tryconnect_progress:
  "udp_tryconnect s t tid out n = Inr (r, out', n', s') \<Longrightarrow>
   length (us_sends s') \<le> length (us_sends s) \<and> (r < 0 \<longrightarrow> length (us_sends s') < length (us_sends s))"
  by (auto simp: udp_tryconnect_def Let_def c_bind_eq_Inr split: if_splits prod.splits
      dest!: udp_recv_dgram_frame dest: udp_send_dgram_fail udp_send_dgram_le)

lemma udp_tryannounce_progress:
  "udp_tryannounce s t req out n = Inr (r, out', n', s') \<Longrightarrow>
   length (us_sends s') \<le> length (us_sends s) \<and> (r \<noteq> 0 \<longrightarrow> length (us_sends s') < length (us_sends s))"
  by (auto simp: udp_tryannounce_def Let_def c_bind_eq_Inr split: if_splits prod.splits
      dest!: udp_recv_dgram_frame dest: udp_send_dgram_fail udp_send_dgram_le)

text \<open>
  The loop around \<open>udp_tryconnect\<close>, from the \<open>n\<close>-th attempt on: \<open>None\<close> is the return of NULL. A round is
  repeated only after a failed \<open>send\<close>.
\<close>

function connect_loop ::
  "udp_sock \<Rightarrow> nat \<Rightarrow> u32 \<Rightarrow> byte list \<Rightarrow> nat \<Rightarrow> ((byte list \<times> nat) option \<times> udp_sock) c_result" where
  "connect_loop s n transaction_id res dgram_size =
     c_bind (udp_tryconnect s (timeout n) transaction_id res dgram_size) (\<lambda>(r, res', size', s').
       if r < 0 then
         if n + 1 = 8 then Inr (None, s')
         else if \<not> us_again s' then Inr (None, s')
         else connect_loop s' (n + 1) transaction_id res' size'
       else Inr (Some (res', size'), s'))"
  by pat_completeness auto
termination
  by (relation "measure (\<lambda>(s, _). length (us_sends s))") (auto dest: udp_tryconnect_progress)

declare connect_loop.simps [simp del]

datatype announce_outcome = Gave_Up | Expired nat | Received "byte list" nat

function announce_loop ::
  "(nat \<Rightarrow> int) \<Rightarrow> int \<Rightarrow> udp_announce_req_t \<Rightarrow> udp_sock \<Rightarrow> nat \<Rightarrow> byte list \<Rightarrow> nat \<Rightarrow> (announce_outcome \<times> udp_sock) c_result" where
  "announce_loop clock request_time req s n all dgram_size =
     c_bind (udp_tryannounce s (timeout n) req all dgram_size) (\<lambda>(r, all', size', s').
       if r \<noteq> 0 then
         if n + 1 = 8 then Inr (Gave_Up, s')
         else if \<not> us_again s' then Inr (Gave_Up, s')
         else case time_now clock s' of (now, s'') \<Rightarrow>
           if now - request_time > 30 then Inr (Expired (n + 1), s'')
           else announce_loop clock request_time req s'' (n + 1) all' size'
       else Inr (Received all' size', s'))"
  by pat_completeness auto
termination
  by (relation "measure (\<lambda>(_, _, _, s, _). length (us_sends s))") (auto simp: time_now_def dest: udp_tryannounce_progress)

declare announce_loop.simps [simp del]


definition udp_response ::
  "c_heap \<Rightarrow> u32 \<Rightarrow> byte list \<Rightarrow> nat \<Rightarrow> (tracker_response_t option \<times> c_heap) c_result" where
  "udp_response h transaction_id all dgram_size =
     (let header = announce_header_of all in
      if dgram_size < 20 then Inr (None, h)
      else if ntohl (uas_action header) = action_code ACTION_ERROR then Inr (None, h)
      else if uas_transaction_id header \<noteq> transaction_id then Inr (None, h)
      else case alloc h of (ok, h1) \<Rightarrow>
        if \<not> ok then Inl Null_Deref
        else let peer_buf_len = size_sub dgram_size 20; num_peers = peer_buf_len div 6 in
          c_bind (c_assert (peer_buf_len mod 6 = 0)) (\<lambda>_.
          c_bind (parse_peers h1 (drop 20 all) num_peers) (\<lambda>(peers, h2).
            Inr (Some \<lparr>tr_failure_reason = None, tr_warning_message = None, tr_interval = ntohl (uas_interval header),
                       tr_tracker_id = None, tr_complete = ntohl (uas_seeders header),
                       tr_incomplete = ntohl (uas_leechers header), tr_num_peers = num_peers, tr_peers = peers\<rparr>, h2))))"

lemma connect_loop_le:
  "connect_loop s n tid res sz = Inr (r, s') \<Longrightarrow> length (us_sends s') \<le> length (us_sends s)"
proof (induction s n tid res sz rule: connect_loop.induct)
  case (1 s n tid res sz)
  obtain r1 res1 sz1 s1 where t: "udp_tryconnect s (timeout n) tid res sz = Inr (r1, res1, sz1, s1)"
    using 1(2) by (subst (asm) connect_loop.simps) (auto simp: c_bind_eq_Inr)
  note p = udp_tryconnect_progress [OF t]
  show ?case
  proof (cases "r1 < 0 \<and> n + 1 \<noteq> 8 \<and> us_again s1")
    case True
    then have "connect_loop s1 (n + 1) tid res1 sz1 = Inr (r, s')" using 1(2) t by (subst (asm) connect_loop.simps) simp
    then show ?thesis using 1(1) [OF t refl refl refl] True p by fastforce
  next
    case False
    then show ?thesis using 1(2) t p by (subst (asm) connect_loop.simps) (auto split: if_splits)
  qed
qed

lemma announce_loop_less:
  "announce_loop clock rt req s n all sz = Inr (r, s') \<Longrightarrow>
   length (us_sends s') \<le> length (us_sends s) \<and> (\<forall>k. r = Expired k \<longrightarrow> length (us_sends s') < length (us_sends s))"
proof (induction clock rt req s n all sz rule: announce_loop.induct)
  case (1 clock rt req s n all sz)
  obtain r1 all1 sz1 s1 where t: "udp_tryannounce s (timeout n) req all sz = Inr (r1, all1, sz1, s1)"
    using 1(2) by (subst (asm) announce_loop.simps) (auto simp: c_bind_eq_Inr)
  note p = udp_tryannounce_progress [OF t]
  obtain now s2 where c: "time_now clock s1 = (now, s2)" and s2: "us_sends s2 = us_sends s1" by (simp add: time_now_def)
  show ?case
  proof (cases "r1 \<noteq> 0 \<and> n + 1 \<noteq> 8 \<and> us_again s1 \<and> \<not> now - rt > 30")
    case True
    then have "announce_loop clock rt req s2 (n + 1) all1 sz1 = Inr (r, s')" using 1(2) t c by (subst (asm) announce_loop.simps) simp
    then show ?thesis using 1(1) [OF t refl refl refl _ _ _ c [symmetric]] True p s2 by fastforce
  next
    case False
    then show ?thesis using 1(2) t p c s2 by (subst (asm) announce_loop.simps) (auto split: if_splits)
  qed
qed

lemma announce_loop_expired: "announce_loop clock rt req s n all sz = Inr (Expired k, s') \<Longrightarrow> length (us_sends s') < length (us_sends s)"
  using announce_loop_less by blast

text \<open>
  From the label \<open>reconnect\<close> on. A reconnection happens only after a failed \<open>send\<close>, so the jumps back end
  when the script of failures does.
\<close>

function udp_rounds ::
  "(nat \<Rightarrow> int) \<Rightarrow> tracker_request_t \<Rightarrow> u32 \<Rightarrow> c_heap \<Rightarrow> udp_sock \<Rightarrow> nat \<Rightarrow> byte list \<Rightarrow> nat \<Rightarrow>
   (tracker_response_t option \<times> udp_sock \<times> c_heap) c_result" where
  "udp_rounds clock req tid h s n res dgram_size =
     c_bind (connect_loop s n tid res dgram_size) (\<lambda>(r, s1).
       case r of
         None \<Rightarrow> Inr (None, s1, h)
       | Some (res', size1) \<Rightarrow>
           (case time_now clock s1 of (request_time, s2) \<Rightarrow>
              c_bind (c_assert (size1 = 16)) (\<lambda>_.
                let cr = connect_res_of res' in
                if tid \<noteq> ucs_transaction_id cr then Inr (None, s2, h)
                else if ucs_action cr \<noteq> action_code ACTION_CONNECT then Inr (None, s2, h)
                else
                  c_bind (announce_loop clock request_time (fill_announce_request req (ucs_connection_id cr) tid) s2 0
                            (replicate MAX_RECV_BUFSIZE 0) size1) (\<lambda>(outcome, s3).
                    case outcome of
                      Gave_Up \<Rightarrow> Inr (None, s3, h)
                    | Expired n' \<Rightarrow> udp_rounds clock req tid h s3 n' res' size1
                    | Received all size2 \<Rightarrow>
                        c_bind (udp_response h tid all size2) (\<lambda>(response, h'). Inr (response, s3, h'))))))"
  by pat_completeness auto
termination
  by (relation "measure (\<lambda>(_, _, _, _, s, _). length (us_sends s))") (auto simp: time_now_def dest!: connect_loop_le announce_loop_expired)

declare udp_rounds.simps [simp del]

text \<open>\<open>res\<close> and \<open>dgram_size\<close> start uninitialised.\<close>

definition udp_announce ::
  "(nat \<Rightarrow> int) \<Rightarrow> (u32 \<Rightarrow> u32) \<Rightarrow> tracker_request_t \<Rightarrow> c_heap \<Rightarrow> udp_sock \<Rightarrow>
   (tracker_response_t option \<times> udp_sock \<times> c_heap) c_result" where
  "udp_announce clock rand_r req h s =
     (case new_transaction_id rand_r clock s of (tid, s') \<Rightarrow>
        udp_rounds clock req tid h s' 0 (map (heap_junk h) [0..<16]) (unat (heap_junk h 16)))"

end
