(* ===== verification/Udp_Announce.thy ===== *)
theory Udp_Announce
  imports Tracker_Udp
begin

text \<open>What an announce over UDP does: a well-behaved exchange, the request on the wire, and every other one.\<close>

section \<open>A well-behaved tracker\<close>

definition connect_reply :: "u32 \<Rightarrow> u64 \<Rightarrow> byte list" where
  "connect_reply tid cid = be32 (action_code ACTION_CONNECT) @ u32_mem tid @ u64_mem cid"

definition announce_reply :: "u32 \<Rightarrow> u32 \<Rightarrow> u32 \<Rightarrow> u32 \<Rightarrow> peer_t list \<Rightarrow> byte list" where
  "announce_reply tid interval leechers seeders ps =
     be32 (action_code ACTION_ANNOUNCE) @ u32_mem tid @ be32 interval @ be32 leechers @ be32 seeders @ concat (map peer_wire ps)"

lemma htonl_0 [simp]: "htonl 0 = 0" "ntohl 0 = 0"
  by (simp_all add: htonl_def ntohl_def mem_u32_def u32_mem_def)

lemma mem_u32_be32: "mem_u32 (be32 x) = htonl x"
  by (simp add: be32_def)

lemma connect_res_of_reply:
  "connect_res_of (connect_reply tid cid) = \<lparr>ucs_action = 0, ucs_transaction_id = tid, ucs_connection_id = cid\<rparr>"
  by (simp add: connect_res_of_def connect_reply_def mem_u32_be32)

lemma announce_header_of_reply:
  "announce_header_of (announce_reply tid i l s ps @ rest) =
     \<lparr>uas_action = htonl 1, uas_transaction_id = tid, uas_interval = htonl i, uas_leechers = htonl l, uas_seeders = htonl s\<rparr>"
  by (simp add: announce_header_of_def announce_reply_def mem_u32_be32)

lemma announce_reply_length: "length (announce_reply tid i l s ps) = 20 + 6 * length ps"
  by (simp add: announce_reply_def peers_wire_length)

lemma connect_loop_answered:
  assumes "us_sends s = []" and "us_dgrams s = Some d # ds" and "length d \<le> 16" and "length res = 16"
  shows "connect_loop s n tid res sz = Inr (Some (overlay d res, length d),
     s\<lparr>us_out := us_out s @ [be64 PROTOCOL_ID @ be32 0 @ u32_mem tid], us_timeouts := us_timeouts s @ [timeout n], us_dgrams := ds\<rparr>)"
  using assms
  by (subst connect_loop.simps)
     (simp add: udp_tryconnect_def udp_send_dgram_def udp_recv_dgram_def connect_req_bytes_def be32_def min_def Let_def)

lemma announce_loop_answered:
  assumes "us_sends s = []" and "us_dgrams s = Some d # ds" and "length d \<le> 2048"
  shows "announce_loop clock rt req s n all sz = Inr (Received (overlay d all) (length d),
     s\<lparr>us_out := us_out s @ [announce_req_bytes req], us_timeouts := us_timeouts s @ [timeout n], us_dgrams := ds\<rparr>)"
  using assms
  by (subst announce_loop.simps)
     (simp add: udp_tryannounce_def udp_send_dgram_def udp_recv_dgram_def MAX_RECV_BUFSIZE_def min_def Let_def)

lemma udp_response_reply:
  assumes "list_all plain_peer ps" and "heap_ok h" and "length ps \<le> 338"
  shows "udp_response h tid (announce_reply tid i l s ps @ rest) (20 + 6 * length ps) =
    Inr (Some \<lparr>tr_failure_reason = None, tr_warning_message = None, tr_interval = i, tr_tracker_id = None,
       tr_complete = s, tr_incomplete = l, tr_num_peers = length ps, tr_peers = ps\<rparr>, h)"
proof -
  have len: "size_sub (20 + 6 * length ps) 20 = 6 * length ps" using assms(3) by (subst size_sub_exact) simp_all
  have d: "drop 20 (announce_reply tid i l s ps @ rest) = concat (map peer_wire ps) @ rest" by (simp add: announce_reply_def)
  have a: "ntohl (htonl 1) \<noteq> action_code ACTION_ERROR" by simp
  show ?thesis
    using parse_peers_ok [OF assms(1,2), of rest] assms(2) len
    by (simp add: udp_response_def announce_header_of_reply d Let_def del: drop_append)
qed

lemma udp_rounds_answered:
  assumes "us_sends s = []" and "us_dgrams s = Some (connect_reply tid cid) # Some (announce_reply tid i l sd ps) # ds"
    and "list_all plain_peer ps" and "heap_ok h" and "length ps \<le> 338" and "length res = 16"
  shows "\<exists>s'. udp_rounds clock req tid h s n res sz =
      Inr (Some \<lparr>tr_failure_reason = None, tr_warning_message = None, tr_interval = i, tr_tracker_id = None,
         tr_complete = sd, tr_incomplete = l, tr_num_peers = length ps, tr_peers = ps\<rparr>, s', h) \<and>
    us_out s' = us_out s @ [be64 PROTOCOL_ID @ be32 0 @ u32_mem tid, announce_req_bytes (fill_announce_request req cid tid)]"
proof -
  have c: "length (connect_reply tid cid) = 16" by (simp add: connect_reply_def)
  then have ov: "overlay (connect_reply tid cid) res = connect_reply tid cid" using assms(6) by (simp add: overlay_def)
  let ?s1 = "s\<lparr>us_out := us_out s @ [be64 PROTOCOL_ID @ be32 0 @ u32_mem tid], us_timeouts := us_timeouts s @ [timeout n],
       us_dgrams := Some (announce_reply tid i l sd ps) # ds\<rparr>"
  let ?s2 = "?s1\<lparr>us_ticks := Suc (us_ticks s)\<rparr>"
  let ?d = "announce_reply tid i l sd ps" and ?r = "fill_announce_request req cid tid"
  have cl: "connect_loop s n tid res sz = Inr (Some (connect_reply tid cid, 16), ?s1)"
    using connect_loop_answered [OF assms(1,2), of res n tid sz] c ov assms(6) by simp
  have "length ?d \<le> 2048" using announce_reply_length assms(5) by simp
  then have al: "announce_loop clock (clock (us_ticks s)) ?r ?s2 0 (replicate MAX_RECV_BUFSIZE 0) 16 =
      Inr (Received (overlay ?d (replicate MAX_RECV_BUFSIZE 0)) (length ?d), ?s2\<lparr>us_out := us_out ?s2 @ [announce_req_bytes ?r],
        us_timeouts := us_timeouts ?s2 @ [timeout 0], us_dgrams := ds\<rparr>)"
    using assms(1) by (intro announce_loop_answered) simp_all
  have rs: "udp_response h tid (overlay ?d (replicate MAX_RECV_BUFSIZE 0)) (length ?d) =
    Inr (Some \<lparr>tr_failure_reason = None, tr_warning_message = None, tr_interval = i, tr_tracker_id = None,
       tr_complete = sd, tr_incomplete = l, tr_num_peers = length ps, tr_peers = ps\<rparr>, h)"
    unfolding overlay_def announce_reply_length by (rule udp_response_reply [OF assms(3-5)])
  show ?thesis
    by (subst udp_rounds.simps) (simp add: cl time_now_def connect_res_of_reply al rs)
qed

text \<open>
  C22. A tracker that answers is understood: when both datagrams are sent and the tracker replies to the
  connection and to the announce with the transaction id it was given, \<open>udp_announce\<close> returns the
  interval, the numbers of seeders and leechers and exactly the peers of the reply, and has sent exactly
  the connection request and the announce with the connection id it was given.
\<close>
theorem udp_announce_answered:
  assumes "us_sends s = []" and "tid = rand_r (word_of_int (clock (us_ticks s)))"
    and "us_dgrams s = Some (connect_reply tid cid) # Some (announce_reply tid i l sd ps) # ds"
    and "list_all plain_peer ps" and "heap_ok h" and "length ps \<le> 338"
  shows "\<exists>s'. udp_announce clock rand_r req h s =
      Inr (Some \<lparr>tr_failure_reason = None, tr_warning_message = None, tr_interval = i, tr_tracker_id = None,
         tr_complete = sd, tr_incomplete = l, tr_num_peers = length ps, tr_peers = ps\<rparr>, s', h) \<and>
    us_out s' = us_out s @ [be64 PROTOCOL_ID @ be32 0 @ u32_mem tid, announce_req_bytes (fill_announce_request req cid tid)]"
  using udp_rounds_answered [of "s\<lparr>us_ticks := us_ticks s + 1\<rparr>" tid cid i l sd ps ds h "map (heap_junk h) [0..<16]" clock req 0 "unat (heap_junk h 16)"] assms
  by (simp add: udp_announce_def new_transaction_id_def time_now_def)

section \<open>The request on the wire\<close>

lemma u64_mem_ucast: "u64_mem (ucast (x :: u32)) = u32_mem x @ replicate 4 0"
proof -
  have "(ucast (ucast x :: u64) :: u32) = x" "(ucast (drop_bit 32 (ucast x :: u64)) :: u32) = 0"
    by (rule bit_word_eqI; auto simp: bit_simps dest: bit_imp_le_length)+
  moreover have "u32_mem 0 = replicate 4 0" by (simp add: u32_mem_def numeral_eq_Suc)
  ultimately show ?thesis by (simp add: u64_mem_def)
qed

lemma ucast_htonl_port: "(ucast (htonl (ucast (p :: u16))) :: u16) = 0"
  by (rule bit_word_eqI) (auto simp: htonl_def mem_u32_def u32_mem_def bit_simps dest: bit_imp_le_length)

text \<open>
  The announce as it goes over the wire. Ids, action and event are in network order; the three
  counters are cut to 32 bits and stand in the wrong half of their field, so that the tracker reads them
  multiplied by \<open>2^32\<close>; the port is always 0.
\<close>
theorem udp_announce_request_wire:
  assumes "length (tq_info_hash req) = 20" and "length (tq_peer_id req) = 20"
  shows "announce_req_bytes (fill_announce_request req cid tid) =
    u64_mem cid @ be32 1 @ u32_mem tid @ tq_info_hash req @ tq_peer_id req @
    be32 (of_nat (tq_downloaded req)) @ replicate 4 0 @ be32 (of_nat (tq_left req)) @ replicate 4 0 @
    be32 (of_nat (tq_uploaded req)) @ replicate 4 0 @ be32 (event_code (tq_event req)) @ replicate 8 0 @ be32 50 @ [0, 0]"
proof -
  have z: "u32_mem 0 @ u32_mem 0 = replicate 8 0" by (simp add: u32_mem_def numeral_eq_Suc)
  have p: "u16_mem 0 = [0, 0]" by (simp add: u16_mem_def)
  show ?thesis
    using assms z p
    by (simp add: announce_req_bytes_def fill_announce_request_def u64_mem_ucast ucast_htonl_port be32_def)
qed

section \<open>Every exchange\<close>

text \<open>The timeouts an attempt may set: the eight of the protocol.\<close>

definition timeouts_ok :: "udp_sock \<Rightarrow> udp_sock \<Rightarrow> bool" where
  "timeouts_ok s s' \<longleftrightarrow> (\<exists>ts. us_timeouts s' = us_timeouts s @ ts \<and> list_all (\<lambda>t. t \<in> (\<lambda>k. 30 * 2 ^ k) ` {..<8}) ts)"

lemma timeouts_ok_refl [simp]: "timeouts_ok s s"
  by (simp add: timeouts_ok_def)

lemma timeouts_ok_trans: "timeouts_ok s s' \<Longrightarrow> timeouts_ok s' s'' \<Longrightarrow> timeouts_ok s s''"
  by (auto simp: timeouts_ok_def)

lemma time_now_ok: "time_now clock s = (t, s') \<Longrightarrow> timeouts_ok s s'"
  by (auto simp: time_now_def timeouts_ok_def)

definition dgram_result :: "nat \<Rightarrow> byte list \<Rightarrow> nat \<Rightarrow> bool" where
  "dgram_result n buf sz \<longleftrightarrow> length buf = n \<and> (sz \<le> n \<or> sz = 2 ^ 64 - 1)"

lemma recv_result:
  assumes "udp_recv_dgram s (timeout n) k = (r, bs, sz, s')" and "length out = k" and "n < 8"
  shows "r = 0 \<and> dgram_result k (overlay bs out) sz \<and> timeouts_ok s s'"
  using assms
  by (auto simp: udp_recv_dgram_def overlay_def dgram_result_def timeouts_ok_def timeout_def Let_def push_bit_eq_mult min_def
      split: list.splits option.splits)

lemma send_result:
  "udp_send_dgram s buf = Inl e \<Longrightarrow> e = Assert_Failed"
  "udp_send_dgram s buf = Inr (r, s') \<Longrightarrow> timeouts_ok s s'"
  by (auto simp: udp_send_dgram_def timeouts_ok_def Let_def split: list.splits send_outcome.splits)

lemma c_bind_eq_Inl: "c_bind m f = Inl e \<longleftrightarrow> m = Inl e \<or> (\<exists>x. m = Inr x \<and> f x = Inl e)"
  by (cases m) auto

lemma tryconnect_result:
  assumes "length out = 16" and "n < 8"
  shows "udp_tryconnect s (timeout n) tid out sz = Inl e \<Longrightarrow> e = Assert_Failed"
    and "udp_tryconnect s (timeout n) tid out sz = Inr (r, out', sz', s') \<Longrightarrow>
      timeouts_ok s s' \<and> length out' = 16 \<and> (r \<ge> 0 \<longrightarrow> dgram_result 16 out' sz')"
proof -
  show "udp_tryconnect s (timeout n) tid out sz = Inl e \<Longrightarrow> e = Assert_Failed"
    by (auto simp: udp_tryconnect_def Let_def c_bind_eq_Inl split: if_splits prod.splits dest: send_result(1))
  assume "udp_tryconnect s (timeout n) tid out sz = Inr (r, out', sz', s')"
  then obtain r1 s1 where s1: "udp_send_dgram s (connect_req_bytes \<lparr>ucq_connection_id = be64 PROTOCOL_ID, ucq_action = htonl (action_code ACTION_CONNECT),
        ucq_transaction_id = tid\<rparr>) = Inr (r1, s1)"
    and c: "(if r1 < 0 then Inr (- 1, out, sz, s1) else case udp_recv_dgram s1 (timeout n) 16 of (r', bs, n, s2) \<Rightarrow>
          if r' < 0 then Inr (- 1, out, sz, s2) else Inr (0, overlay bs out, n, s2)) = (Inr (r, out', sz', s') :: (int \<times> byte list \<times> nat \<times> udp_sock) c_result)"
    by (auto simp: udp_tryconnect_def Let_def c_bind_eq_Inr)
  obtain r2 bs k s2 where rv: "udp_recv_dgram s1 (timeout n) 16 = (r2, bs, k, s2)" by (cases "udp_recv_dgram s1 (timeout n) 16") auto
  from recv_result [OF rv assms] c rv show "timeouts_ok s s' \<and> length out' = 16 \<and> (r \<ge> 0 \<longrightarrow> dgram_result 16 out' sz')"
    using send_result(2) [OF s1] assms(1) by (auto simp: dgram_result_def intro: timeouts_ok_trans split: if_splits)
qed

lemma tryannounce_result:
  assumes "length out = 2048" and "n < 8"
  shows "udp_tryannounce s (timeout n) req out sz = Inl e \<Longrightarrow> e = Assert_Failed"
    and "udp_tryannounce s (timeout n) req out sz = Inr (r, out', sz', s') \<Longrightarrow>
      timeouts_ok s s' \<and> length out' = 2048 \<and> (r = 0 \<longrightarrow> dgram_result 2048 out' sz')"
proof -
  show "udp_tryannounce s (timeout n) req out sz = Inl e \<Longrightarrow> e = Assert_Failed"
    by (auto simp: udp_tryannounce_def Let_def c_bind_eq_Inl split: if_splits prod.splits dest: send_result(1))
  assume "udp_tryannounce s (timeout n) req out sz = Inr (r, out', sz', s')"
  then obtain r1 s1 where s1: "udp_send_dgram s (announce_req_bytes req) = Inr (r1, s1)"
    and c: "(if r1 < 0 then Inr (- 1, out, sz, s1) else case udp_recv_dgram s1 (timeout n) MAX_RECV_BUFSIZE of (r', bs, n, s2) \<Rightarrow>
          if r' < 0 then Inr (- 1, out, sz, s2) else Inr (0, overlay bs out, n, s2)) = (Inr (r, out', sz', s') :: (int \<times> byte list \<times> nat \<times> udp_sock) c_result)"
    by (auto simp: udp_tryannounce_def Let_def c_bind_eq_Inr)
  obtain r2 bs k s2 where rv: "udp_recv_dgram s1 (timeout n) 2048 = (r2, bs, k, s2)" by (cases "udp_recv_dgram s1 (timeout n) 2048") auto
  from recv_result [OF rv assms] c rv show "timeouts_ok s s' \<and> length out' = 2048 \<and> (r = 0 \<longrightarrow> dgram_result 2048 out' sz')"
    using send_result(2) [OF s1] assms(1) by (auto simp: dgram_result_def MAX_RECV_BUFSIZE_def intro: timeouts_ok_trans split: if_splits)
qed

text \<open>\<open>r\<close> ends in a failed assertion or in a value with \<open>P\<close>.\<close>

definition asserts :: "'a c_result \<Rightarrow> ('a \<Rightarrow> bool) \<Rightarrow> bool" where
  "asserts r P \<longleftrightarrow> (case r of Inl e \<Rightarrow> e = Assert_Failed | Inr x \<Rightarrow> P x)"

lemma asserts_simps [simp]: "asserts (Inr x) P = P x" "asserts (Inl e) P = (e = Assert_Failed)"
  by (simp_all add: asserts_def)

lemma asserts_bind: "asserts r P \<Longrightarrow> (\<And>x. r = Inr x \<Longrightarrow> P x \<Longrightarrow> asserts (f x) Q) \<Longrightarrow> asserts (c_bind r f) Q"
  by (cases r) simp_all

lemma asserts_weaken: "asserts r P \<Longrightarrow> (\<And>x. P x \<Longrightarrow> Q x) \<Longrightarrow> asserts r Q"
  by (cases r) simp_all

lemma tryconnect_asserts:
  "length out = 16 \<Longrightarrow> n < 8 \<Longrightarrow> asserts (udp_tryconnect s (timeout n) tid out sz)
     (\<lambda>(r, out', sz', s'). timeouts_ok s s' \<and> length out' = 16 \<and> (r \<ge> 0 \<longrightarrow> dgram_result 16 out' sz'))"
  using tryconnect_result [of out n s tid sz] by (cases "udp_tryconnect s (timeout n) tid out sz") auto

lemma tryannounce_asserts:
  "length out = 2048 \<Longrightarrow> n < 8 \<Longrightarrow> asserts (udp_tryannounce s (timeout n) req out sz)
     (\<lambda>(r, out', sz', s'). timeouts_ok s s' \<and> length out' = 2048 \<and> (r = 0 \<longrightarrow> dgram_result 2048 out' sz'))"
  using tryannounce_result [of out n s req sz] by (cases "udp_tryannounce s (timeout n) req out sz") auto

definition connected :: "udp_sock \<Rightarrow> (byte list \<times> nat) option \<times> udp_sock \<Rightarrow> bool" where
  "connected s x \<longleftrightarrow> timeouts_ok s (snd x) \<and> (\<forall>res sz. fst x = Some (res, sz) \<longrightarrow> dgram_result 16 res sz)"

lemma connect_loop_asserts: "length res = 16 \<Longrightarrow> n < 8 \<Longrightarrow> asserts (connect_loop s n tid res sz) (connected s)"
proof (induction s n tid res sz rule: connect_loop.induct)
  case (1 s n tid res sz)
  show ?case
    unfolding connect_loop.simps [of s n]
  proof (rule asserts_bind [OF tryconnect_asserts [OF 1(2,3)]])
    fix x assume t: "udp_tryconnect s (timeout n) tid res sz = Inr x"
      and p: "case x of (r, out', sz', s') \<Rightarrow> timeouts_ok s s' \<and> length out' = 16 \<and> (r \<ge> 0 \<longrightarrow> dgram_result 16 out' sz')"
    obtain r out' sz' s' where x: "x = (r, out', sz', s')" by (cases x)
    show "asserts (case x of (r, res', size', s') \<Rightarrow>
       if r < 0 then if n + 1 = 8 then Inr (None, s') else if \<not> us_again s' then Inr (None, s')
         else connect_loop s' (n + 1) tid res' size'
       else Inr (Some (res', size'), s')) (connected s)"
    proof (cases "r < 0 \<and> n + 1 \<noteq> 8 \<and> us_again s'")
      case True
      have "asserts (connect_loop s' (n + 1) tid out' sz') (connected s')"
        using 1(1) [OF t x [symmetric] refl refl] True p x 1(3) by simp
      then have "asserts (connect_loop s' (n + 1) tid out' sz') (connected s)"
        by (rule asserts_weaken) (use p x in \<open>auto simp: connected_def intro: timeouts_ok_trans\<close>)
      then show ?thesis using True x by simp
    next
      case False
      then show ?thesis using p x by (auto simp: connected_def)
    qed
  qed
qed

definition announce_outcome_ok :: "udp_sock \<Rightarrow> announce_outcome \<times> udp_sock \<Rightarrow> bool" where
  "announce_outcome_ok s x \<longleftrightarrow> timeouts_ok s (snd x) \<and> (\<forall>k. fst x = Expired k \<longrightarrow> k < 8) \<and>
     (\<forall>all sz. fst x = Received all sz \<longrightarrow> dgram_result 2048 all sz)"

lemma announce_loop_asserts:
  "length all = 2048 \<Longrightarrow> n < 8 \<Longrightarrow> asserts (announce_loop clock rt req s n all sz) (announce_outcome_ok s)"
proof (induction clock rt req s n all sz rule: announce_loop.induct)
  case (1 clock rt req s n all sz)
  show ?case
    unfolding announce_loop.simps [of clock rt req s n]
  proof (rule asserts_bind [OF tryannounce_asserts [OF 1(2,3)]])
    fix x assume t: "udp_tryannounce s (timeout n) req all sz = Inr x"
      and p: "case x of (r, out', sz', s') \<Rightarrow> timeouts_ok s s' \<and> length out' = 2048 \<and> (r = 0 \<longrightarrow> dgram_result 2048 out' sz')"
    obtain r out' sz' s' where x: "x = (r, out', sz', s')" by (cases x)
    obtain now s2 where c: "time_now clock s' = (now, s2)" by (cases "time_now clock s'")
    note to = time_now_ok [OF c]
    show "asserts (case x of (r, all', size', s') \<Rightarrow>
       if r \<noteq> 0 then if n + 1 = 8 then Inr (Gave_Up, s') else if \<not> us_again s' then Inr (Gave_Up, s')
         else case time_now clock s' of (now, s'') \<Rightarrow> if now - rt > 30 then Inr (Expired (n + 1), s'')
           else announce_loop clock rt req s'' (n + 1) all' size'
       else Inr (Received all' size', s')) (announce_outcome_ok s)"
    proof (cases "r \<noteq> 0 \<and> n + 1 \<noteq> 8 \<and> us_again s' \<and> \<not> now - rt > 30")
      case True
      have "asserts (announce_loop clock rt req s2 (n + 1) out' sz') (announce_outcome_ok s2)"
        using 1(1) [OF t x [symmetric] refl refl _ _ _ c [symmetric]] True p x 1(3) by simp
      then have "asserts (announce_loop clock rt req s2 (n + 1) out' sz') (announce_outcome_ok s)"
        by (rule asserts_weaken) (use p x to in \<open>auto simp: announce_outcome_ok_def intro: timeouts_ok_trans\<close>)
      then show ?thesis using True x c by simp
    next
      case False
      then show ?thesis using p x c to 1(3) by (auto simp: announce_outcome_ok_def intro: timeouts_ok_trans)
    qed
  qed
qed

definition response_ok :: "tracker_response_t option \<Rightarrow> bool" where
  "response_ok r \<longleftrightarrow> (\<forall>res. r = Some res \<longrightarrow> tr_num_peers res = length (tr_peers res) \<and> tr_num_peers res \<le> 338)"

lemma udp_response_asserts:
  assumes "dgram_result 2048 all sz" and "heap_ok h"
  shows "asserts (udp_response h tid all sz) (\<lambda>(r, h'). h' = h \<and> response_ok r)"
proof (cases "sz < 20 \<or> ntohl (uas_action (announce_header_of all)) = action_code ACTION_ERROR \<or> uas_transaction_id (announce_header_of all) \<noteq> tid")
  case True
  then show ?thesis by (auto simp: udp_response_def Let_def response_ok_def)
next
  case False
  show ?thesis
  proof (cases "sz = 2 ^ 64 - 1")
    case True
    have "size_sub sz 20 = 2 ^ 64 - 21" unfolding True by (subst size_sub_exact) simp_all
    then have "size_sub sz 20 mod 6 \<noteq> 0" by simp
    then show ?thesis using False assms(2) by (simp add: udp_response_def Let_def)
  next
    case big: False
    then have sz: "20 \<le> sz" "sz \<le> 2048" "length all = 2048" using assms(1) False by (auto simp: dgram_result_def)
    then have sub: "size_sub sz 20 = sz - 20" by (intro size_sub_exact) simp_all
    let ?n = "(sz - 20) div 6"
    have n: "6 * ?n \<le> length (drop 20 all)" "?n \<le> 338" using sz by simp_all
    obtain ps where ps: "peers_loop (drop 20 all) ?n = Inr ps" "length ps = ?n" using peers_loop_reads [OF n(1)] by blast
    then have "parse_peers h (drop 20 all) ?n = Inr (ps, h)" using assms(2) by (auto simp: parse_peers_def)
    then show ?thesis using False sub assms(2) ps(2) n(2) by (auto simp: udp_response_def Let_def c_assert_def response_ok_def)
  qed
qed

text \<open>The part of a round behind the connection, given that later rounds are safe.\<close>

lemma announce_part_asserts:
  assumes heap: "heap_ok h" and s2: "length (us_sends s2) \<le> length (us_sends s)" "timeouts_ok s s2" "length res' = 16"
    and later: "\<And>s3 k. length (us_sends s3) < length (us_sends s) \<Longrightarrow> k < 8 \<Longrightarrow>
      asserts (udp_rounds clock req tid h s3 k res' sz1) (\<lambda>(r, s', h'). h' = h \<and> response_ok r \<and> timeouts_ok s3 s')"
  shows "asserts (c_bind (announce_loop clock rt r s2 0 (replicate MAX_RECV_BUFSIZE 0) sz1) (\<lambda>(outcome, s3).
        case outcome of
          Gave_Up \<Rightarrow> Inr (None, s3, h)
        | Expired n' \<Rightarrow> udp_rounds clock req tid h s3 n' res' sz1
        | Received all size2 \<Rightarrow> c_bind (udp_response h tid all size2) (\<lambda>(response, h'). Inr (response, s3, h'))))
      (\<lambda>(r, s', h'). h' = h \<and> response_ok r \<and> timeouts_ok s s')"
    (is "asserts _ ?Q")
proof (rule asserts_bind [OF announce_loop_asserts])
  fix x assume a: "announce_loop clock rt r s2 0 (replicate MAX_RECV_BUFSIZE 0) sz1 = Inr x" and "announce_outcome_ok s2 x"
  obtain outcome s3 where x: "x = (outcome, s3)" by (cases x)
  have s3: "timeouts_ok s s3" using \<open>announce_outcome_ok s2 x\<close> x s2(2) by (auto simp: announce_outcome_ok_def intro: timeouts_ok_trans)
  show "asserts (case x of (outcome, s3) \<Rightarrow> case outcome of
        Gave_Up \<Rightarrow> Inr (None, s3, h)
      | Expired n' \<Rightarrow> udp_rounds clock req tid h s3 n' res' sz1
      | Received all size2 \<Rightarrow> c_bind (udp_response h tid all size2) (\<lambda>(response, h'). Inr (response, s3, h'))) ?Q"
  proof (cases outcome)
    case Gave_Up
    then show ?thesis using x s3 by (simp add: response_ok_def)
  next
    case (Expired k)
    have "length (us_sends s3) < length (us_sends s)" using announce_loop_expired [OF a [unfolded x Expired]] s2(1) by simp
    moreover have "k < 8" using \<open>announce_outcome_ok s2 x\<close> x Expired by (simp add: announce_outcome_ok_def)
    ultimately have "asserts (udp_rounds clock req tid h s3 k res' sz1) (\<lambda>(r, s', h'). h' = h \<and> response_ok r \<and> timeouts_ok s3 s')"
      by (rule later)
    then have "asserts (udp_rounds clock req tid h s3 k res' sz1) ?Q"
      by (rule asserts_weaken) (use s3 in \<open>auto intro: timeouts_ok_trans\<close>)
    then show ?thesis using x Expired by simp
  next
    case (Received all size2)
    have "dgram_result 2048 all size2" using \<open>announce_outcome_ok s2 x\<close> x Received by (simp add: announce_outcome_ok_def)
    from asserts_bind [OF udp_response_asserts [OF this heap], of tid "\<lambda>(response, h'). Inr (response, s3, h')" ?Q]
    show ?thesis using x Received s3 by auto
  qed
qed (simp_all add: MAX_RECV_BUFSIZE_def)

lemma udp_rounds_asserts:
  "length res = 16 \<Longrightarrow> n < 8 \<Longrightarrow> heap_ok h \<Longrightarrow>
   asserts (udp_rounds clock req tid h s n res sz) (\<lambda>(r, s', h'). h' = h \<and> response_ok r \<and> timeouts_ok s s')"
proof (induction "length (us_sends s)" arbitrary: s n res sz rule: less_induct)
  case less
  let ?Q = "\<lambda>(r, s', h'). h' = h \<and> response_ok r \<and> timeouts_ok s s'"
  have none: "response_ok None" by (simp add: response_ok_def)
  note round = announce_part_asserts [OF less.prems(3) _ _ _ less.hyps]
  show ?case
    unfolding udp_rounds.simps [of clock req tid h s n]
  proof (rule asserts_bind [OF connect_loop_asserts [OF less.prems(1,2)]])
    fix x assume c: "connect_loop s n tid res sz = Inr x" and "connected s x"
    obtain r s1 where x: "x = (r, s1)" by (cases x)
    have s1: "timeouts_ok s s1" and dr: "\<And>res' sz1. r = Some (res', sz1) \<Longrightarrow> length res' = 16"
      using \<open>connected s x\<close> x by (auto simp: connected_def dgram_result_def)
    obtain rt s2 where t: "time_now clock s1 = (rt, s2)" by (cases "time_now clock s1")
    have s2: "timeouts_ok s s2" using s1 time_now_ok [OF t] by (rule timeouts_ok_trans)
    have "length (us_sends s2) \<le> length (us_sends s)" using connect_loop_le [OF c [unfolded x]] t by (auto simp: time_now_def)
    then show "asserts (case x of (r, s1) \<Rightarrow> case r of None \<Rightarrow> Inr (None, s1, h)
       | Some (res', size1) \<Rightarrow>
           (case time_now clock s1 of (request_time, s2) \<Rightarrow>
              c_bind (c_assert (size1 = 16)) (\<lambda>_.
                let cr = connect_res_of res' in
                if tid \<noteq> ucs_transaction_id cr then Inr (None, s2, h)
                else if ucs_action cr \<noteq> action_code ACTION_CONNECT then Inr (None, s2, h)
                else
                  c_bind (announce_loop clock request_time (fill_announce_request req (ucs_connection_id cr) tid) s2 0
                            (replicate MAX_RECV_BUFSIZE 0) size1) (\<lambda>(outcome, s3).
                    case outcome of
                      Gave_Up \<Rightarrow> Inr (None, s3, h)
                    | Expired n' \<Rightarrow> udp_rounds clock req tid h s3 n' res' size1
                    | Received all size2 \<Rightarrow>
                        c_bind (udp_response h tid all size2) (\<lambda>(response, h'). Inr (response, s3, h')))))) ?Q"
      using round [OF _ s2] less.prems(3) x t s1 s2 none dr by (auto simp: Let_def c_assert_def split: option.split)
  qed
qed

text \<open>
  C23. However the tracker or the network behaves, an announce over UDP ends: in a failed assertion (a
  datagram cut short, a reply of the wrong size, or a receive that failed), in NULL, or in a response whose
  peers were all read from the datagram. No other memory is touched, and every receive waits for one of
  the eight timeouts from 30 to 3840 seconds.
\<close>
theorem udp_announce_safe:
  assumes "heap_ok h"
  shows "udp_announce clock rand_r req h s = Inl Assert_Failed \<or>
    (\<exists>r s'. udp_announce clock rand_r req h s = Inr (r, s', h) \<and> response_ok r \<and> timeouts_ok s s')"
proof -
  obtain tid s1 where t: "new_transaction_id rand_r clock s = (tid, s1)" "timeouts_ok s s1"
    by (simp add: new_transaction_id_def time_now_def timeouts_ok_def)
  have "asserts (udp_rounds clock req tid h s1 0 (map (heap_junk h) [0..<16]) (unat (heap_junk h 16)))
      (\<lambda>(r, s', h'). h' = h \<and> response_ok r \<and> timeouts_ok s1 s')"
    using assms by (intro udp_rounds_asserts) simp_all
  then show ?thesis
    using t timeouts_ok_trans [OF t(2)]
    by (cases "udp_rounds clock req tid h s1 0 (map (heap_junk h) [0..<16]) (unat (heap_junk h 16))") (auto simp: udp_announce_def)
qed

text \<open>
  C40. A tracker that does not answer stops the client: the receive that times out is taken for a datagram of
  \<open>2^64 - 1\<close> bytes, and the assertion on its size fails. The retries of the protocol are never made.
\<close>
theorem udp_timeout_aborts:
  assumes "us_sends s = []" and "us_dgrams s = [] \<or> hd (us_dgrams s) = None"
  shows "udp_announce clock rand_r req h s = Inl Assert_Failed"
proof -
  have "connect_loop s' 0 tid res sz = Inr (Some (res, 2 ^ 64 - 1),
      s'\<lparr>us_out := us_out s' @ [be64 PROTOCOL_ID @ be32 0 @ u32_mem tid], us_timeouts := us_timeouts s' @ [timeout 0], us_dgrams := tl (us_dgrams s')\<rparr>)"
    if "us_sends s' = []" "us_dgrams s' = [] \<or> hd (us_dgrams s') = None" for s' tid res sz
    using that
    by (subst connect_loop.simps)
       (auto simp: udp_tryconnect_def udp_send_dgram_def udp_recv_dgram_def connect_req_bytes_def be32_def overlay_def Let_def split: list.splits)
  then show ?thesis
    using assms by (simp add: udp_announce_def new_transaction_id_def time_now_def udp_rounds.simps)
qed

section \<open>Examples\<close>

definition sample_udp :: "byte list option list \<Rightarrow> udp_sock" where
  "sample_udp ds = \<lparr>us_sends = [], us_dgrams = ds, us_out = [], us_timeouts = [], us_again = False, us_ticks = 0\<rparr>"

theorem udp_announce_answered_witness:
  "\<exists>s'. udp_announce (\<lambda>_. 0) (\<lambda>_. 7) sample_announce calm_heap
      (sample_udp [Some (connect_reply 7 9), Some (announce_reply 7 1800 4 5 [sample_peer])]) =
      Inr (Some \<lparr>tr_failure_reason = None, tr_warning_message = None, tr_interval = 1800, tr_tracker_id = None,
         tr_complete = 5, tr_incomplete = 4, tr_num_peers = 1, tr_peers = [sample_peer]\<rparr>, s', calm_heap)"
  using udp_announce_answered [of "sample_udp [Some (connect_reply 7 9), Some (announce_reply 7 1800 4 5 [sample_peer])]" 7 "\<lambda>_. 7" "\<lambda>_. 0"
      9 1800 4 5 "[sample_peer]" "[]" calm_heap sample_announce]
  by (auto simp: sample_udp_def plain_peer_def sample_peer_def)

theorem udp_announce_request_wire_witness:
  "drop 96 (announce_req_bytes (fill_announce_request sample_announce 9 7)) = [0, 0] \<and>
   take 8 (drop 64 (announce_req_bytes (fill_announce_request sample_announce 9 7))) = [0, 0, 0, 3, 0, 0, 0, 0]"
proof -
  have "length (tq_info_hash sample_announce) = 20" "length (tq_peer_id sample_announce) = 20" by (simp_all add: sample_announce_def)
  note w = udp_announce_request_wire [OF this, of 9 7]
  have "be32 3 = [0, 0, 0, 3]" by (simp add: be32_def u32_mem_htonl) (simp add: u32_mem_def)
  then show ?thesis unfolding w by (simp add: sample_announce_def numeral_eq_Suc)
qed

theorem udp_timeout_aborts_witness:
  "udp_announce (\<lambda>_. 0) (\<lambda>_. 7) sample_announce calm_heap (sample_udp [None]) = Inl Assert_Failed"
  by (rule udp_timeout_aborts) (simp_all add: sample_udp_def)

theorem udp_announce_safe_witness:
  "heap_ok calm_heap \<and> (udp_announce (\<lambda>_. 0) (\<lambda>_. 7) sample_announce calm_heap (sample_udp [None]) = Inl Assert_Failed \<or>
    (\<exists>r s'. udp_announce (\<lambda>_. 0) (\<lambda>_. 7) sample_announce calm_heap (sample_udp [None]) = Inr (r, s', calm_heap) \<and> response_ok r \<and>
       timeouts_ok (sample_udp [None]) s'))"
  using udp_announce_safe [OF heap_ok_calm_heap, of "\<lambda>_. 0" "\<lambda>_. 7" sample_announce "sample_udp [None]"] by simp

end
