(* ===== verification/Bencode_Parse.thy ===== *)
theory Bencode_Parse
  imports Bencode_Lex
begin

text \<open>
  The parser reads back what the format's specification writes. \<open>repr\<close> relates a parsed value (with its
  dictionaries as hash tables and their entries in the heap) to the value of the specification; the
  \<open>info\<close> entry carries the SHA-1 of exactly its own text.
\<close>

section \<open>The parser's tokens\<close>

text \<open>\<open>ts\<close> are the tokens from the current one on, the first two of them already read.\<close>

definition ahead :: "c_heap \<Rightarrow> Parser \<Rightarrow> Token list \<Rightarrow> Lexer \<Rightarrow> bool" where
  "ahead h p ts l' \<longleftrightarrow> (\<exists>us. ts = p_cur_token p # p_peek_token p # us \<and> lexes h (p_l p) us l') \<and> p_heap p = h"

lemma aheadE:
  assumes "ahead h p (t0 # t1 # us) l'"
  shows "p_cur_token p = t0" and "p_peek_token p = t1" and "lexes h (p_l p) us l'" and "p_heap p = h"
  using assms by (auto simp: ahead_def)

lemma string_loop_mem: "string_loop k l acc = Inr (s, l') \<Longrightarrow> lx_mem l' = lx_mem l"
  by (induction k arbitrary: l acc) (auto simp: c_bind_eq_Inr read_char_def)

lemma number_loop_mem: "number_loop k l acc = Inr (r, l') \<Longrightarrow> lx_mem l' = lx_mem l"
proof (induction k arbitrary: l acc)
  case (Suc k)
  show ?case
    using Suc.prems by (auto simp: c_bind_eq_Inr read_char_def split: if_splits dest!: Suc.IH)
qed simp

lemma lex_default_mem: "lex_default l h = Inr (t, l', h') \<Longrightarrow> lx_mem l' = lx_mem l"
  by (auto simp: lex_default_def finish_token_ok Let_def c_bind_eq_Inr
      split: if_splits option.splits prod.splits dest!: string_loop_mem number_loop_mem)

lemma next_token_mem: "next_token l h = Inr (t, l', h') \<Longrightarrow> lx_mem l' = lx_mem l"
  unfolding next_token_def
  by (elim c_bind_eq_InrE) (auto simp: finish_token_ok read_char_def c_bind_eq_Inr split: if_splits dest: lex_default_mem)

text \<open>What stays the same while tokens are read.\<close>

definition same_rest :: "Parser \<Rightarrow> Parser \<Rightarrow> bool" where
  "same_rest p p' \<longleftrightarrow> p_errors p' = p_errors p \<and> p_values p' = p_values p \<and> p_tables p' = p_tables p \<and>
     lx_mem (p_l p') = lx_mem (p_l p)"

lemma next_ahead:
  assumes "ahead h p (t0 # t1 # t2 # us) l'"
  obtains p' where "parser_next_token p = Inr p'" "ahead h p' (t1 # t2 # us) l'" "same_rest p p'"
proof -
  from aheadE(3) [OF assms] obtain l1 where l1: "next_token (p_l p) h = Inr (t2, l1, h)" "lexes h l1 us l'"
    by (auto elim: lexes_ConsE)
  let ?p = "p\<lparr>p_cur_token := t1, p_peek_token := t2, p_l := l1, p_heap := h\<rparr>"
  have "parser_next_token p = Inr ?p" using l1(1) aheadE [OF assms] by (simp add: parser_next_token_def)
  moreover have "ahead h ?p (t1 # t2 # us) l'" using l1(2) by (simp add: ahead_def)
  moreover have "same_rest p ?p" using next_token_mem [OF l1(1)] by (simp add: same_rest_def)
  ultimately show thesis by (rule that)
qed

lemma expect_ahead:
  assumes "ahead h p (t0 # t1 # t2 # us) l'" and "tk_type t1 = ty"
  obtains p' where "expect_peek p ty = Inr (True, p')" "ahead h p' (t1 # t2 # us) l'" "same_rest p p'"
proof -
  obtain p' where "parser_next_token p = Inr p'" "ahead h p' (t1 # t2 # us) l'" "same_rest p p'"
    by (rule next_ahead [OF assms(1)])
  then show thesis using aheadE(2) [OF assms(1)] assms(2) that by (simp add: expect_peek_def)
qed

lemma same_rest_refl [simp]: "same_rest p p"
  by (simp add: same_rest_def)

lemma same_rest_trans: "same_rest p p1 \<Longrightarrow> same_rest p1 p2 \<Longrightarrow> same_rest p p2"
  by (simp add: same_rest_def)

section \<open>Strings and integers\<close>

lemma parse_bytestring_ok:
  assumes "ahead h p (size_tok (length s) # no_token\<lparr>tk_type := COLON\<rparr> # str_tok s # t # us) l'" and "length s < 2 ^ 63"
  obtains p' where "parse_bytestring p = Inr (BencodeType (replicate 20 0) (AsString (length s) (Some s)), p')"
    "ahead h p' (str_tok s # t # us) l'" "same_rest p p'"
proof -
  obtain p1 where p1: "expect_peek p COLON = Inr (True, p1)" "ahead h p1 (no_token\<lparr>tk_type := COLON\<rparr> # str_tok s # t # us) l'" "same_rest p p1"
    by (rule expect_ahead [OF assms(1), where ty = COLON]) auto
  obtain p2 where p2: "expect_peek p1 STRING = Inr (True, p2)" "ahead h p2 (str_tok s # t # us) l'" "same_rest p1 p2"
    by (rule expect_ahead [OF p1(2), where ty = STRING]) (auto simp: str_tok_def)
  have c: "tk_type (p_cur_token p) = STRING_SIZE" "tk_asInt (p_cur_token p) = int (length s)" "tk_asString (p_cur_token p2) = Some s"
    using aheadE(1) [OF assms(1)] aheadE(1) [OF p2(2)] by (simp_all add: size_tok_def str_tok_def)
  have "nat (int (length s) mod 2 ^ 64) = length s" using assms(2) by simp
  then have "parse_bytestring p = Inr (BencodeType (replicate 20 0) (AsString (length s) (Some s)), p2)"
    using p1(1) p2(1) c by (simp add: parse_bytestring_def Let_def)
  then show thesis using that p2(2) same_rest_trans [OF p1(3) p2(3)] by blast
qed

lemma parse_integer_ok:
  assumes "ahead h p (t0 # no_token\<lparr>tk_type := INT_TOK, tk_asInt := i\<rparr> # end_tok e # t # us) l'"
  obtains b p' where "parse_integer p = Inr (b, p')" "payload b = AsInt i" "ahead h p' (end_tok e # t # us) l'" "same_rest p p'"
proof -
  obtain p1 where p1: "expect_peek p INT_TOK = Inr (True, p1)"
    "ahead h p1 (no_token\<lparr>tk_type := INT_TOK, tk_asInt := i\<rparr> # end_tok e # t # us) l'" "same_rest p p1"
    by (rule expect_ahead [OF assms, where ty = INT_TOK]) auto
  obtain p2 where p2: "expect_peek p1 END = Inr (True, p2)" "ahead h p2 (end_tok e # t # us) l'" "same_rest p1 p2"
    by (rule expect_ahead [OF p1(2), where ty = END]) (auto simp: end_tok_def)
  have "parse_integer p = Inr (BencodeType (digest_junk p) (AsInt i), p2)"
    using p1(1) p2(1) aheadE(1) [OF p1(2)] by (simp add: parse_integer_def)
  then show thesis using that p2(2) same_rest_trans [OF p1(3) p2(3)] by auto
qed

section \<open>The value that was parsed\<close>

fun repr :: "(byte list \<Rightarrow> byte list) \<Rightarrow> BencodeType list \<Rightarrow> BencodeType \<Rightarrow> bvalue \<Rightarrow> bool"
and repr_list :: "(byte list \<Rightarrow> byte list) \<Rightarrow> BencodeType list \<Rightarrow> BencodeType list \<Rightarrow> bvalue list \<Rightarrow> bool"
and repr_dict :: "(byte list \<Rightarrow> byte list) \<Rightarrow> BencodeType list \<Rightarrow> nat hash_table_t \<Rightarrow> (byte list \<times> bvalue) list \<Rightarrow> bool" where
  "repr sha1 st b (BStr s) = (payload b = AsString (length s) (Some s))"
| "repr sha1 st b (BInt i) = (payload b = AsInt i)"
| "repr sha1 st b (BList vs) = (\<exists>bs. payload b = AsList bs \<and> repr_list sha1 st bs vs)"
| "repr sha1 st b (BDict kvs) =
     (\<exists>t. payload b = AsDict t \<and> ht_inv t \<and> dom (ht_map t) = fst ` set kvs \<and> repr_dict sha1 st t kvs)"
| "repr_list sha1 st bs [] = (bs = [])"
| "repr_list sha1 st bs (v # vs) = (\<exists>b bs'. bs = b # bs' \<and> repr sha1 st b v \<and> repr_list sha1 st bs' vs)"
| "repr_dict sha1 st t [] = True"
| "repr_dict sha1 st t ((k, v) # kvs) =
     ((\<exists>a. ht_map t k = Some a \<and> a < length st \<and> repr sha1 st (st ! a) v \<and>
           (k = info_key \<longrightarrow> sha1_digest (st ! a) = sha1 (enc v))) \<and> repr_dict sha1 st t kvs)"

lemma repr_mono:
  shows "repr sha1 st b v \<Longrightarrow> repr sha1 (st @ ext) b v"
    and "repr_list sha1 st bs vs \<Longrightarrow> repr_list sha1 (st @ ext) bs vs"
    and "repr_dict sha1 st t kvs \<Longrightarrow> repr_dict sha1 (st @ ext) t kvs"
  by (induction v and vs and kvs arbitrary: b and bs and t rule: enc_enc_list_enc_dict.induct) (auto simp: nth_append)

lemma repr_payload: "repr sha1 st b v = repr sha1 st (BencodeType d (payload b)) v"
  by (cases v) simp_all

lemma repr_list_snoc: "repr_list sha1 st bs vs \<Longrightarrow> repr sha1 st b v \<Longrightarrow> repr_list sha1 st (bs @ [b]) (vs @ [v])"
  by (induction vs arbitrary: bs) auto

lemma repr_dict_cong: "(\<And>k. k \<in> fst ` set kvs \<Longrightarrow> ht_map t' k = ht_map t k) \<Longrightarrow> repr_dict sha1 st t kvs \<Longrightarrow> repr_dict sha1 st t' kvs"
  by (induction kvs) auto

section \<open>Keys\<close>

lemma strcmp_eq_ok: "0 \<notin> set a \<Longrightarrow> 0 \<notin> set b \<Longrightarrow> strcmp_eq (a @ 0 # g) (b @ [0]) = Inr (a = b)"
proof (induction a arbitrary: b)
  case Nil
  then show ?case by (cases b) auto
next
  case (Cons x a)
  then show ?case by (cases b) auto
qed

lemma strlen_ok: "0 \<notin> set s \<Longrightarrow> strlen (s @ 0 # g) = Inr (length s)"
proof -
  assume "0 \<notin> set s"
  then have "takeWhile (\<lambda>b. b \<noteq> 0) (s @ 0 # g) = s" by (induction s) auto
  then show ?thesis by (simp add: strlen_def)
qed

lemma compute_info_hash_ok:
  assumes "mem = pre @ body @ rest" and "length (sha1 body) \<le> length body" and "body \<noteq> []" and "heap_ok h"
  shows "compute_info_hash sha1 h mem (length pre) (length pre + length body - 1) = Inr (sha1 body, h)"
proof -
  have "length pre + length body - 1 - length pre + 1 = length body" using assms(3) by (cases body) auto
  then have "mem_read mem (int (length pre)) (length pre + length body - 1 - length pre + 1) = Inr body"
    using assms(1) by (simp add: mem_read_def)
  then show ?thesis using assms(2,4) by (simp add: compute_info_hash_def Let_def)
qed

section \<open>Lists and dictionaries\<close>

lemma toks_nonempty: "2 \<le> length (toks pos v)"
  by (cases v) simp_all

lemma toks_split: obtains t0 t1 us where "toks pos v = t0 # t1 # us"
  using toks_nonempty [of pos v] by (cases "toks pos v") (auto simp: Suc_le_length_iff)

lemma first_tok [simp]: "tk_type (hd (toks pos v)) \<noteq> END"
  by (cases v) (simp_all add: size_tok_def)

lemma ahead_hd: "ahead h p (toks pos v @ us) l' \<Longrightarrow> p_cur_token p = hd (toks pos v)"
  by (rule toks_split [of pos v]) (auto simp: ahead_def)

lemma enc_pos: "0 < length (enc v)"
  by (cases v) simp_all

text \<open>The outcome of parsing \<open>v\<close>, followed by the tokens \<open>s # ss\<close>.\<close>

definition parsed :: "bc_env \<Rightarrow> c_heap \<Rightarrow> Parser \<Rightarrow> (BencodeType \<times> Parser) c_result \<Rightarrow> (BencodeType list \<Rightarrow> BencodeType \<Rightarrow> bool) \<Rightarrow> Token list \<Rightarrow> Lexer \<Rightarrow> bool" where
  "parsed env h p r P ts l' \<longleftrightarrow> (\<exists>b p' ext. r = Inr (b, p') \<and> ahead h p' ts l' \<and> P (p_values p') b \<and>
     p_values p' = p_values p @ ext \<and> p_errors p' = p_errors p \<and> lx_mem (p_l p') = lx_mem (p_l p))"

text \<open>Allocations succeed, a NUL lies behind every string, and digests have 20 bytes.\<close>

definition calm :: "bc_env \<Rightarrow> c_heap \<Rightarrow> bool" where
  "calm env h \<longleftrightarrow> heap_ok h \<and> (\<exists>g. be_gap env = 0 # g) \<and> (\<forall>bs. length (be_sha1 env bs) = 20)"

lemma same_rest_parsed:
  "same_rest p p1 \<Longrightarrow> parsed env h p1 r P ts l' \<Longrightarrow> parsed env h p r P ts l'"
  by (auto simp: parsed_def same_rest_def)

lemma key_parsed:
  assumes "ahead h p (toks pos (BStr k) @ t # us) l'" and "good_str k" and "0 < n"
  obtains p1 where "parse_item env n p = Inr (BencodeType (replicate 20 0) (AsString (length k) (Some k)), p1)"
    "ahead h p1 (str_tok k # t # us) l'" "same_rest p p1"
proof -
  have a: "ahead h p (size_tok (length k) # no_token\<lparr>tk_type := COLON\<rparr> # str_tok k # t # us) l'" using assms(1) by simp
  obtain p1 where p1: "parse_bytestring p = Inr (BencodeType (replicate 20 0) (AsString (length k) (Some k)), p1)"
    "ahead h p1 (str_tok k # t # us) l'" "same_rest p p1"
    using parse_bytestring_ok [OF a] assms(2) by (auto simp: good_str_def)
  have "tk_type (p_cur_token p) = STRING_SIZE" using aheadE(1) [OF a] by (simp add: size_tok_def)
  then have "parse_item env n p = Inr (BencodeType (replicate 20 0) (AsString (length k) (Some k)), p1)"
    using p1(1) assms(3) by (cases n) simp_all
  then show thesis using that p1(2,3) by blast
qed

definition item_reads :: "bc_env \<Rightarrow> c_heap \<Rightarrow> bvalue \<Rightarrow> bool" where
  "item_reads env h v \<longleftrightarrow> (\<forall>n p pre rest s ss l'. ahead h p (toks (length pre) v @ s # ss) l' \<longrightarrow> 2 * length (enc v) \<le> n \<longrightarrow>
     lx_mem (p_l p) = pre @ enc v @ rest \<longrightarrow>
     parsed env h p (parse_item env n p) (\<lambda>st b. repr (be_sha1 env) st b v) (last (toks (length pre) v) # s # ss) l')"

lemma item_readsD:
  assumes "item_reads env h v" and "ahead h p (toks (length pre) v @ s # ss) l'" and "2 * length (enc v) \<le> n" and "lx_mem (p_l p) = pre @ enc v @ rest"
  obtains b p' ext where "parse_item env n p = Inr (b, p')" "ahead h p' (last (toks (length pre) v) # s # ss) l'"
    "repr (be_sha1 env) (p_values p') b v" "p_values p' = p_values p @ ext" "p_errors p' = p_errors p" "lx_mem (p_l p') = lx_mem (p_l p)"
  using assms unfolding item_reads_def parsed_def by blast

lemma list_loop_reads:
  "calm env h \<Longrightarrow> list_all (item_reads env h) vs \<Longrightarrow> ahead h p (toks_list (length pre) vs @ end_tok e # s # ss) l' \<Longrightarrow>
   2 * length (enc_list vs) + 1 \<le> n \<Longrightarrow> lx_mem (p_l p) = pre @ enc_list vs @ rest \<Longrightarrow>
   repr_list (be_sha1 env) (p_values p) (da_values d) us \<Longrightarrow>
   parsed env h p (list_loop env n (Some d) p) (\<lambda>st b. repr (be_sha1 env) st b (BList (us @ vs))) (end_tok e # s # ss) l'"
proof (induction vs arbitrary: p pre n d us)
  case Nil
  then obtain m where n: "n = Suc m" by (cases n) auto
  have a: "ahead h p (end_tok e # s # ss) l'" using Nil.prems(3) by simp
  have "tk_type (p_cur_token p) = END" using aheadE(1) [OF a] by (simp add: end_tok_def)
  with a show ?case using Nil.prems(6) n by (auto simp: parsed_def intro!: exI [of _ "[]"])
next
  case (Cons v vs)
  obtain m where n: "n = Suc m" using Cons.prems(4) by (cases n) auto
  obtain s1 ss1 where tl: "toks_list (length (pre @ enc v)) vs @ end_tok e # s # ss = s1 # ss1"
    by (cases "toks_list (length (pre @ enc v)) vs") auto
  have a: "ahead h p (toks (length pre) v @ s1 # ss1) l'" using Cons.prems(3) tl by simp
  have "2 * length (enc v) \<le> m \<and> 2 * length (enc_list vs) + 1 \<le> m" using Cons.prems(4) n enc_pos [of v] unfolding enc_list.simps length_append by presburger
  then have le: "2 * length (enc v) \<le> m" "2 * length (enc_list vs) + 1 \<le> m" by simp_all
  have iv: "item_reads env h v" "list_all (item_reads env h) vs" and mv: "lx_mem (p_l p) = pre @ enc v @ enc_list vs @ rest"
    using Cons.prems(2,5) by simp_all
  obtain b p1 ext where p1: "parse_item env m p = Inr (b, p1)" "ahead h p1 (last (toks (length pre) v) # s1 # ss1) l'"
    "repr (be_sha1 env) (p_values p1) b v" "p_values p1 = p_values p @ ext" "p_errors p1 = p_errors p" "lx_mem (p_l p1) = lx_mem (p_l p)"
    by (rule item_readsD [OF iv(1) a le(1) mv])
  obtain d1 where d1: "da_grow h d = (Some d1, h)" "da_values d1 = da_values d"
    by (rule da_grow_ok [of h d]) (use Cons.prems(1) in \<open>auto simp: calm_def\<close>)
  define d' where "d' = d1\<lparr>da_values := da_values d1 @ [b]\<rparr>"
  have d': "da_values d' = da_values d @ [b]" using d1(2) by (simp add: d'_def)
  have h1: "p\<lparr>p_heap := h\<rparr> = p" "p_heap p = h" using a by (auto simp: ahead_def)
  obtain s2 ss2 where ss1: "ss1 = s2 # ss2" using tl by (cases ss1; cases vs) (auto intro: toks_split)
  obtain p2 where p2: "parser_next_token p1 = Inr p2" "ahead h p2 (s1 # ss1) l'" "same_rest p1 p2"
    using next_ahead [OF p1(2) [unfolded ss1]] ss1 by blast
  have ne: "tk_type (p_cur_token p) \<noteq> END" using ahead_hd [OF a] by simp
  have i1: "parse_item env m (p\<lparr>p_heap := h\<rparr>) = Inr (b, p1)" unfolding h1(1) by (rule p1(1))
  have run: "list_loop env n (Some d) p = list_loop env m (Some d') p2"
    using n ne i1 d1(1) p2(1) h1(2) by (simp add: d'_def)
  have "repr_list (be_sha1 env) (p_values p2) (da_values d') (us @ [v])"
    using repr_list_snoc [OF repr_mono(2) [OF Cons.prems(6), of ext] p1(3) [unfolded p1(4)]] d' p1(4) p2(3)
    by (simp add: same_rest_def)
  moreover have "lx_mem (p_l p2) = (pre @ enc v) @ enc_list vs @ rest" using Cons.prems(5) p1(6) p2(3) by (simp add: same_rest_def)
  ultimately have "parsed env h p2 (list_loop env m (Some d') p2) (\<lambda>st b. repr (be_sha1 env) st b (BList ((us @ [v]) @ vs))) (end_tok e # s # ss) l'"
    using Cons.IH [OF Cons.prems(1), of p2 "pre @ enc v" m d' "us @ [v]"] Cons.prems(2) p2(2) [folded tl] le(2) by simp
  then show ?case using run p1(4-6) p2(3) by (auto simp: parsed_def same_rest_def)
qed

lemma dict_toks:
  assumes "is_dict v"
  shows "hd (toks pos v) = no_token\<lparr>tk_type := DICT_START, tk_pos := pos\<rparr>" and "last (toks pos v) = end_tok (pos + length (enc v) - 1)"
  using assms by (cases v; simp)+

text \<open>The digest that is stored with the \<open>info\<close> dictionary.\<close>

lemma info_digest:
  assumes "calm env h" and "k = info_key \<longrightarrow> is_dict v \<and> 20 \<le> length (enc v)"
    and "lx_mem (p_l p) = pre @ enc v @ rest" and "p_cur_token p = last (toks (length pre) v)" and "k = info_key \<longrightarrow> start = length pre"
  shows "dict_digest env (k = info_key) start b h p =
    Inr (if k = info_key then BencodeType (be_sha1 env (enc v)) (payload b) else b, h)"
proof (cases "k = info_key")
  case True
  then have v: "is_dict v" "20 \<le> length (enc v)" using assms(2) by auto
  have c: "tk_type (p_cur_token p) = END" "tk_pos (p_cur_token p) = length pre + length (enc v) - 1"
    using assms(4) dict_toks(2) [OF v(1)] by (simp_all add: end_tok_def)
  have sha: "length (be_sha1 env (enc v)) = 20" "heap_ok h" using assms(1) by (simp_all add: calm_def)
  have "compute_info_hash (be_sha1 env) h (lx_mem (p_l p)) (length pre) (length pre + length (enc v) - 1) = Inr (be_sha1 env (enc v), h)"
    using v(2) sha enc_pos [of v] by (intro compute_info_hash_ok [OF assms(3)]) auto
  moreover have "mem_read (be_sha1 env (enc v)) 0 20 = Inr (be_sha1 env (enc v))" using sha by (simp add: mem_read_def)
  ultimately show ?thesis using True c assms(5) by (simp add: dict_digest_def)
qed (simp add: dict_digest_def)

lemma dict_entry:
  assumes "calm env h" and k: "good_str k" "0 \<notin> set k" "k = info_key \<longrightarrow> is_dict v \<and> 20 \<le> length (enc v)" and v: "item_reads env h v"
    and a: "ahead h p (toks (length pre) (BStr k) @ toks (length pre + length (enc (BStr k))) v @ s1 # s2 # ss) l'"
    and m: "2 * length (enc v) \<le> m" and mem: "lx_mem (p_l p) = pre @ enc (BStr k) @ enc v @ rest"
    and t: "ht_inv t" "ht_room (Suc n) t" "ht_map t k = None"
  shows "\<exists>t' p' ext a. dict_loop env (Suc m) t p = dict_loop env m t' p' \<and> ahead h p' (s1 # s2 # ss) l' \<and>
     ht_inv t' \<and> ht_map t' = (ht_map t)(k \<mapsto> a) \<and> ht_room n t' \<and> a < length (p_values p') \<and>
     repr (be_sha1 env) (p_values p') (p_values p' ! a) v \<and> (k = info_key \<longrightarrow> sha1_digest (p_values p' ! a) = be_sha1 env (enc v)) \<and>
     p_values p' = p_values p @ ext \<and> p_errors p' = p_errors p \<and> lx_mem (p_l p') = lx_mem (p_l p)"
proof -
  let ?q = "pre @ enc (BStr k)"
  obtain g where g: "be_gap env = 0 # g" using assms(1) by (auto simp: calm_def)
  have heap: "heap_ok h" using assms(1) by (simp add: calm_def)
  obtain t0 t1 us where tv: "toks (length ?q) v = t0 # t1 # us" by (rule toks_split)
  have a0: "ahead h p (toks (length pre) (BStr k) @ t0 # t1 # us @ s1 # s2 # ss) l'" using a tv by simp
  have m0: "0 < m" using m enc_pos [of v] by linarith
  obtain p1 where p1: "parse_item env m p = Inr (BencodeType (replicate 20 0) (AsString (length k) (Some k)), p1)"
    "ahead h p1 (str_tok k # t0 # t1 # us @ s1 # s2 # ss) l'" "same_rest p p1"
    by (rule key_parsed [OF a0 k(1) m0])
  obtain p2 where p2: "parser_next_token p1 = Inr p2" "ahead h p2 (toks (length ?q) v @ s1 # s2 # ss) l'" "same_rest p1 p2"
    by (rule next_ahead [OF p1(2)]) (use tv in auto)
  have mem2: "lx_mem (p_l p2) = ?q @ enc v @ rest" using mem p1(3) p2(3) by (simp add: same_rest_def)
  obtain b p3 ext where p3: "parse_item env m p2 = Inr (b, p3)" "ahead h p3 (last (toks (length ?q) v) # s1 # s2 # ss) l'"
    "repr (be_sha1 env) (p_values p3) b v" "p_values p3 = p_values p2 @ ext" "p_errors p3 = p_errors p2" "lx_mem (p_l p3) = lx_mem (p_l p2)"
    by (rule item_readsD [OF v p2(2) m mem2])
  let ?val = "if k = info_key then BencodeType (be_sha1 env (enc v)) (payload b) else b"
  obtain t' where t': "hash_table_insert (t, h) k (Some (length (p_values p3))) = Inr (t', h)" "ht_inv t'"
    "ht_map t' = (ht_map t)(k \<mapsto> length (p_values p3))" "ht_room n t'"
    using insert_fuel_2 [OF t(1) heap t(2,3)] by blast
  let ?p3 = "p3\<lparr>p_heap := h, p_values := p_values p3 @ [?val]\<rparr>"
  have "ahead h ?p3 (last (toks (length ?q) v) # s1 # s2 # ss) l'" using p3(2) by (simp add: ahead_def)
  then obtain p4 where p4: "parser_next_token ?p3 = Inr p4" "ahead h p4 (s1 # s2 # ss) l'" "same_rest ?p3 p4"
    by (rule next_ahead)
  have cmp: "strcmp_eq (k @ be_gap env) (info_key @ [0]) = Inr (k = info_key)"
    unfolding g by (rule strcmp_eq_ok) (simp_all add: k(2) info_key_def)
  have pk: "p_peek_token p1 = t0" using aheadE(2) [OF p1(2)] .
  have asrt: "k = info_key \<longrightarrow> tk_type (p_peek_token p1) = DICT_START"
    using pk dict_toks(1) [of v "length ?q"] k(3) tv by auto
  have start: "k = info_key \<Longrightarrow> tk_pos (p_peek_token p1) = length ?q"
    using pk dict_toks(1) [of v "length ?q"] k(3) tv by auto
  have dig: "dict_digest env (k = info_key) (tk_pos (p_peek_token p1)) b h p3 = Inr (?val, h)"
    using info_digest [OF assms(1) k(3), of p3 ?q rest] aheadE(1) [OF p3(2)] mem2 p3(6) start by simp
  have sl: "strlen (k @ be_gap env) = Inr (length k)" "mem_read (k @ be_gap env) 0 (length k) = Inr k"
    using strlen_ok [OF k(2)] g by (simp_all add: mem_read_def)
  have ne: "tk_type (p_cur_token p) \<noteq> END" using ahead_hd [OF a] by (simp add: size_tok_def)
  have "dict_key env k p1 = Inr (k = info_key)" using cmp asrt by (simp add: dict_key_def)
  moreover have "dict_store env (k = info_key) (tk_pos (p_peek_token p1)) k t b p3 = Inr (t', p4)"
    using aheadE(4) [OF p3(2)] heap dig sl t'(1) p4(1) by (simp add: dict_store_def)
  ultimately have run: "dict_loop env (Suc m) t p = dict_loop env m t' p4" using ne p1(1) p2(1) p3(1) by simp
  have val: "p_values p4 = p_values p3 @ [?val]" using p4(3) by (simp add: same_rest_def)
  have "repr (be_sha1 env) (p_values p4) ?val v"
    using repr_mono(1) [OF p3(3), of "[?val]"] repr_payload [of _ _ b v] val by auto
  moreover have "p_values p4 = p_values p @ ext @ [?val]" "p_errors p4 = p_errors p" "lx_mem (p_l p4) = lx_mem (p_l p)"
    using val p3(4-6) p1(3) p2(3) p4(3) by (simp_all add: same_rest_def)
  ultimately show ?thesis
    using run p4(2) t'(2-4) val
    by (intro exI [of _ t'] exI [of _ p4] exI [of _ "ext @ [?val]"] exI [of _ "length (p_values p3)"]) simp
qed

definition dict_parsed :: "bc_env \<Rightarrow> nat hash_table_t \<Rightarrow> (byte list \<times> bvalue) list \<Rightarrow> BencodeType list \<Rightarrow> BencodeType \<Rightarrow> bool" where
  "dict_parsed env t kvs st b \<longleftrightarrow> (\<exists>t'. payload b = AsDict t' \<and> ht_inv t' \<and> dom (ht_map t') = dom (ht_map t) \<union> fst ` set kvs \<and>
     (\<forall>k\<in>dom (ht_map t). ht_map t' k = ht_map t k) \<and> repr_dict (be_sha1 env) st t' kvs)"

lemma dict_loop_reads:
  "calm env h \<Longrightarrow> good_dict kvs \<Longrightarrow> list_all (\<lambda>(k, v). item_reads env h v) kvs \<Longrightarrow> distinct (map fst kvs) \<Longrightarrow>
   ahead h p (toks_dict (length pre) kvs @ end_tok e # s # ss) l' \<Longrightarrow> 2 * length (enc_dict kvs) + 1 \<le> n \<Longrightarrow>
   lx_mem (p_l p) = pre @ enc_dict kvs @ rest \<Longrightarrow> ht_inv t \<Longrightarrow> ht_room (length kvs) t \<Longrightarrow> fst ` set kvs \<inter> dom (ht_map t) = {} \<Longrightarrow>
   parsed env h p (dict_loop env n t p) (dict_parsed env t kvs) (end_tok e # s # ss) l'"
proof (induction kvs arbitrary: p pre n t)
  case Nil
  then obtain m where n: "n = Suc m" by (cases n) auto
  have a: "ahead h p (end_tok e # s # ss) l'" using Nil.prems(5) by simp
  have "tk_type (p_cur_token p) = END" using aheadE(1) [OF a] by (simp add: end_tok_def)
  with a show ?case using Nil.prems(8) n by (auto simp: parsed_def dict_parsed_def intro!: exI [of _ "[]"])
next
  case (Cons kv kvs)
  obtain k v where kv: "kv = (k, v)" by (cases kv)
  obtain m where n: "n = Suc m" using Cons.prems(6) by (cases n) auto
  let ?pre = "(pre @ enc (BStr k)) @ enc v"
  obtain s1 s2 ss1 where tl: "toks_dict (length ?pre) kvs @ end_tok e # s # ss = s1 # s2 # ss1"
    by (cases kvs) auto
  have a: "ahead h p (toks (length pre) (BStr k) @ toks (length pre + length (enc (BStr k))) v @ s1 # s2 # ss1) l'"
    using Cons.prems(5) tl kv by (simp add: add.assoc)
  have "2 * (length (enc (BStr k)) + (length (enc v) + length (enc_dict kvs))) + 1 \<le> Suc m"
    using Cons.prems(6) n unfolding kv enc_dict.simps length_append by simp
  then have fuel: "2 * length (enc v) \<le> m" "2 * length (enc_dict kvs) + 1 \<le> m" using enc_pos [of v] by presburger+
  have mem: "lx_mem (p_l p) = pre @ enc (BStr k) @ enc v @ (enc_dict kvs @ rest)" using Cons.prems(7) kv by simp
  have g: "good_str k" "0 \<notin> set k" "k = info_key \<longrightarrow> is_dict v \<and> 20 \<le> length (enc v)" "good_dict kvs"
    using Cons.prems(2) kv by simp_all
  have i: "item_reads env h v" "list_all (\<lambda>(k, v). item_reads env h v) kvs" "k \<notin> fst ` set kvs" "distinct (map fst kvs)"
    using Cons.prems(3,4) kv by simp_all
  have new: "ht_map t k = None" "ht_room (Suc (length kvs)) t" using Cons.prems(9,10) kv by auto
  obtain t1 p1 ext b where s: "dict_loop env (Suc m) t p = dict_loop env m t1 p1" "ahead h p1 (s1 # s2 # ss1) l'"
    "ht_inv t1" "ht_map t1 = (ht_map t)(k \<mapsto> b)" "ht_room (length kvs) t1" "b < length (p_values p1)"
    "repr (be_sha1 env) (p_values p1) (p_values p1 ! b) v" "k = info_key \<longrightarrow> sha1_digest (p_values p1 ! b) = be_sha1 env (enc v)"
    "p_values p1 = p_values p @ ext" "p_errors p1 = p_errors p" "lx_mem (p_l p1) = lx_mem (p_l p)"
    using dict_entry [OF Cons.prems(1) g(1-3) i(1) a fuel(1) mem Cons.prems(8) new(2,1)] by blast
  have "fst ` set kvs \<inter> dom (ht_map t1) = {}" using Cons.prems(10) s(4) i(3) kv by auto
  moreover have "lx_mem (p_l p1) = ?pre @ enc_dict kvs @ rest" using s(11) mem by simp
  ultimately have "parsed env h p1 (dict_loop env m t1 p1) (dict_parsed env t1 kvs) (end_tok e # s # ss) l'"
    by (intro Cons.IH [OF Cons.prems(1) g(4) i(2,4) s(2) [folded tl] fuel(2) _ s(3,5)])
  then obtain c p' ext' where r: "dict_loop env m t1 p1 = Inr (c, p')" "ahead h p' (end_tok e # s # ss) l'"
    "dict_parsed env t1 kvs (p_values p') c" "p_values p' = p_values p1 @ ext'" "p_errors p' = p_errors p1" "lx_mem (p_l p') = lx_mem (p_l p1)"
    by (auto simp: parsed_def)
  from r(3) obtain t' where t': "payload c = AsDict t'" "ht_inv t'" "dom (ht_map t') = dom (ht_map t1) \<union> fst ` set kvs"
    "\<forall>k\<in>dom (ht_map t1). ht_map t' k = ht_map t1 k" "repr_dict (be_sha1 env) (p_values p') t' kvs"
    by (auto simp: dict_parsed_def)
  have "ht_map t' k = Some b" using t'(4) s(4) by simp
  moreover have "b < length (p_values p')" "p_values p' ! b = p_values p1 ! b" using s(6) r(4) by (simp_all add: nth_append)
  moreover have "repr (be_sha1 env) (p_values p') (p_values p1 ! b) v" using repr_mono(1) [OF s(7)] r(4) by simp
  ultimately have "repr_dict (be_sha1 env) (p_values p') t' (kv # kvs)" using t'(5) s(8) kv by auto
  moreover have "\<forall>k\<in>dom (ht_map t). ht_map t' k = ht_map t k" using t'(4) s(4) new(1) by auto
  moreover have "dom (ht_map t') = dom (ht_map t) \<union> fst ` set (kv # kvs)" using t'(3) s(4) kv by auto
  ultimately have "dict_parsed env t (kv # kvs) (p_values p') c" using t'(1,2) unfolding dict_parsed_def by blast
  then show ?case using r s(1,9-11) n by (auto simp: parsed_def)
qed

section \<open>Every value\<close>

lemma str_reads:
  assumes "good (BStr k)"
  shows "item_reads env h (BStr k)"
  unfolding item_reads_def
proof (intro allI impI)
  fix n p pre rest s ss l'
  assume a: "ahead h p (toks (length pre) (BStr k) @ s # ss) l'" "2 * length (enc (BStr k)) \<le> n"
  have n: "0 < n" using a(2) enc_pos [of "BStr k"] by linarith
  obtain p1 where "parse_item env n p = Inr (BencodeType (replicate 20 0) (AsString (length k) (Some k)), p1)"
    "ahead h p1 (str_tok k # s # ss) l'" "same_rest p p1"
    by (rule key_parsed [OF a(1) _ n]) (use assms in auto)
  then show "parsed env h p (parse_item env n p) (\<lambda>st b. repr (be_sha1 env) st b (BStr k)) (last (toks (length pre) (BStr k)) # s # ss) l'"
    by (auto simp: parsed_def same_rest_def intro!: exI [of _ "[]"])
qed

lemma int_reads: "item_reads env h (BInt i)"
  unfolding item_reads_def
proof (intro allI impI)
  fix n p pre rest s ss l'
  assume a: "ahead h p (toks (length pre) (BInt i) @ s # ss) l'" "2 * length (enc (BInt i)) \<le> n"
  then obtain m where n: "n = Suc m" by (cases n) auto
  let ?e = "length pre + 1 + length (dec_int i)"
  have a': "ahead h p (no_token\<lparr>tk_type := INT_START\<rparr> # no_token\<lparr>tk_type := INT_TOK, tk_asInt := i\<rparr> # end_tok ?e # s # ss) l'"
    using a(1) by simp
  obtain b p' where "parse_integer p = Inr (b, p')" "payload b = AsInt i" "ahead h p' (end_tok ?e # s # ss) l'" "same_rest p p'"
    by (rule parse_integer_ok [OF a'])
  moreover have "tk_type (p_cur_token p) = INT_START" using aheadE(1) [OF a'] by simp
  ultimately show "parsed env h p (parse_item env n p) (\<lambda>st b. repr (be_sha1 env) st b (BInt i)) (last (toks (length pre) (BInt i)) # s # ss) l'"
    using n by (auto simp: parsed_def same_rest_def intro!: exI [of _ "[]"])
qed

lemma list_reads:
  assumes "calm env h" and "good (BList vs)" and "good_list vs \<Longrightarrow> list_all (item_reads env h) vs"
  shows "item_reads env h (BList vs)"
  unfolding item_reads_def
proof (intro allI impI)
  fix n p pre rest s ss l'
  assume a: "ahead h p (toks (length pre) (BList vs) @ s # ss) l'" "2 * length (enc (BList vs)) \<le> n"
    "lx_mem (p_l p) = pre @ enc (BList vs) @ rest"
  obtain m where n: "n = Suc (Suc m)" "2 * length (enc_list vs) + 1 \<le> m" using a(2) by (cases n; cases "n - 1") auto
  let ?e = "length pre + 1 + length (enc_list vs)"
  obtain u1 u2 us where u: "toks_list (length (pre @ [108])) vs @ end_tok ?e # s # ss = u1 # u2 # us"
    by (cases "toks_list (length (pre @ [108])) vs"; cases "tl (toks_list (length (pre @ [108])) vs)") auto
  have a': "ahead h p (no_token\<lparr>tk_type := LIST_START\<rparr> # u1 # u2 # us) l'" using a(1) u by simp
  obtain p1 where p1: "parser_next_token p = Inr p1" "ahead h p1 (u1 # u2 # us) l'" "same_rest p p1"
    by (rule next_ahead [OF a'])
  have "p\<lparr>p_heap := h\<rparr> = p" using aheadE(4) [OF a'] by simp
  then have "parser_next_token (p\<lparr>p_heap := h\<rparr>) = Inr p1" using p1(1) by metis
  then have "parse_item env n p = list_loop env m (Some \<lparr>da_cap = 16, da_values = []\<rparr>) p1"
    using aheadE(1,4) [OF a'] n(1) assms(1) by (simp add: calm_def)
  moreover have "parsed env h p1 (list_loop env m (Some \<lparr>da_cap = 16, da_values = []\<rparr>) p1)
      (\<lambda>st b. repr (be_sha1 env) st b (BList ([] @ vs))) (end_tok ?e # s # ss) l'"
    using assms(2,3) p1(3) a(3) by (intro list_loop_reads [OF assms(1) _ p1(2) [folded u] n(2)]) (simp_all add: same_rest_def)
  ultimately show "parsed env h p (parse_item env n p) (\<lambda>st b. repr (be_sha1 env) st b (BList vs)) (last (toks (length pre) (BList vs)) # s # ss) l'"
    using same_rest_parsed [OF p1(3)] by simp
qed

lemma dict_reads:
  assumes "calm env h" and "good (BDict kvs)" and "good_dict kvs \<Longrightarrow> list_all (\<lambda>(k, v). item_reads env h v) kvs"
  shows "item_reads env h (BDict kvs)"
  unfolding item_reads_def
proof (intro allI impI)
  fix n p pre rest s ss l'
  assume a: "ahead h p (toks (length pre) (BDict kvs) @ s # ss) l'" "2 * length (enc (BDict kvs)) \<le> n"
    "lx_mem (p_l p) = pre @ enc (BDict kvs) @ rest"
  obtain m where n: "n = Suc (Suc m)" "2 * length (enc_dict kvs) + 1 \<le> m" using a(2) by (cases n; cases "n - 1") auto
  let ?e = "length pre + 1 + length (enc_dict kvs)"
  obtain u1 u2 us where u: "toks_dict (length (pre @ [100])) kvs @ end_tok ?e # s # ss = u1 # u2 # us"
    by (cases "toks_dict (length (pre @ [100])) kvs"; cases "tl (toks_dict (length (pre @ [100])) kvs)") auto
  obtain t where t: "hash_table_init h (be_rand env (p_tables p)) (be_table env (p_tables p)) = Inr (t, h)" "ht_inv t"
    "ht_map t = Map.empty" "ht_room (length kvs) t"
    using hash_table_init_ok [of h "be_rand env (p_tables p)" "be_table env (p_tables p)" "length kvs"] assms(1,2)
    by (auto simp: calm_def)
  let ?p = "p\<lparr>p_heap := h, p_tables := Suc (p_tables p)\<rparr>"
  have a': "ahead h ?p (no_token\<lparr>tk_type := DICT_START, tk_pos := length pre\<rparr> # u1 # u2 # us) l'"
    using a(1) u by (simp add: ahead_def)
  obtain p1 where p1: "parser_next_token ?p = Inr p1" "ahead h p1 (u1 # u2 # us) l'" "same_rest ?p p1"
    by (rule next_ahead [OF a'])
  have "p_heap p = h" using a(1) by (simp add: ahead_def)
  moreover have "tk_type (p_cur_token p) = DICT_START" using ahead_hd [OF a(1)] by simp
  ultimately have run: "parse_item env n p = dict_loop env m t p1" using p1(1) n(1) t(1) by simp
  have "parsed env h p1 (dict_loop env m t p1) (dict_parsed env t kvs) (end_tok ?e # s # ss) l'"
    using assms(2,3) p1(3) a(3) t by (intro dict_loop_reads [OF assms(1) _ _ _ p1(2) [folded u] n(2)]) (simp_all add: same_rest_def)
  then show "parsed env h p (parse_item env n p) (\<lambda>st b. repr (be_sha1 env) st b (BDict kvs)) (last (toks (length pre) (BDict kvs)) # s # ss) l'"
    using run p1(3) t(3) by (auto simp: parsed_def dict_parsed_def same_rest_def)
qed

lemma all_read:
  assumes "calm env h"
  shows "good v \<Longrightarrow> item_reads env h v"
    and "good_list vs \<Longrightarrow> list_all (item_reads env h) vs"
    and "good_dict kvs \<Longrightarrow> list_all (\<lambda>(k, v). item_reads env h v) kvs"
  by (induction v and vs and kvs rule: enc_enc_list_enc_dict.induct)
     (auto simp del: good.simps intro: str_reads int_reads list_reads [OF assms] dict_reads [OF assms])

end
