(* ===== verification/Bencode_Fuel.thy ===== *)
theory Bencode_Fuel
  imports Bencode_Parse
begin

text \<open>
  The parser's recursion ends on every text. Each nesting and each round of a loop reads at least one
  character, so the fuel of \<open>parse_fuel\<close> is never used up: more fuel does not change the result, and the
  result is never \<open>No_Fuel\<close>, neither from the recursion nor from the growth of the hash tables.
  \<open>ends r P\<close> says that \<open>r\<close> did not run out of fuel and that a value it returns satisfies \<open>P\<close>.
\<close>

section \<open>Enough fuel\<close>

definition rem :: "Parser \<Rightarrow> nat" where
  "rem p = length (lx_mem (p_l p)) - lx_read_pos (p_l p)"

lemma read_char_frame: "read_char l = Inr l' \<Longrightarrow> lx_mem l' = lx_mem l \<and> lx_read_pos l' = Suc (lx_read_pos l) \<and> lx_read_pos l < length (lx_mem l)"
  by (auto simp: read_char_def c_bind_eq_Inr arr_get_def split: if_splits)

lemma string_loop_pos: "string_loop k l acc = Inr (s, l') \<Longrightarrow> lx_read_pos l \<le> lx_read_pos l'"
  by (induction k arbitrary: l acc) (force simp: c_bind_eq_Inr dest: read_char_frame)+

lemma number_loop_pos: "number_loop k l acc = Inr (r, l') \<Longrightarrow> lx_read_pos l \<le> lx_read_pos l'"
proof (induction k arbitrary: l acc)
  case (Suc k)
  then show ?case
    by (auto simp: c_bind_eq_Inr split: if_splits) (metis Suc_leD read_char_frame)+
qed simp

lemma lex_default_pos: "lex_default l h = Inr (t, l', h') \<Longrightarrow> lx_read_pos l \<le> lx_read_pos l'"
  by (auto simp: lex_default_def finish_token_ok Let_def c_bind_eq_Inr
      split: if_splits option.splits prod.splits dest!: string_loop_pos number_loop_pos)

lemma next_token_pos:
  "next_token l h = Inr (t, l', h') \<Longrightarrow> lx_read_pos l < lx_read_pos l' \<and> lx_read_pos l < length (lx_mem l)"
  unfolding next_token_def
  by (elim c_bind_eq_InrE, drule read_char_frame)
     (auto simp: finish_token_ok split: if_splits dest!: lex_default_pos)

lemma parser_next_rem:
  assumes "parser_next_token p = Inr p'"
  shows "rem p' < rem p"
proof -
  from assms obtain t l' h' where n: "next_token (p_l p) (p_heap p) = Inr (t, l', h')" "p_l p' = l'"
    by (auto simp: parser_next_token_def c_bind_eq_Inr)
  show ?thesis using next_token_pos [OF n(1)] next_token_mem [OF n(1)] n(2) by (auto simp: rem_def)
qed

lemma expect_rem: "expect_peek p ty = Inr (ok, p') \<Longrightarrow> rem p' \<le> rem p"
  by (auto simp: expect_peek_def c_bind_eq_Inr parse_error_def rem_def split: if_splits dest!: parser_next_rem)

lemma error_rem: "parse_error p e = Inr p' \<Longrightarrow> rem p' = rem p"
  by (auto simp: parse_error_def rem_def split: if_splits)

lemma leaf_rem:
  "parse_integer p = Inr (b, p') \<Longrightarrow> rem p' \<le> rem p" "parse_bytestring p = Inr (b, p') \<Longrightarrow> rem p' \<le> rem p"
  by (auto simp: parse_integer_def parse_bytestring_def c_bind_eq_Inr Let_def split: if_splits dest!: expect_rem error_rem)

lemma rem_heap [simp]: "rem (p\<lparr>p_heap := h\<rparr>) = rem p" "rem (p\<lparr>p_values := vs\<rparr>) = rem p" "rem (p\<lparr>p_tables := k\<rparr>) = rem p"
  by (simp_all add: rem_def)

lemma dict_store_rem: "dict_store env i sp str t v p = Inr (t', p') \<Longrightarrow> rem p' < rem p"
  by (auto simp: dict_store_def c_bind_eq_Inr split: prod.splits if_splits dest!: parser_next_rem)

lemma parse_rem:
  "(\<forall>p b p'. parse_item env n p = Inr (b, p') \<longrightarrow> rem p' \<le> rem p) \<and>
   (\<forall>p b p'. parse_list env n p = Inr (b, p') \<longrightarrow> rem p' \<le> rem p) \<and>
   (\<forall>l p b p'. list_loop env n l p = Inr (b, p') \<longrightarrow> rem p' \<le> rem p) \<and>
   (\<forall>p b p'. parse_dict env n p = Inr (b, p') \<longrightarrow> rem p' \<le> rem p) \<and>
   (\<forall>t p b p'. dict_loop env n t p = Inr (b, p') \<longrightarrow> rem p' \<le> rem p)"
proof (induction n)
  case (Suc n)
  then have IH: "\<And>p b p'. parse_item env n p = Inr (b, p') \<Longrightarrow> rem p' \<le> rem p"
    "\<And>p b p'. parse_list env n p = Inr (b, p') \<Longrightarrow> rem p' \<le> rem p"
    "\<And>l p b p'. list_loop env n l p = Inr (b, p') \<Longrightarrow> rem p' \<le> rem p"
    "\<And>p b p'. parse_dict env n p = Inr (b, p') \<Longrightarrow> rem p' \<le> rem p"
    "\<And>t p b p'. dict_loop env n t p = Inr (b, p') \<Longrightarrow> rem p' \<le> rem p" by blast+
  show ?case
  proof (intro conjI allI impI)
    fix p b p' assume "parse_item env (Suc n) p = Inr (b, p')"
    then show "rem p' \<le> rem p"
      by (auto simp: c_bind_eq_Inr split: TokenType.splits dest: leaf_rem error_rem IH(2,4))
  next
    fix p b p' assume "parse_list env (Suc n) p = Inr (b, p')"
    then show "rem p' \<le> rem p"
      by (auto simp: c_bind_eq_Inr split: prod.splits dest!: IH(3) parser_next_rem)
  next
    fix l p b p' assume "list_loop env (Suc n) l p = Inr (b, p')"
    then show "rem p' \<le> rem p"
      by (auto simp: c_bind_eq_Inr split: option.splits prod.splits if_splits dest!: IH(1,3) parser_next_rem)
  next
    fix p b p' assume "parse_dict env (Suc n) p = Inr (b, p')"
    then show "rem p' \<le> rem p" by (auto simp: c_bind_eq_Inr dest!: IH(5) parser_next_rem)
  next
    fix t p b p' assume a: "dict_loop env (Suc n) t p = Inr (b, p')"
    show "rem p' \<le> rem p"
    proof (cases "tk_type (p_cur_token p) = END")
      case True
      then show ?thesis using a by simp
    next
      case False
      with a obtain key p1 where k: "parse_item env n p = Inr (key, p1)" by (auto simp: c_bind_eq_Inr)
      show ?thesis
      proof (cases "payload key")
        case (AsString len str)
        show ?thesis
        proof (cases str)
          case None
          then show ?thesis using a k False AsString by simp
        next
          case (Some s)
          then show ?thesis using a k False AsString IH(1) [OF k]
            by (auto simp: c_bind_eq_Inr dest!: IH(1,5) parser_next_rem dict_store_rem)
        qed
      qed (use a k False IH(1) [OF k] in \<open>auto simp: c_bind_eq_Inr dest!: error_rem\<close>)
    qed
  qed
qed simp


lemmas parse_rem_rules = parse_rem [THEN conjunct1, rule_format] parse_rem [THEN conjunct2, THEN conjunct2, THEN conjunct1, rule_format]

text \<open>Above the bound the result does not depend on the fuel.\<close>

lemma parse_fuel_irrelevant:
  "(\<forall>p m. 3 * rem p + 2 \<le> n \<longrightarrow> 3 * rem p + 2 \<le> m \<longrightarrow> parse_item env n p = parse_item env m p) \<and>
   (\<forall>p m. 3 * rem p + 1 \<le> n \<longrightarrow> 3 * rem p + 1 \<le> m \<longrightarrow> parse_list env n p = parse_list env m p) \<and>
   (\<forall>l p m. 3 * rem p + 3 \<le> n \<longrightarrow> 3 * rem p + 3 \<le> m \<longrightarrow> list_loop env n l p = list_loop env m l p) \<and>
   (\<forall>p m. 3 * rem p + 1 \<le> n \<longrightarrow> 3 * rem p + 1 \<le> m \<longrightarrow> parse_dict env n p = parse_dict env m p) \<and>
   (\<forall>t p m. 3 * rem p + 3 \<le> n \<longrightarrow> 3 * rem p + 3 \<le> m \<longrightarrow> dict_loop env n t p = dict_loop env m t p)"
proof (induction n)
  case (Suc n)
  then have IH: "\<And>p m. 3 * rem p + 2 \<le> n \<Longrightarrow> 3 * rem p + 2 \<le> m \<Longrightarrow> parse_item env n p = parse_item env m p"
    "\<And>p m. 3 * rem p + 1 \<le> n \<Longrightarrow> 3 * rem p + 1 \<le> m \<Longrightarrow> parse_list env n p = parse_list env m p"
    "\<And>l p m. 3 * rem p + 3 \<le> n \<Longrightarrow> 3 * rem p + 3 \<le> m \<Longrightarrow> list_loop env n l p = list_loop env m l p"
    "\<And>p m. 3 * rem p + 1 \<le> n \<Longrightarrow> 3 * rem p + 1 \<le> m \<Longrightarrow> parse_dict env n p = parse_dict env m p"
    "\<And>t p m. 3 * rem p + 3 \<le> n \<Longrightarrow> 3 * rem p + 3 \<le> m \<Longrightarrow> dict_loop env n t p = dict_loop env m t p" by blast+
  show ?case
  proof (intro conjI allI impI)
    fix p m assume b: "3 * rem p + 2 \<le> Suc n" "3 * rem p + 2 \<le> m"
    then obtain k where m: "m = Suc k" by (cases m) auto
    show "parse_item env (Suc n) p = parse_item env m p"
      using b m IH(2) [of p k] IH(4) [of p k] by (simp split: TokenType.split)
  next
    fix p m assume b: "3 * rem p + 1 \<le> Suc n" "3 * rem p + 1 \<le> m"
    then obtain k where m: "m = Suc k" by (cases m) auto
    have "list_loop env n l p1 = list_loop env k l p1" if "parser_next_token (p\<lparr>p_heap := h1\<rparr>) = Inr p1" for l h1 p1
      using parser_next_rem [OF that] b m by (intro IH(3)) simp_all
    then show "parse_list env (Suc n) p = parse_list env m p"
      unfolding m by (auto intro!: c_bind_cong split: prod.split)
  next
    fix l p m assume b: "3 * rem p + 3 \<le> Suc n" "3 * rem p + 3 \<le> m"
    then obtain k where m: "m = Suc k" by (cases m) auto
    have i: "parse_item env n (p\<lparr>p_heap := h'\<rparr>) = parse_item env k (p\<lparr>p_heap := h'\<rparr>)" for h' using b m by (intro IH(1)) simp_all
    have "list_loop env n d' p2 = list_loop env k d' p2"
      if "parse_item env k (p\<lparr>p_heap := h'\<rparr>) = Inr (x, p1)" "parser_next_token p1 = Inr p2" for x p1 h' p2 d'
      using parser_next_rem [OF that(2)] parse_rem_rules(1) [OF that(1)] b m by (intro IH(3)) simp_all
    then show "list_loop env (Suc n) l p = list_loop env m l p"
      unfolding m list_loop.simps i by (auto intro!: c_bind_cong split: prod.split option.split)
  next
    fix p m assume b: "3 * rem p + 1 \<le> Suc n" "3 * rem p + 1 \<le> m"
    then obtain k where m: "m = Suc k" by (cases m) auto
    have "dict_loop env n t p1 = dict_loop env k t p1" if "parser_next_token (p\<lparr>p_heap := h1, p_tables := x\<rparr>) = Inr p1" for t h1 p1 x
      using parser_next_rem [OF that] b m by (intro IH(5)) simp_all
    then show "parse_dict env (Suc n) p = parse_dict env m p"
      unfolding m parse_dict.simps by (auto intro!: c_bind_cong split: prod.split)
  next
    fix t p m assume b: "3 * rem p + 3 \<le> Suc n" "3 * rem p + 3 \<le> m"
    then obtain k where m: "m = Suc k" by (cases m) auto
    have i: "parse_item env n p = parse_item env k p" using b m by (intro IH(1)) simp_all
    have j: "parse_item env n p2 = parse_item env k p2"
      if "parse_item env k p = Inr (x, p1)" "parser_next_token p1 = Inr p2" for x p1 p2
      using parser_next_rem [OF that(2)] parse_rem_rules(1) [OF that(1)] b m by (intro IH(1)) simp_all
    have "dict_loop env n t' p4 = dict_loop env k t' p4"
      if "parse_item env k p = Inr (x, p1)" "parser_next_token p1 = Inr p2" "parse_item env k p2 = Inr (v, p3)"
        "dict_store env i sp str t v p3 = Inr (t', p4)" for x p1 p2 v p3 i sp str t' p4
      using parse_rem_rules(1) [OF that(1)] parser_next_rem [OF that(2)] parse_rem_rules(1) [OF that(3)] dict_store_rem [OF that(4)] b m
      by (intro IH(5)) linarith+
    with j show "dict_loop env (Suc n) t p = dict_loop env m t p"
      unfolding m dict_loop.simps i by (auto intro!: c_bind_cong split: prod.split option.split BencodePayload.split)
  qed
qed simp


lemma parse_item_fuel:
  assumes "parse_fuel p \<le> n" and "parse_fuel p \<le> m"
  shows "parse_item env n p = parse_item env m p"
proof -
  have "parse_fuel p = 3 * rem p + 2" by (simp add: parse_fuel_def rem_def)
  then show ?thesis using parse_fuel_irrelevant [of n env, THEN conjunct1] assms by metis
qed

section \<open>No step runs out of fuel\<close>

definition ends :: "'a c_result \<Rightarrow> ('a \<Rightarrow> bool) \<Rightarrow> bool" where
  "ends r P \<longleftrightarrow> (case r of Inl e \<Rightarrow> e \<noteq> No_Fuel | Inr x \<Rightarrow> P x)"

lemma ends_simps [simp]: "ends (Inr x) P = P x" "ends (Inl e) P = (e \<noteq> No_Fuel)"
  by (simp_all add: ends_def)

lemma ends_bind: "ends r P \<Longrightarrow> (\<And>x. r = Inr x \<Longrightarrow> P x \<Longrightarrow> ends (f x) Q) \<Longrightarrow> ends (c_bind r f) Q"
  by (cases r) simp_all

lemma endsI: "ends r (\<lambda>_. True) \<Longrightarrow> (\<And>x. r = Inr x \<Longrightarrow> P x) \<Longrightarrow> ends r P"
  by (cases r) simp_all

lemma ends_weaken: "ends r P \<Longrightarrow> (\<And>x. P x \<Longrightarrow> Q x) \<Longrightarrow> ends r Q"
  by (cases r) simp_all

lemma ends_D: "ends r P \<Longrightarrow> r \<noteq> Inl No_Fuel" "ends r P \<Longrightarrow> r = Inr x \<Longrightarrow> P x"
  by (cases r; simp)+

definition ht_grown :: "'v hash_table_t \<Rightarrow> bool" where
  "ht_grown t \<longleftrightarrow> length (ht_values t) = ht_size t \<and> (ht_size t = 0 \<or> (\<exists>k<64. ht_size t = 2 ^ k))"

text \<open>At most half full, with room for \<open>n\<close> more entries.\<close>

definition ht_half :: "nat \<Rightarrow> 'v hash_table_t \<Rightarrow> bool" where
  "ht_half n t \<longleftrightarrow> ht_size t = 0 \<and> ht_used t = 0 \<or> 2 * (ht_used t + n) \<le> ht_size t"

lemma ht_half_load: "ht_half n t \<Longrightarrow> \<not> load_factor_exceeded t"
  by (auto simp: ht_half_def load_factor_exceeded_def)

lemma insert_loop_ends: "ends (insert_loop t hv key v is) (\<lambda>t'. length (ht_values t') = length (ht_values t) \<and>
    ht_size t' = ht_size t \<and> ht_used t' \<le> ht_used t + (if is = [] then 0 else 1))"
proof (induction "is")
  case (Cons i "is")
  have "ends (probe t hv key i) (\<lambda>_. True)"
    by (auto simp: probe_def double_hash_def split: probe_strategy.split option.split)
  moreover have "ends (arr_get (ht_values t) idx) (\<lambda>_. True)" for idx by (simp add: arr_get_def)
  moreover have "ends (insert_loop t hv key v is) (\<lambda>t'. length (ht_values t') = length (ht_values t) \<and>
    ht_size t' = ht_size t \<and> ht_used t' \<le> ht_used t + 1)" using Cons.IH by (rule ends_weaken) (auto split: if_splits)
  ultimately show ?case by (auto intro!: ends_bind)
qed simp

lemma insert_no_rehash_ends:
  assumes "\<not> load_factor_exceeded t"
  shows "ends (hash_table_insert_fuel (Suc n) (t, h) key v) (\<lambda>(t', h'). length (ht_values t') = length (ht_values t) \<and>
    ht_size t' = ht_size t \<and> ht_used t' \<le> ht_used t + (if ht_size t = 0 then 0 else 1))"
proof -
  have "hash_table_insert_fuel (Suc n) (t, h) key v =
     c_bind (insert_loop t (word_of_nat (call_hasher (ht_hasher t) t key)) key v [0..<ht_size t]) (\<lambda>t'. Inr (t', h))"
    using assms by (simp add: hash_table_insert_fuel.simps)
  then show ?thesis by (auto intro!: ends_bind [OF insert_loop_ends] split: if_splits)
qed

lemma reinsert_ends:
  "ht_half (length ps) t \<Longrightarrow> length (ht_values t) = ht_size t \<Longrightarrow>
   ends (reinsert (hash_table_insert_fuel (Suc n)) ps (t, h))
     (\<lambda>(t', h'). length (ht_values t') = ht_size t' \<and> ht_size t' = ht_size t \<and> ht_half 0 t')"
proof (induction ps arbitrary: t h)
  case (Cons p ps)
  have half: "ht_half (length ps) t" using Cons.prems(1) by (auto simp: ht_half_def)
  have step: "ends (reinsert (hash_table_insert_fuel (Suc n)) ps (t1, h1))
     (\<lambda>(t', h'). length (ht_values t') = ht_size t' \<and> ht_size t' = ht_size t \<and> ht_half 0 t')"
    if "length (ht_values t1) = length (ht_values t) \<and> ht_size t1 = ht_size t \<and> ht_used t1 \<le> ht_used t + (if ht_size t = 0 then 0 else 1)" for t1 h1
  proof -
    have "ht_half (length ps) t1" using that Cons.prems(1) by (cases "ht_size t = 0") (auto simp: ht_half_def)
    from Cons.IH [OF this, of h1] show ?thesis using that Cons.prems(2) by (simp only: simp_thms)
  qed
  show ?case
  proof (cases "hp_in_use p")
    case True
    then show ?thesis using ends_bind [OF insert_no_rehash_ends [OF ht_half_load [OF Cons.prems(1)]]] step
      by (simp only: reinsert.simps if_True) (auto intro!: ends_bind [OF insert_no_rehash_ends [OF ht_half_load [OF Cons.prems(1)]]] step)
  next
    case False
    then show ?thesis using Cons.IH [OF half Cons.prems(2)] by simp
  qed
qed (simp add: ht_half_def)

lemma size_mul_grown:
  assumes "s = 0 \<or> (\<exists>k<64. s = 2 ^ k)"
  shows "size_mul s 2 = 0 \<or> (\<exists>k<64. size_mul s 2 = 2 ^ k) \<and> size_mul s 2 = 2 * s"
proof (cases "s = 0")
  case False
  then obtain k where k: "k < 64" "s = 2 ^ k" using assms by blast
  show ?thesis
  proof (cases "k = 63")
    case True
    then show ?thesis using k by (simp add: size_mul_def)
  next
    case False
    then have "Suc k < 64" using k by simp
    then have "(2 :: nat) ^ Suc k < 2 ^ 64" by (rule power_strict_increasing) simp
    then have "size_mul s 2 = 2 ^ Suc k" using k by (simp add: size_mul_def mult.commute)
    then show ?thesis using \<open>Suc k < 64\<close> k by (intro disjI2 conjI exI [of _ "Suc k"]) simp_all
  qed
qed (simp add: size_mul_def)

lemma rehash_ends:
  assumes "ht_grown t"
  shows "ends (rehash (hash_table_insert_fuel (Suc n)) (t, h)) (\<lambda>(t', h'). ht_grown t' \<and> \<not> load_factor_exceeded t')"
proof -
  obtain ok h1 where a: "alloc h = (ok, h1)" by (cases "alloc h")
  let ?s = "size_mul (ht_size t) 2"
  let ?t = "t\<lparr>ht_size := ?s, ht_used := 0, ht_values := replicate ?s empty_position\<rparr>"
  have s: "?s = 0 \<or> (\<exists>k<64. ?s = 2 ^ k) \<and> ?s = 2 * ht_size t" using assms by (intro size_mul_grown) (simp add: ht_grown_def)
  then have "ht_half (length (ht_values t)) ?t" using assms by (auto simp: ht_half_def ht_grown_def)
  then have r: "ends (reinsert (hash_table_insert_fuel (Suc n)) (ht_values t) (?t, h1))
     (\<lambda>(t', h'). length (ht_values t') = ht_size t' \<and> ht_size t' = ht_size ?t \<and> ht_half 0 t')"
    by (rule reinsert_ends) simp
  have "ends (reinsert (hash_table_insert_fuel (Suc n)) (ht_values t) (?t, h1)) (\<lambda>(t', h'). ht_grown t' \<and> \<not> load_factor_exceeded t')"
    using r by (rule ends_weaken) (use s ht_half_load in \<open>auto simp: ht_grown_def\<close>)
  then show ?thesis using a by (simp add: rehash_def Let_def)
qed

lemma hash_table_insert_ends:
  assumes "ht_grown t"
  shows "ends (hash_table_insert (t, h) key v) (\<lambda>(t', h'). ht_grown t')"
proof -
  have calm: "ends (hash_table_insert_fuel (Suc (Suc 0)) (t1, h1) key v) (\<lambda>(t', h'). ht_grown t')"
    if "ht_grown t1" "\<not> load_factor_exceeded t1" for t1 h1
    using insert_no_rehash_ends [OF that(2)] by (rule ends_weaken) (use that(1) in \<open>auto simp: ht_grown_def\<close>)
  show ?thesis
  proof (cases "load_factor_exceeded t")
    case False
    then show ?thesis using calm [OF assms False] by (simp add: hash_table_insert_def numeral_2_eq_2)
  next
    case True
    have eq: "hash_table_insert (t, h) key v = c_bind (rehash (hash_table_insert_fuel (Suc 0)) (t, h))
       (\<lambda>(t1, h1). c_bind (insert_loop t1 (word_of_nat (call_hasher (ht_hasher t1) t1 key)) key v [0..<ht_size t1]) (\<lambda>t'. Inr (t', h1)))"
      using True by (simp add: hash_table_insert_def numeral_2_eq_2 hash_table_insert_fuel.simps(2) [of "Suc 0"])
    have "c_bind (insert_loop t1 (word_of_nat (call_hasher (ht_hasher t1) t1 key)) key v [0..<ht_size t1]) (\<lambda>t'. Inr (t', h1)) =
      hash_table_insert_fuel (Suc (Suc 0)) (t1, h1) key v" if "\<not> load_factor_exceeded t1" for t1 h1
      using that by (simp add: hash_table_insert_fuel.simps(2) [of "Suc 0"])
    then show ?thesis unfolding eq by (auto intro!: ends_bind [OF rehash_ends [OF assms]] calm)
  qed
qed

lemma read_char_ends [simp]: "ends (read_char l) (\<lambda>_. True)"
  by (auto simp: read_char_def arr_get_def)

lemma peek_char_ends [simp]: "ends (peek_char l) (\<lambda>_. True)"
  by (auto simp: peek_char_def arr_get_def)

lemma string_loop_ends [simp]: "ends (string_loop k l acc) (\<lambda>_. True)"
  by (induction k arbitrary: l acc) (auto intro!: ends_bind [OF read_char_ends])

lemma number_loop_ends [simp]: "ends (number_loop k l acc) (\<lambda>_. True)"
  by (induction k arbitrary: l acc) (auto intro!: ends_bind [OF read_char_ends] ends_bind [OF peek_char_ends])

lemma strtol_ends [simp]: "ends (strtol m) (\<lambda>_. True)"
  by (auto simp: strtol_def scan_digits_def Let_def split: list.split)

lemma next_token_ends [simp]: "ends (next_token l h) (\<lambda>_. True)"
  by (auto simp: next_token_def lex_default_def finish_token_def Let_def split: option.split prod.split
      intro!: ends_bind [OF read_char_ends] ends_bind [OF peek_char_ends] ends_bind [OF string_loop_ends]
        ends_bind [OF number_loop_ends] ends_bind [OF strtol_ends])

lemma parser_next_token_ends [simp]: "ends (parser_next_token p) (\<lambda>_. True)"
  by (auto simp: parser_next_token_def intro!: ends_bind [OF next_token_ends])

lemma parse_error_ends [simp]: "ends (parse_error p e) (\<lambda>_. True)"
  by (simp add: parse_error_def)

lemma expect_peek_ends [simp]: "ends (expect_peek p ty) (\<lambda>_. True)"
  by (auto simp: expect_peek_def intro!: ends_bind [OF parse_error_ends] ends_bind [OF parser_next_token_ends])

lemma parse_leaf_ends: "ends (parse_integer p) (\<lambda>_. True)" "ends (parse_bytestring p) (\<lambda>_. True)"
  by (auto simp: parse_integer_def parse_bytestring_def c_assert_def Let_def
      intro!: ends_bind [OF expect_peek_ends] ends_bind [OF parse_error_ends] ends_bind [of _ "\<lambda>_. True"] split: if_splits)

lemma strcmp_eq_ends: "ends (strcmp_eq a b) (\<lambda>_. True)"
  by (induction a b rule: strcmp_eq.induct) auto

lemma dict_key_ends: "ends (dict_key env str p) (\<lambda>_. True)"
  by (auto simp: dict_key_def c_assert_def intro!: ends_bind [OF strcmp_eq_ends] split: if_splits)

lemma mem_read_ends: "ends (mem_read m off n) (\<lambda>_. True)"
  by (simp add: mem_read_def)

lemma compute_info_hash_ends: "ends (compute_info_hash f h buf s e) (\<lambda>_. True)"
  by (auto simp: compute_info_hash_def Let_def intro!: ends_bind [OF mem_read_ends] split: prod.split)

lemma dict_digest_ends: "ends (dict_digest env i s v h p) (\<lambda>_. True)"
  by (auto simp: dict_digest_def c_assert_def intro!: ends_bind [OF compute_info_hash_ends] ends_bind [OF mem_read_ends])

lemma strlen_ends: "ends (strlen m) (\<lambda>_. True)"
  by (simp add: strlen_def Let_def)

lemma dict_store_ends: "ht_grown t \<Longrightarrow> ends (dict_store env i s str t v p) (\<lambda>(t', p'). ht_grown t')"
  by (auto simp: dict_store_def intro!: ends_bind [OF dict_digest_ends] ends_bind [OF strlen_ends] ends_bind [OF mem_read_ends]
      ends_bind [OF hash_table_insert_ends] ends_bind [OF parser_next_token_ends] split: prod.split)

lemma hash_table_init_ends: "ends (hash_table_init h r t0) (\<lambda>(t, h'). ht_grown t)"
proof -
  have "\<exists>k<64. (1024 :: nat) = 2 ^ k" by (rule exI [of _ 10]) simp
  then show ?thesis by (auto simp: hash_table_init_def hash_table_init_ex_def ht_grown_def Let_def split: prod.split)
qed

lemma parse_ends:
  "(\<forall>p. 3 * rem p + 2 \<le> n \<longrightarrow> ends (parse_item env n p) (\<lambda>_. True)) \<and>
   (\<forall>p. 3 * rem p + 1 \<le> n \<longrightarrow> ends (parse_list env n p) (\<lambda>_. True)) \<and>
   (\<forall>l p. 3 * rem p + 3 \<le> n \<longrightarrow> ends (list_loop env n l p) (\<lambda>_. True)) \<and>
   (\<forall>p. 3 * rem p + 1 \<le> n \<longrightarrow> ends (parse_dict env n p) (\<lambda>_. True)) \<and>
   (\<forall>t p. ht_grown t \<longrightarrow> 3 * rem p + 3 \<le> n \<longrightarrow> ends (dict_loop env n t p) (\<lambda>_. True))"
proof (induction n)
  case (Suc n)
  then have IH: "\<And>p. 3 * rem p + 2 \<le> n \<Longrightarrow> ends (parse_item env n p) (\<lambda>_. True)"
    "\<And>p. 3 * rem p + 1 \<le> n \<Longrightarrow> ends (parse_list env n p) (\<lambda>_. True)"
    "\<And>l p. 3 * rem p + 3 \<le> n \<Longrightarrow> ends (list_loop env n l p) (\<lambda>_. True)"
    "\<And>p. 3 * rem p + 1 \<le> n \<Longrightarrow> ends (parse_dict env n p) (\<lambda>_. True)"
    "\<And>t p. ht_grown t \<Longrightarrow> 3 * rem p + 3 \<le> n \<Longrightarrow> ends (dict_loop env n t p) (\<lambda>_. True)" by blast+
  show ?case
  proof (intro conjI allI impI)
    fix p assume "3 * rem p + 2 \<le> Suc n"
    then show "ends (parse_item env (Suc n) p) (\<lambda>_. True)"
      using IH(2,4) [of p] by (auto simp: parse_leaf_ends intro!: ends_bind [OF parse_error_ends] split: TokenType.split)
  next
    fix p assume b: "3 * rem p + 1 \<le> Suc n"
    have "ends (list_loop env n l p1) (\<lambda>_. True)" if "parser_next_token (p\<lparr>p_heap := h1\<rparr>) = Inr p1" for l h1 p1
      using parser_next_rem [OF that] b by (intro IH(3)) simp
    then show "ends (parse_list env (Suc n) p) (\<lambda>_. True)"
      by (auto intro!: ends_bind [OF parser_next_token_ends] split: prod.split)
  next
    fix l p assume b: "3 * rem p + 3 \<le> Suc n"
    have i: "ends (parse_item env n p) (\<lambda>_. True)" "ends (parse_item env n (p\<lparr>p_heap := h'\<rparr>)) (\<lambda>_. True)" for h'
      using b by (auto intro!: IH(1))
    have j: "ends (list_loop env n d' p2) (\<lambda>_. True)"
      if "parse_item env n (p\<lparr>p_heap := h'\<rparr>) = Inr (x, p1)" "parser_next_token p1 = Inr p2" for x p1 h' p2 d'
      using parser_next_rem [OF that(2)] parse_rem_rules(1) [OF that(1)] b by (intro IH(3)) simp
    show "ends (list_loop env (Suc n) l p) (\<lambda>_. True)"
      by (auto intro!: ends_bind [OF i(1)] ends_bind [OF i(2)] ends_bind [OF parser_next_token_ends] j split: option.split prod.split)
  next
    fix p assume b: "3 * rem p + 1 \<le> Suc n"
    have "ends (dict_loop env n t p1) (\<lambda>_. True)"
      if "ht_grown t" "parser_next_token (p\<lparr>p_heap := h1, p_tables := x\<rparr>) = Inr p1" for t h1 p1 x
      using parser_next_rem [OF that(2)] b by (intro IH(5) that(1)) simp
    then show "ends (parse_dict env (Suc n) p) (\<lambda>_. True)"
      by (auto intro!: ends_bind [OF hash_table_init_ends] ends_bind [OF parser_next_token_ends])
  next
    fix t :: "nat hash_table_t" and p assume g: "ht_grown t" and b: "3 * rem p + 3 \<le> Suc n"
    have i: "ends (parse_item env n p) (\<lambda>_. True)" using b by (intro IH(1)) simp
    have j: "ends (parse_item env n p2) (\<lambda>_. True)"
      if "parse_item env n p = Inr (x, p1)" "parser_next_token p1 = Inr p2" for x p1 p2
      using parser_next_rem [OF that(2)] parse_rem_rules(1) [OF that(1)] b by (intro IH(1)) simp
    have k: "ends (dict_loop env n t' p4) (\<lambda>_. True)"
      if "parse_item env n p = Inr (x, p1)" "parser_next_token p1 = Inr p2" "parse_item env n p2 = Inr (v, p3)"
        "dict_store env i sp str t v p3 = Inr (t', p4)" "ht_grown t'" for x p1 p2 v p3 i sp str t' p4
      using parse_rem_rules(1) [OF that(1)] parser_next_rem [OF that(2)] parse_rem_rules(1) [OF that(3)] dict_store_rem [OF that(4)] b
      by (intro IH(5) that(5)) linarith
    show "ends (dict_loop env (Suc n) t p) (\<lambda>_. True)"
      by (auto intro!: ends_bind [OF i] ends_bind [OF dict_key_ends] ends_bind [OF parser_next_token_ends] ends_bind [OF j]
          ends_bind [OF dict_store_ends [OF g]] ends_bind [OF parse_error_ends] k split: option.split BencodePayload.split)
  qed
qed simp_all

lemma parse_item_ends:
  assumes "parse_fuel p \<le> n"
  shows "parse_item env n p \<noteq> Inl No_Fuel"
proof -
  have "3 * rem p + 2 \<le> n" using assms by (simp add: parse_fuel_def rem_def)
  then show ?thesis using parse_ends [of n env] ends_D(1) by blast
qed

text \<open>
  C20. The parser terminates: however broken the text, it returns a value or leaves the memory it may
  read, before \<open>parse_fuel\<close> recursion steps are used up, and more steps do not change what it does.
\<close>
theorem parse_item_terminates:
  assumes "parse_fuel p \<le> n"
  shows "parse_item env n p \<noteq> Inl No_Fuel \<and> parse_item env n p = parse_item env (parse_fuel p) p"
  using parse_item_ends [OF assms] parse_item_fuel [OF assms order_refl] by blast

section \<open>Examples\<close>

definition sample_bc_env :: bc_env where
  "sample_bc_env = \<lparr>be_sha1 = \<lambda>bs. take 20 (bs @ replicate 20 0), be_gap = [0], be_rand = \<lambda>_. 7,
     be_table = \<lambda>_. \<lparr>ht_strategy = PROBE_LINEAR, ht_hasher = Knuth_Hash, ht_comparer = Memcmp_Comparer, ht_double_hasher = None,
       ht_size = 0, ht_p = 0, ht_values = [], ht_used = 0\<rparr>\<rparr>"

lemma sample_bc_env_ok: "be_gap sample_bc_env = 0 # []" "\<forall>bs. length (be_sha1 sample_bc_env bs) = 20"
  by (auto simp: sample_bc_env_def min_def)

theorem parse_item_terminates_witness:
  "let p = \<lparr>p_l = \<lparr>lx_mem = [108, 108], lx_eof = False, lx_pos = 1, lx_read_pos = 2, lx_ch = 108, lx_prevprev = no_token, lx_prev = no_token\<rparr>,
        p_cur_token = no_token\<lparr>tk_type := LIST_START\<rparr>, p_peek_token = no_token\<lparr>tk_type := LIST_START\<rparr>, p_errors = [],
        p_heap = calm_heap, p_values = [], p_tables = 0\<rparr>
   in parse_item sample_bc_env 9 p \<noteq> Inl No_Fuel \<and> parse_item sample_bc_env 9 p = parse_item sample_bc_env (parse_fuel p) p"
  unfolding Let_def by (rule parse_item_terminates) (simp add: parse_fuel_def)

end
