(* ===== verification/Bencode_Roundtrip.thy ===== *)
theory Bencode_Roundtrip
  imports Bencode_Fuel
begin

text \<open>
  The parser reads every text of the format back as the value it stands for, with the digest of the
  \<open>info\<close> dictionary.
\<close>

section \<open>A whole text\<close>

lemma next_token_nul:
  assumes "at l pre (0 # rest)" and "boundary l"
  shows "\<exists>t l'. next_token l h = Inr (t, l', h)"
  using read_char_at [OF assms(1)] assms(2)
  by (auto simp: next_token_def lex_default_def finish_token_ok isdigit_def boundary_def)

lemma parse_text_ok:
  assumes "good v" and "calm env h" and "slack = 0 # r"
    and "tk_type pv \<notin> {COLON, INT_START, STRING_SIZE}" and "tk_type pp \<noteq> STRING_SIZE"
  shows "\<exists>b p. parse_text env h (Some (enc v)) slack ch0 pp pv = Inr (b, p) \<and> repr (be_sha1 env) (p_values p) b v \<and>
    p_errors p = [] \<and> p_heap p = h"
proof -
  let ?l = "\<lparr>lx_mem = enc v @ slack, lx_eof = False, lx_pos = 0, lx_read_pos = 0, lx_ch = ch0, lx_prevprev = pp, lx_prev = pv\<rparr>"
  have heap: "heap_ok h" using assms(2) by (simp add: calm_def)
  have at0: "at ?l [] (enc v @ 0 # r)" "boundary ?l" using assms(3-5) by (simp_all add: at_def boundary_def)
  obtain l1 where l1: "lexes h ?l (toks 0 v) l1" "at l1 ([] @ enc v) (0 # r)" "boundary l1"
    using lex_value(1) [OF heap assms(1) at0] by (auto simp: lexed_def)
  obtain t l2 where t: "next_token l1 h = Inr (t, l2, h)" using next_token_nul [OF l1(2,3)] by blast
  obtain t0 t1 us where ts: "toks 0 v = t0 # t1 # us" by (rule toks_split)
  have "lexes h ?l (t0 # t1 # us @ [t]) l2" using lexes_append [OF l1(1) lexes_one [OF t]] ts by simp
  then obtain la lb where ab: "next_token ?l h = Inr (t0, la, h)" "next_token la h = Inr (t1, lb, h)" "lexes h lb (us @ [t]) l2"
    by (auto elim!: lexes_ConsE)
  let ?p = "\<lparr>p_l = lb, p_cur_token = t0, p_peek_token = t1, p_errors = [], p_heap = h, p_values = [], p_tables = 0\<rparr>"
  have p: "new_parser ?l h = Inr ?p" using ab by (simp add: new_parser_def)
  have mem: "lx_mem lb = enc v @ slack" using next_token_mem [OF ab(1)] next_token_mem [OF ab(2)] by simp
  have a: "ahead h ?p (toks (length ([] :: byte list)) v @ t # []) l2" using ab(3) ts by (simp add: ahead_def)
  have fuel: "parse_item env (parse_fuel ?p) ?p = parse_item env (parse_fuel ?p + 2 * length (enc v)) ?p"
    by (rule parse_item_fuel) simp_all
  have n: "2 * length (enc v) \<le> parse_fuel ?p + 2 * length (enc v)" by simp
  have m: "lx_mem (p_l ?p) = [] @ enc v @ slack" using mem by simp
  obtain b p' ext where r: "parse_item env (parse_fuel ?p + 2 * length (enc v)) ?p = Inr (b, p')"
    "ahead h p' (last (toks (length ([] :: byte list)) v) # t # []) l2" "repr (be_sha1 env) (p_values p') b v" "p_errors p' = p_errors ?p"
    by (rule item_readsD [OF all_read(1) [OF assms(2,1)] a n m])
  have "parse_text env h (Some (enc v)) slack ch0 pp pv = Inr (b, p')"
    using p fuel r(1) heap by (simp add: parse_text_def new_lexer_def)
  then show ?thesis using r(3,4) aheadE(4) [OF r(2)] by auto
qed

text \<open>
  C9. Parsing inverts the format. The text of any value the parser can read (\<open>good\<close>: non-empty strings that
  do not start with a colon, integers of the size of \<open>long\<close>, dictionaries with distinct NUL-free keys)
  is parsed without an error into exactly that value; the parser has to find a NUL behind the text and
  behind every string, and harmless values in the lexer's uninitialised fields.
\<close>
theorem bencode_roundtrip:
  assumes "good v" and "heap_ok h" and "be_gap env = 0 # g" and "\<forall>bs. length (be_sha1 env bs) = 20" and "slack = 0 # r"
    and "tk_type pv \<notin> {COLON, INT_START, STRING_SIZE}" and "tk_type pp \<noteq> STRING_SIZE"
  shows "\<exists>b p. parse_text env h (Some (enc v)) slack ch0 pp pv = Inr (b, p) \<and> repr (be_sha1 env) (p_values p) b v \<and> p_errors p = []"
  using parse_text_ok [OF assms(1) _ assms(5-7), of env h ch0] assms(2-4) unfolding calm_def by blast

text \<open>
  C18. The info hash. Parsing a torrent file leaves with the entry \<open>info\<close> of the top dictionary the SHA-1 of
  exactly the bytes of that dictionary as they stand in the file.
\<close>
theorem info_hash_exact:
  assumes "good (BDict kvs)" and "heap_ok h" and "be_gap env = 0 # g" and "\<forall>bs. length (be_sha1 env bs) = 20" and "slack = 0 # r"
    and "tk_type pv \<notin> {COLON, INT_START, STRING_SIZE}" and "tk_type pp \<noteq> STRING_SIZE" and "(info_key, v) \<in> set kvs"
  shows "\<exists>b p t a. parse_text env h (Some (enc (BDict kvs))) slack ch0 pp pv = Inr (b, p) \<and> payload b = AsDict t \<and>
    hash_table_lookup t info_key = Inr (Some a) \<and> a < length (p_values p) \<and> sha1_digest (p_values p ! a) = be_sha1 env (enc v)"
proof -
  have calm: "calm env h" using assms(2-4) by (auto simp: calm_def)
  obtain b p where r: "parse_text env h (Some (enc (BDict kvs))) slack ch0 pp pv = Inr (b, p)" "repr (be_sha1 env) (p_values p) b (BDict kvs)"
    using parse_text_ok [OF assms(1) calm assms(5-7)] by blast
  from r(2) obtain t where t: "payload b = AsDict t" "ht_inv t" "repr_dict (be_sha1 env) (p_values p) t kvs" by auto
  have "\<exists>a. ht_map t info_key = Some a \<and> a < length (p_values p) \<and> sha1_digest (p_values p ! a) = be_sha1 env (enc v)"
    using t(3) assms(8) by (induction kvs) auto
  then show ?thesis using r(1) t hash_table_lookup_map [OF t(2)] by auto
qed

section \<open>Examples\<close>

text \<open>\<open>{"a": 1, "info": {"pieces": "AAAAAAAAAAAA"}}\<close>\<close>

definition sample_info :: bvalue where
  "sample_info = BDict [([112, 105, 101, 99, 101, 115], BStr (replicate 12 65))]"

definition sample_top :: "(byte list \<times> bvalue) list" where
  "sample_top = [([97], BInt 1), (info_key, sample_info)]"

lemma sample_good: "good (BDict sample_top)"
proof -
  have "20 \<le> length (enc sample_info)" by (simp add: sample_info_def dec.simps)
  then show ?thesis by (simp add: sample_top_def sample_info_def good_str_def info_key_def)
qed

theorem bencode_roundtrip_witness:
  "\<exists>b p. parse_text sample_bc_env calm_heap (Some (enc (BDict sample_top))) [0] 0 no_token no_token = Inr (b, p) \<and>
    repr (be_sha1 sample_bc_env) (p_values p) b (BDict sample_top) \<and> p_errors p = []"
  by (rule bencode_roundtrip [OF sample_good _ sample_bc_env_ok]) (simp_all add: no_token_def)

theorem info_hash_exact_witness:
  "\<exists>b p t a. parse_text sample_bc_env calm_heap (Some (enc (BDict sample_top))) [0] 0 no_token no_token = Inr (b, p) \<and> payload b = AsDict t \<and>
    hash_table_lookup t info_key = Inr (Some a) \<and> a < length (p_values p) \<and>
    sha1_digest (p_values p ! a) = be_sha1 sample_bc_env (enc sample_info)"
  by (rule info_hash_exact [OF sample_good _ sample_bc_env_ok]) (simp_all add: no_token_def sample_top_def)

end
