(* ===== verification/File_Parser.thy ===== *)
theory File_Parser
  imports Bencode_Roundtrip C_String Dl_File Swarm_State
begin

text \<open>
  \<open>src/file-parser/file-parser.c\<close>: from the text of a torrent file to its description, the initial shared
  state and the files to download to. The code reads the union of a parsed value without looking at its
  kind; reading another member than the one stored is the outcome \<open>Wrong_Member\<close>. Pointers to text are
  modelled by the C string they point to, read at once up to its NUL: text without a NUL in reach is
  \<open>Out_Of_Bounds\<close> here, where the code fails when the string is first used. Memory that is only freed
  is not modelled. The result carries the calls that change the file system, in order.
\<close>

section \<open>Access to parsed values\<close>

definition nul_string :: "bc_env \<Rightarrow> byte list \<Rightarrow> string c_result" where
  "nul_string env s = c_bind (strlen (s @ be_gap env)) (\<lambda>n. Inr (c_str (take n (s @ be_gap env))))"

text \<open>The pointers in a table are indices into \<open>st\<close>, the values the parser allocated.\<close>

definition HT_LOOKUP :: "BencodeType list \<Rightarrow> nat hash_table_t \<Rightarrow> string \<Rightarrow> BencodeType option c_result" where
  "HT_LOOKUP st t key =
     c_bind (hash_table_lookup t (c_lit key)) (\<lambda>r.
       case r of None \<Rightarrow> Inr None | Some a \<Rightarrow> c_bind (arr_get st a) (\<lambda>b. Inr (Some b)))"

definition HT_DELETE :: "nat hash_table_t \<Rightarrow> string \<Rightarrow> nat hash_table_t c_result" where
  "HT_DELETE t key = hash_table_delete t (c_lit key)"

definition deref :: "'a option \<Rightarrow> 'a c_result" where
  "deref p = (case p of None \<Rightarrow> Inl Null_Deref | Some x \<Rightarrow> Inr x)"

definition asInt :: "BencodeType \<Rightarrow> int c_result" where
  "asInt b = (case payload b of AsInt i \<Rightarrow> Inr i | _ \<Rightarrow> Inl Wrong_Member)"

definition asString :: "BencodeType \<Rightarrow> (nat \<times> byte list option) c_result" where
  "asString b = (case payload b of AsString n s \<Rightarrow> Inr (n, s) | _ \<Rightarrow> Inl Wrong_Member)"

definition asList :: "BencodeType \<Rightarrow> BencodeType list c_result" where
  "asList b = (case payload b of AsList vs \<Rightarrow> Inr vs | _ \<Rightarrow> Inl Wrong_Member)"

definition asDict :: "BencodeType \<Rightarrow> nat hash_table_t c_result" where
  "asDict b = (case payload b of AsDict t \<Rightarrow> Inr t | _ \<Rightarrow> Inl Wrong_Member)"

definition field :: "BencodeType list \<Rightarrow> nat hash_table_t \<Rightarrow> string \<Rightarrow> BencodeType c_result" where
  "field st t key = c_bind (HT_LOOKUP st t key) deref"

definition asText :: "bc_env \<Rightarrow> BencodeType \<Rightarrow> string option c_result" where
  "asText env b =
     c_bind (asString b) (\<lambda>(n, s).
       case s of None \<Rightarrow> Inr None | Some m \<Rightarrow> c_bind (nul_string env m) (\<lambda>str. Inr (Some str)))"

text \<open>\<open>long\<close> to \<open>size_t\<close>.\<close>

definition size_of_long :: "int \<Rightarrow> nat" where
  "size_of_long i = nat (i mod 2 ^ 64)"

section \<open>The \<open>info\<close> dictionary\<close>

primrec split_loop :: "byte list \<Rightarrow> nat \<Rightarrow> byte list list c_result" where
  "split_loop buf 0 = Inr []"
| "split_loop buf (Suc i) =
     c_bind (split_loop buf i) (\<lambda>out.
     c_bind (mem_read buf (int (i * SHA1_LENGTH)) SHA1_LENGTH) (\<lambda>hash. Inr (out @ [hash])))"

definition split_piece_hashes ::
  "bc_env \<Rightarrow> c_heap \<Rightarrow> byte list option \<Rightarrow> nat \<Rightarrow> (byte list list \<times> c_heap) c_result" where
  "split_piece_hashes env h buf len =
     (if len mod SHA1_LENGTH \<noteq> 0 then Inl Exited
      else let num_pieces = len div SHA1_LENGTH in
        case alloc h of (ok, h') \<Rightarrow>
          if num_pieces = 0 then Inr ([], h')
          else if \<not> ok then Inl Null_Deref
          else c_bind (deref buf) (\<lambda>s. c_bind (split_loop (s @ be_gap env) num_pieces) (\<lambda>out. Inr (out, h'))))"

primrec path_strings ::
  "bc_env \<Rightarrow> bool \<Rightarrow> c_heap \<Rightarrow> BencodeType list \<Rightarrow> (string option list \<times> c_heap) c_result" where
  "path_strings env ok h [] = Inr ([], h)"
| "path_strings env ok h (v # vs) =
     c_bind (asText env v) (\<lambda>s.
     c_bind (deref s) (\<lambda>str.
       case alloc h of (dup, h1) \<Rightarrow>
         if \<not> ok then Inl Null_Deref
         else c_bind (path_strings env ok h1 vs) (\<lambda>(ss, h2). Inr ((if dup then Some str else None) # ss, h2))))"

definition file_entry ::
  "bc_env \<Rightarrow> BencodeType list \<Rightarrow> bool \<Rightarrow> c_heap \<Rightarrow> BencodeType \<Rightarrow> (file_info_t \<times> c_heap) c_result" where
  "file_entry env st ok h v =
     c_bind (asDict v) (\<lambda>t.
     c_bind (field st t ''length'') (\<lambda>l.
     c_bind (asInt l) (\<lambda>len.
       if \<not> ok then Inl Null_Deref
       else
         c_bind (HT_DELETE t ''length'') (\<lambda>t'.
         c_bind (field st t' ''path'') (\<lambda>p.
         c_bind (asList p) (\<lambda>vs.
           case alloc h of (ok', h1) \<Rightarrow>
             c_bind (path_strings env ok' h1 vs) (\<lambda>(path, h2).
               Inr (\<lparr>fi_length = size_of_long len, fi_path = path\<rparr>, h2))))))))"

primrec files_loop ::
  "bc_env \<Rightarrow> BencodeType list \<Rightarrow> bool \<Rightarrow> c_heap \<Rightarrow> BencodeType list \<Rightarrow> (file_info_t list \<times> c_heap) c_result" where
  "files_loop env st ok h [] = Inr ([], h)"
| "files_loop env st ok h (v # vs) =
     c_bind (file_entry env st ok h v) (\<lambda>(f, h1).
     c_bind (files_loop env st ok h1 vs) (\<lambda>(fs, h2). Inr (f # fs, h2)))"

text \<open>In single-file mode \<open>files\<close> and \<open>files_count\<close> stay uninitialised; \<open>parse_file\<close> sets them.\<close>

definition parse_info ::
  "bc_env \<Rightarrow> BencodeType list \<Rightarrow> c_heap \<Rightarrow> nat hash_table_t \<Rightarrow> (info_t \<times> c_heap) c_result" where
  "parse_info env st h dict =
     c_bind (field st dict ''piece length'') (\<lambda>b. c_bind (asInt b) (\<lambda>piece_length.
     c_bind (field st dict ''pieces'') (\<lambda>b. c_bind (asString b) (\<lambda>(len, str).
     c_bind (split_piece_hashes env h str len) (\<lambda>(pieces, h1).
     c_bind (field st dict ''name'') (\<lambda>b. c_bind (asText env b) (\<lambda>name.
     let info = \<lparr>info_mode = INFO_SINGLE, info_piece_length = size_of_long piece_length, info_name = name,
                 info_num_pieces = len div SHA1_LENGTH, info_pieces = pieces, info_length = 0, info_files = []\<rparr> in
     c_bind (HT_LOOKUP st dict ''length'') (\<lambda>r.
       case r of
         Some b \<Rightarrow> c_bind (asInt b) (\<lambda>l. Inr (info\<lparr>info_length := size_of_long l\<rparr>, h1))
       | None \<Rightarrow>
           c_bind (field st dict ''files'') (\<lambda>b. c_bind (asList b) (\<lambda>vs.
             case alloc h1 of (ok, h2) \<Rightarrow>
               c_bind (files_loop env st ok h2 vs) (\<lambda>(fs, h3).
                 Inr (info\<lparr>info_mode := INFO_MULTI, info_files := fs\<rparr>, h3)))))))))))) "

section \<open>The torrent file\<close>

definition take_announce ::
  "bc_env \<Rightarrow> BencodeType list \<Rightarrow> nat hash_table_t \<Rightarrow> (string option \<times> nat hash_table_t) c_result" where
  "take_announce env st dict =
     c_bind (HT_LOOKUP st dict ''announce'') (\<lambda>r.
       case r of
         None \<Rightarrow> Inr (None, dict)
       | Some b \<Rightarrow> c_bind (asText env b) (\<lambda>s. c_bind (HT_DELETE dict ''announce'') (\<lambda>t. Inr (s, t))))"

text \<open>
  Of every tier only the first address is kept. An empty tier has sixteen zeroed places (\<open>da_init\<close>), the
  first of which is read: a NULL address.
\<close>

definition tier_address :: "bc_env \<Rightarrow> BencodeType \<Rightarrow> string option c_result" where
  "tier_address env v =
     c_bind (asList v) (\<lambda>vs. case vs of [] \<Rightarrow> Inr None | b # _ \<Rightarrow> asText env b)"

primrec tiers_loop :: "bc_env \<Rightarrow> bool \<Rightarrow> BencodeType list \<Rightarrow> string option list c_result" where
  "tiers_loop env ok [] = Inr []"
| "tiers_loop env ok (v # vs) =
     c_bind (tier_address env v) (\<lambda>s.
       if \<not> ok then Inl Null_Deref else c_bind (tiers_loop env ok vs) (\<lambda>ss. Inr (s # ss)))"

definition take_announce_list ::
  "bc_env \<Rightarrow> BencodeType list \<Rightarrow> c_heap \<Rightarrow> nat hash_table_t \<Rightarrow> (string option list \<times> nat hash_table_t \<times> c_heap) c_result" where
  "take_announce_list env st h dict =
     c_bind (HT_LOOKUP st dict ''announce-list'') (\<lambda>r.
       case r of
         None \<Rightarrow> Inr ([], dict, h)
       | Some b \<Rightarrow>
           c_bind (asList b) (\<lambda>vs.
             case alloc h of (ok, h1) \<Rightarrow>
               c_bind (tiers_loop env ok vs) (\<lambda>l.
               c_bind (HT_DELETE dict ''announce-list'') (\<lambda>t. Inr (l, t, h1)))))"

text \<open>
  The shared state. A failed \<open>da_init\<close> leaves \<open>values\<close> NULL, which the first connection dereferences;
  the model stops at once.
\<close>

definition init_sh :: "nat \<Rightarrow> c_heap \<Rightarrow> (sh_t \<times> c_heap) c_result" where
  "init_sh num_pieces h =
     (case alloc h of (ok, h1) \<Rightarrow>
        if \<not> ok \<and> 0 < num_pieces then Inl Null_Deref
        else case alloc h1 of (ok', h2) \<Rightarrow>
          if \<not> ok' then Inl Null_Deref
          else case da_init h2 of (conns, h3) \<Rightarrow>
            c_bind (deref conns) (\<lambda>d.
              Inr (\<lparr>sh_state = TORRENT_STATE_LEECHING, sh_peer_connections = d,
                    sh_piece_states = replicate num_pieces PIECE_STATE_NOT_REQUESTED,
                    sh_pieces_left = num_pieces, sh_completed = False\<rparr>, h3)))"

datatype fs_call = Mkdir string | Rename string string

text \<open>\<open>strcat\<close> to the local array \<open>path[512]\<close>; \<open>None\<close> is a NULL source.\<close>

definition path_cat :: "string \<Rightarrow> string option \<Rightarrow> string c_result" where
  "path_cat path s =
     c_bind (deref s) (\<lambda>str. if length (path @ str) < PATH_BUF then Inr (path @ str) else Inl Out_Of_Bounds)"

fun path_loop :: "string \<Rightarrow> string option list \<Rightarrow> (string \<times> fs_call list) c_result" where
  "path_loop path [] = Inr (path, [])"
| "path_loop path [s] = c_bind (path_cat path s) (\<lambda>path'. Inr (path', []))"
| "path_loop path (s # ss) =
     c_bind (path_cat path s) (\<lambda>dir.
     c_bind (path_cat dir (Some ''/'')) (\<lambda>path'.
     c_bind (path_loop path' ss) (\<lambda>(path'', calls). Inr (path'', Mkdir dir # calls))))"

definition multi_path :: "string option \<Rightarrow> file_info_t \<Rightarrow> (string \<times> fs_call list) c_result" where
  "multi_path name f =
     c_bind (path_cat ''./'' name) (\<lambda>p.
     c_bind (path_cat p (Some ''/'')) (\<lambda>dir.
     c_bind (path_loop dir (fi_path f)) (\<lambda>(path, calls). Inr (path, Mkdir dir # calls))))"

text \<open>\<open>os i\<close> is how the system answers the calls for the \<open>i\<close>-th file.\<close>

definition open_target ::
  "(nat \<Rightarrow> os_file) \<Rightarrow> nat \<Rightarrow> c_heap \<Rightarrow> nat \<Rightarrow> string \<Rightarrow> (dl_file_t option \<times> fs_call list \<times> c_heap) c_result" where
  "open_target os i h len path =
     c_bind (dl_file_create_and_open h (os i) len path) (\<lambda>(r, h').
       Inr (case r of None \<Rightarrow> (None, [], h') | Some (f, old, new) \<Rightarrow> (Some f, [Rename old new], h')))"

fun open_loop ::
  "(nat \<Rightarrow> os_file) \<Rightarrow> string option \<Rightarrow> bool \<Rightarrow> nat \<Rightarrow> c_heap \<Rightarrow> file_info_t list \<Rightarrow>
   (dl_file_t option list \<times> fs_call list \<times> c_heap) c_result" where
  "open_loop os name ok i h [] = Inr ([], [], h)"
| "open_loop os name ok i h (f # fs) =
     c_bind (multi_path name f) (\<lambda>(path, dirs).
     c_bind (open_target os i h (fi_length f) path) (\<lambda>(r, calls, h1).
       if \<not> ok then Inl Null_Deref
       else c_bind (open_loop os name ok (Suc i) h1 fs) (\<lambda>(rs, calls', h2).
              Inr (r # rs, dirs @ calls @ calls', h2))))"

text \<open>
  In multi-file mode \<open>files\<close> has exactly one entry per file. In single-file mode it is allocated with the
  size of a \<open>peer_connections_t\<close>, three words: the entry is followed by two NULL pointers. The entry of
  \<open>info.files\<close> has \<open>path_size\<close> 0 (its \<open>path\<close> points to a local array and is never read).
\<close>

definition open_files ::
  "(nat \<Rightarrow> os_file) \<Rightarrow> info_t \<Rightarrow> c_heap \<Rightarrow> (info_t \<times> dl_file_t option list \<times> fs_call list \<times> c_heap) c_result" where
  "open_files os info h =
     (case info_mode info of
        INFO_MULTI \<Rightarrow>
          (case alloc h of (ok, h1) \<Rightarrow>
             c_bind (open_loop os (info_name info) ok 0 h1 (info_files info)) (\<lambda>(fs, calls, h2).
               Inr (info, fs, calls, h2)))
      | INFO_SINGLE \<Rightarrow>
          c_bind (path_cat ''./'' (info_name info)) (\<lambda>path.
            case alloc h of (ok, h1) \<Rightarrow>
              if \<not> ok then Inl Null_Deref
              else case alloc h1 of (ok', h2) \<Rightarrow>
                c_bind (open_target os 0 h2 (info_length info) path) (\<lambda>(r, calls, h3).
                  if \<not> ok' then Inl Null_Deref
                  else Inr (info\<lparr>info_files := [\<lparr>fi_length = info_length info, fi_path = []\<rparr>]\<rparr>,
                            [r, None, None], calls, h3))))"

text \<open>
  From the parsed value on. The first allocation is the array of \<open>filemem_t\<close> that is replaced at once
  and never used.
\<close>

definition build_metainfo ::
  "bc_env \<Rightarrow> (nat \<Rightarrow> os_file) \<Rightarrow> BencodeType list \<Rightarrow> c_heap \<Rightarrow> BencodeType \<Rightarrow> (metainfo_t \<times> fs_call list \<times> c_heap) c_result" where
  "build_metainfo env os st h0 v =
     c_bind (asDict v) (\<lambda>dict.
     c_bind (take_announce env st dict) (\<lambda>(announce, dict1).
     c_bind (take_announce_list env st h0 dict1) (\<lambda>(announce_list, dict2, h1).
     c_bind (field st dict2 ''info'') (\<lambda>b.
     c_bind (asDict b) (\<lambda>info_dict.
     c_bind (parse_info env st h1 info_dict) (\<lambda>(info, h2).
     c_bind (mem_read (sha1_digest b) 0 SHA1_LENGTH) (\<lambda>info_hash.
     c_bind (init_sh (info_num_pieces info) (snd (alloc h2))) (\<lambda>(sh, h3).
     c_bind (open_files os info h3) (\<lambda>(info', files, calls, h4).
       Inr (\<lparr>mi_announce = announce, mi_announce_list = announce_list, mi_info = info', mi_info_hash = info_hash,
             mi_max_peers = 50, mi_sh = sh, mi_files = files\<rparr>, calls, h4))))))))))"

definition parse_file ::
  "bc_env \<Rightarrow> (nat \<Rightarrow> os_file) \<Rightarrow> c_heap \<Rightarrow> byte list option \<Rightarrow> byte list \<Rightarrow> byte \<Rightarrow> Token \<Rightarrow> Token \<Rightarrow>
   (metainfo_t \<times> fs_call list \<times> c_heap) c_result" where
  "parse_file env os h content slack ch0 pp pv =
     c_bind (parse_text env h content slack ch0 pp pv) (\<lambda>(v, p).
       build_metainfo env os (p_values p) (p_heap p) v)"

end
