(* ===== verification/Tracker_Http.thy ===== *)
theory Tracker_Http
  imports Tracker File_Parser Net_Stream
begin

text \<open>
  \<open>src/tracker/http/tracker_http.c\<close>: the announce over HTTP. The request is printed into a local array by a
  chain of \<open>snprintf\<close> calls, the response read into another one, cut into lines by \<open>strtok_r\<close> and its
  body handed to the bencode parser. \<open>escape\<close> is libcurl's \<open>curl_easy_escape\<close> (\<open>None\<close>: it returned NULL). Log
  output is not modelled.
\<close>

section \<open>The request\<close>

text \<open>
  \<open>snprintf (m + off, n, "%s", s)\<close>: at most \<open>n - 1\<close> characters and a NUL are stored, the full length is
  returned.
\<close>

definition snprintf :: "byte list \<Rightarrow> nat \<Rightarrow> nat \<Rightarrow> string \<Rightarrow> (nat \<times> byte list) c_result" where
  "snprintf m off n s =
     (if n = 0 then Inr (length s, m)
      else c_bind (mem_write m (int off) (take (n - 1) (c_lit s) @ [0])) (\<lambda>m'. Inr (length s, m')))"

text \<open>
  The repeated \<open>written += snprintf (buff + written, bufsize - written, ...)\<close>, with \<open>buff\<close> at offset \<open>base\<close>.
  Once more than \<open>bufsize\<close> characters are counted, the subtraction wraps around.
\<close>

fun print_all :: "byte list \<Rightarrow> nat \<Rightarrow> nat \<Rightarrow> nat \<Rightarrow> string list \<Rightarrow> (nat \<times> byte list) c_result" where
  "print_all m base written bufsize [] = Inr (written, m)"
| "print_all m base written bufsize (s # ss) =
     c_bind (snprintf m (base + written) (size_sub bufsize written) s) (\<lambda>(n, m').
       print_all m' base (written + n) bufsize ss)"

definition build_http_url ::
  "(byte list \<Rightarrow> string option) \<Rightarrow> tracker_request_t \<Rightarrow> byte list \<Rightarrow> nat \<Rightarrow> nat \<Rightarrow>
   (nat \<times> byte list \<times> tracker_request_t) c_result" where
  "build_http_url escape req m base bufsize =
     c_bind (deref (escape (tq_info_hash req))) (\<lambda>info_hash_escaped.
     c_bind (deref (escape (tq_peer_id req))) (\<lambda>peer_id_escaped.
     c_bind (print_all m base 0 bufsize
               [''?info_hash='', info_hash_escaped, ''&peer_id='', peer_id_escaped,
                ''&port='' @ dec_str (unat (tq_port req)), ''&uploaded='' @ dec_str (tq_uploaded req),
                ''&downloaded='' @ dec_str (tq_downloaded req), ''&left='' @ dec_str (tq_left req)]) (\<lambda>(written, m1).
       case HAS_FLAG req COMPACT of (compact, req') \<Rightarrow>
         c_bind (print_all m1 base written bufsize (if compact then [''&compact=1''] else [])) (\<lambda>(written', m2).
           Inr (written', m2, req')))))"

definition build_http_request ::
  "(byte list \<Rightarrow> string option) \<Rightarrow> url_t \<Rightarrow> tracker_request_t \<Rightarrow> byte list \<Rightarrow> nat \<Rightarrow>
   (nat \<times> byte list \<times> tracker_request_t) c_result" where
  "build_http_request escape url req m bufsize =
     c_bind (deref (url_path url)) (\<lambda>path.
     c_bind (snprintf m 0 bufsize (''GET /'' @ path)) (\<lambda>(written, m1).
     c_bind (build_http_url escape req m1 written (size_sub bufsize written)) (\<lambda>(n, m2, req').
     c_bind (print_all m2 0 (written + n) bufsize ['' HTTP/1.1'' @ [CHR 0x0D, CHR 0x0A]]) (\<lambda>(written', m3).
     c_bind (deref (url_host url)) (\<lambda>host.
     c_bind (print_all m3 0 written' bufsize [''Host: '' @ host @ [CHR 0x0D, CHR 0x0A, CHR 0x0D, CHR 0x0A]]) (\<lambda>(written'', m4).
       Inr (written'', m4, req')))))))"

section \<open>The response\<close>

text \<open>
  The body of the response is parsed as it lies in the array; \<open>content_length\<close> only becomes the lexer's
  \<open>bufsize\<close>, which it never reads. \<open>res0\<close> is what the fresh response holds: \<open>parse_content\<close> does not
  initialise the fields it finds no entry for, and with a failure reason none but that one.
\<close>

definition opt_text :: "bc_env \<Rightarrow> BencodeType list \<Rightarrow> nat hash_table_t \<Rightarrow> string \<Rightarrow> string option \<Rightarrow> string option c_result" where
  "opt_text env st dict key old =
     c_bind (HT_LOOKUP st dict key) (\<lambda>r. case r of None \<Rightarrow> Inr old | Some b \<Rightarrow> asText env b)"

definition u32_field :: "BencodeType list \<Rightarrow> nat hash_table_t \<Rightarrow> string \<Rightarrow> u32 c_result" where
  "u32_field st dict key = c_bind (field st dict key) (\<lambda>b. c_bind (asInt b) (\<lambda>i. Inr (word_of_int i)))"

definition content_peers ::
  "bc_env \<Rightarrow> BencodeType list \<Rightarrow> c_heap \<Rightarrow> nat hash_table_t \<Rightarrow> tracker_response_t \<Rightarrow> (tracker_response_t \<times> c_heap) c_result" where
  "content_peers env st h dict res =
     c_bind (HT_LOOKUP st dict ''peers'') (\<lambda>r.
       case r of
         None \<Rightarrow> Inr (res\<lparr>tr_num_peers := 0, tr_peers := []\<rparr>, h)
       | Some b \<Rightarrow>
           c_bind (asString b) (\<lambda>(len, str).
           c_bind (c_assert (len mod 6 = 0)) (\<lambda>_.
           c_bind (parse_peers h (case str of None \<Rightarrow> [] | Some s \<Rightarrow> s @ be_gap env) (len div 6)) (\<lambda>(peers, h').
             Inr (res\<lparr>tr_num_peers := len div 6, tr_peers := peers\<rparr>, h')))))"

definition content_response ::
  "bc_env \<Rightarrow> BencodeType list \<Rightarrow> c_heap \<Rightarrow> nat hash_table_t \<Rightarrow> tracker_response_t \<Rightarrow> (tracker_response_t \<times> c_heap) c_result" where
  "content_response env st h dict res0 =
     c_bind (opt_text env st dict ''tracker id'' (tr_tracker_id res0)) (\<lambda>tracker_id.
     c_bind (HT_LOOKUP st dict ''failure reason'') (\<lambda>failure_reason.
       let res1 = res0\<lparr>tr_tracker_id := tracker_id\<rparr> in
       case failure_reason of
         Some b \<Rightarrow> c_bind (asText env b) (\<lambda>s. Inr (res1\<lparr>tr_failure_reason := s\<rparr>, h))
       | None \<Rightarrow>
           c_bind (opt_text env st dict ''warning message'' (tr_warning_message res1)) (\<lambda>warning.
           c_bind (u32_field st dict ''interval'') (\<lambda>interval.
           c_bind (u32_field st dict ''complete'') (\<lambda>complete.
           c_bind (u32_field st dict ''incomplete'') (\<lambda>incomplete.
             content_peers env st h dict
               (res1\<lparr>tr_warning_message := warning, tr_interval := interval, tr_complete := complete,
                     tr_incomplete := incomplete\<rparr>)))))))"

text \<open>The lexer and the parser start zeroed, and \<open>parser_next_token\<close> is called twice. \<open>malloc\<close> is not checked.\<close>

definition parse_content ::
  "bc_env \<Rightarrow> c_heap \<Rightarrow> tracker_response_t \<Rightarrow> byte list \<Rightarrow> (tracker_response_t \<times> c_heap) c_result" where
  "parse_content env h res0 mem =
     (case alloc h of (ok, h1) \<Rightarrow>
        let l = \<lparr>lx_mem = mem, lx_eof = False, lx_pos = 0, lx_read_pos = 0, lx_ch = 0, lx_prevprev = no_token, lx_prev = no_token\<rparr>;
            p0 = \<lparr>p_l = l, p_cur_token = no_token, p_peek_token = no_token, p_errors = [], p_heap = h1, p_values = [], p_tables = 0\<rparr> in
        c_bind (parser_next_token p0) (\<lambda>p1.
        c_bind (parser_next_token p1) (\<lambda>p.
        c_bind (parse_item env (parse_fuel p) p) (\<lambda>(v, p').
        c_bind (asDict v) (\<lambda>dict.
          if \<not> ok then Inl Null_Deref
          else content_response env (p_values p') (p_heap p') dict res0)))))"

lemma strtok_r_advances:
  assumes "strtok_r buf delim off = (Some (start, tok), save)"
  shows "off < save \<and> off < length buf \<and> save \<le> length buf"
proof -
  let ?w = "takeWhile (\<lambda>c. c \<in> set delim) (drop off buf)"
  let ?t = "takeWhile (\<lambda>c. c \<notin> set delim) (drop (off + length ?w) buf)"
  have t: "?t \<noteq> []" and save: "save = (if off + length ?w + length ?t < length buf then off + length ?w + length ?t + 1 else off + length ?w + length ?t)"
    using assms by (auto simp: strtok_r_def Let_def split: if_splits)
  have "length ?t \<le> length buf - (off + length ?w)" using length_takeWhile_le [of _ "drop (off + length ?w) buf"] by simp
  moreover have "0 < length ?t" using t by blast
  ultimately have "off + length ?w + length ?t \<le> length buf" "off < off + length ?w + length ?t" by linarith+
  moreover have "a + b \<le> n \<Longrightarrow> off < a + b \<Longrightarrow> save = (if a + b < n then a + b + 1 else a + b) \<Longrightarrow> off < save \<and> off < n \<and> save \<le> n" for a b n
    by (auto split: if_splits)
  ultimately show ?thesis using save by blast
qed

definition nl :: string where "nl = [CHR 0x0A]"

text \<open>\<open>strtoul\<close> in base 10.\<close>

definition strtoul :: "string \<Rightarrow> nat" where
  "strtoul s =
     (let s' = dropWhile isspace s;
          neg = (s' \<noteq> [] \<and> hd s' = CHR ''-'');
          s'' = (if s' \<noteq> [] \<and> (hd s' = CHR ''-'' \<or> hd s' = CHR ''+'') then tl s' else s');
          v = digits_value (takeWhile isdigit (c_lit s''))
      in if 2 ^ 64 \<le> v then 2 ^ 64 - 1 else if neg then size_sub 0 v else v)"

text \<open>
  The loop over the header lines, up to one of length 1, the carriage return of the empty line. \<open>None\<close> of
  \<open>strtok_r\<close> goes to \<open>strncmp\<close>. A \<open>Content-Length\<close> line is cut at its first colon. The result is the
  content length and the offset of the body.
\<close>

function header_loop :: "string \<Rightarrow> nat \<Rightarrow> nat \<Rightarrow> (nat \<times> nat) c_result" where
  "header_loop buf save content_length =
     (case strtok_r buf nl save of
        (None, _) \<Rightarrow> Inl Null_Deref
      | (Some (start, line), save') \<Rightarrow>
          if take 15 line = ''Content-Length:'' then
            (case strtok_r line '':'' (snd (strtok_r line '':'' 0)) of
               (None, _) \<Rightarrow> Inl Null_Deref
             | (Some (_, token), _) \<Rightarrow> header_loop buf save' (strtoul token))
          else if length line = 1 then Inr (content_length, start + length line + 1)
          else header_loop buf save' content_length)"
  by pat_completeness auto
termination
  by (relation "measure (\<lambda>(buf, save, _). length buf - save)")
     (auto, metis diff_less_mono2 strtok_r_advances, metis diff_less_mono2 strtok_r_advances)

declare header_loop.simps [simp del]

text \<open>\<open>buf\<close> is the array of 2048 bytes, \<open>slack\<close> the memory readable behind it; \<open>None\<close> is the return of NULL.\<close>

definition parse_tracker_response ::
  "bc_env \<Rightarrow> c_heap \<Rightarrow> tracker_response_t \<Rightarrow> byte list \<Rightarrow> byte list \<Rightarrow> (tracker_response_t option \<times> c_heap) c_result" where
  "parse_tracker_response env h res0 buf slack =
     (let t = c_str (takeWhile (\<lambda>b. b \<noteq> 0) buf);
          save1 = snd (strtok_r t nl 0) in
      if take 15 t \<noteq> ''HTTP/1.1 200 OK'' \<and> take 15 t \<noteq> ''HTTP/1.0 200 OK'' then Inr (None, h)
      else let save2 = snd (strtok_r t nl save1) in
        c_bind (header_loop t save2 0) (\<lambda>(content_length, content).
        c_bind (parse_content env h res0 (drop content (buf @ slack))) (\<lambda>(res, h'). Inr (Some res, h'))))"

section \<open>The exchange\<close>

text \<open>
  The loop around \<open>recv\<close>. Its result is kept as a \<open>size_t\<close>: a failed call counts as \<open>2^64 - 1\<close> bytes, which
  moves \<open>total_received\<close> back by one, and the loop goes on until \<open>recv\<close> returns 0, at the end of the stream
  or when the computed room is 0.
\<close>

definition signed_off :: "nat \<Rightarrow> int" where
  "signed_off n = (if n < 2 ^ 63 then int n else int n - 2 ^ 64)"

lemma recv_shrinks: "recv sk n = (Some bs, sk') \<Longrightarrow> bs \<noteq> [] \<Longrightarrow> length (sk_in sk') < length (sk_in sk)"
  using frag_limit_bounds [of n "sk_frag sk"] by (auto simp: recv_def Let_def split: if_splits)

lemma recv_fails: "recv sk n = (None, sk') \<Longrightarrow> sk' = sk \<and> n \<noteq> 0"
  by (auto simp: recv_def Let_def split: if_splits)

lemma size_sub_down:
  assumes "size_sub 2048 t \<noteq> 0"
  shows "size_sub ((t + (2 ^ 64 - 1)) mod 2 ^ 64) 2048 < size_sub t 2048"
proof -
  define d where "d = (int t - 2048) mod 2 ^ 64"
  have d: "0 \<le> d" "d < 2 ^ 64" by (simp_all add: d_def)
  have "d \<noteq> 0"
  proof
    assume "d = 0"
    then have "(2 :: int) ^ 64 dvd int t - 2048" by (simp add: d_def dvd_eq_mod_eq_0)
    then have "(2 :: int) ^ 64 dvd 2048 - int t" by (simp add: dvd_diff_commute)
    then show False using assms by (simp add: size_sub_def)
  qed
  have "int ((t + (2 ^ 64 - 1)) mod 2 ^ 64) = (int t + (2 ^ 64 - 1)) mod 2 ^ 64" by (simp add: zmod_int)
  then have "(int ((t + (2 ^ 64 - 1)) mod 2 ^ 64) - 2048) mod 2 ^ 64 = (int t + (2 ^ 64 - 1) - 2048) mod 2 ^ 64"
    by (simp only: mod_diff_left_eq)
  also have "\<dots> = (int t - 2048 - 1 + 2 ^ 64) mod 2 ^ 64" by simp
  also have "\<dots> = (int t - 2048 - 1) mod 2 ^ 64" by (rule mod_add_self2)
  also have "\<dots> = (d - 1) mod 2 ^ 64" by (simp only: d_def mod_diff_left_eq)
  also have "\<dots> = d - 1" using d \<open>d \<noteq> 0\<close> by (intro mod_pos_pos_trivial) simp_all
  finally have "size_sub ((t + (2 ^ 64 - 1)) mod 2 ^ 64) 2048 = nat (d - 1)" by (simp add: size_sub_def)
  moreover have "size_sub t 2048 = nat d" by (simp add: size_sub_def d_def)
  ultimately show ?thesis using d \<open>d \<noteq> 0\<close> by simp
qed

function http_recv :: "sock \<Rightarrow> byte list \<Rightarrow> nat \<Rightarrow> (byte list \<times> nat \<times> sock) c_result" where
  "http_recv sk buf total_received =
     (case recv sk (size_sub 2048 total_received) of
        (None, sk') \<Rightarrow> http_recv sk' buf ((total_received + (2 ^ 64 - 1)) mod 2 ^ 64)
      | (Some bs, sk') \<Rightarrow>
          if bs = [] then Inr (buf, total_received, sk')
          else c_bind (mem_write buf (signed_off total_received) bs) (\<lambda>buf'.
                 http_recv sk' buf' ((total_received + length bs) mod 2 ^ 64)))"
  by pat_completeness auto
termination
  by (relation "measures [\<lambda>(sk, _, _). length (sk_in sk), \<lambda>(_, _, t). size_sub t 2048]")
     (auto dest!: recv_shrinks [OF sym] recv_fails [OF sym] size_sub_down [simplified])

declare http_recv.simps [simp del]

text \<open>\<open>write\<close> is called once and its result ignored; it reads \<open>req_size\<close> bytes, stored or not.\<close>

definition http_announce ::
  "bc_env \<Rightarrow> (byte list \<Rightarrow> string option) \<Rightarrow> c_heap \<Rightarrow> tracker_response_t \<Rightarrow> byte list \<Rightarrow> sock \<Rightarrow> url_t \<Rightarrow> tracker_request_t \<Rightarrow>
   (tracker_response_t option \<times> tracker_request_t \<times> sock \<times> c_heap) c_result" where
  "http_announce env escape h res0 slack sk url req =
     c_bind (build_http_request escape url req (replicate 1024 0) 1024) (\<lambda>(req_size, req_buf, req').
     c_bind (mem_read req_buf 0 req_size) (\<lambda>bytes.
       case send sk bytes of (_, sk1) \<Rightarrow>
         c_bind (http_recv sk1 (replicate 2048 0) 0) (\<lambda>(buf, total_received, sk2).
         c_bind (c_assert (total_received < 2048)) (\<lambda>_.
         c_bind (parse_tracker_response env h res0 buf slack) (\<lambda>(res, h'). Inr (res, req', sk2, h'))))))"

end
