(* ===== verification/Torrent_File.thy ===== *)
theory Torrent_File
  imports File_Parser
begin

text \<open>
  What \<open>parse_file\<close> makes of a torrent file: any result is well formed, and a file that describes a
  torrent is read as that torrent. The description is stated on the abstract values of the format
  (\<open>info_says\<close>, \<open>file_says\<close>, \<open>trackers_say\<close>); \<open>reads\<close> links a parsed table to such a map.
\<close>

section \<open>Every result is well formed\<close>

lemma split_loop_shape: "split_loop buf n = Inr out \<Longrightarrow> length out = n \<and> list_all (\<lambda>x. length x = 20) out"
  by (induction n arbitrary: out) (auto simp: c_bind_eq_Inr mem_read_def SHA1_LENGTH_def split: if_splits)

lemma split_piece_hashes_shape:
  "split_piece_hashes env h buf len = Inr (out, h') \<Longrightarrow> length out = len div 20 \<and> list_all (\<lambda>x. length x = 20) out \<and> len mod 20 = 0"
  by (auto simp: split_piece_hashes_def Let_def c_bind_eq_Inr SHA1_LENGTH_def split: if_splits prod.splits dest!: split_loop_shape)

definition info_wf :: "info_t \<Rightarrow> bool" where
  "info_wf info \<longleftrightarrow> length (info_pieces info) = info_num_pieces info \<and> list_all (\<lambda>x. length x = 20) (info_pieces info)"

lemma parse_info_shape:
  assumes "parse_info env st h dict = Inr (info, h')"
  shows "info_wf info \<and> (info_mode info = INFO_SINGLE \<longrightarrow> info_files info = []) \<and> (info_mode info = INFO_MULTI \<longrightarrow> info_length info = 0)"
  using assms
  by (auto simp: parse_info_def c_bind_eq_Inr Let_def info_wf_def SHA1_LENGTH_def option.case_eq_if prod.case_eq_if split: if_splits dest!: split_piece_hashes_shape)

lemma open_loop_shape: "open_loop os name ok i h infos = Inr (fs, calls, h') \<Longrightarrow> length fs = length infos"
  by (induction infos arbitrary: i h fs calls) (auto simp: c_bind_eq_Inr split: if_splits)

lemma open_files_shape:
  assumes "open_files os info h = Inr (info', files, calls, h')" and "info_wf info" and "info_mode info = INFO_SINGLE \<longrightarrow> info_files info = []"
  shows "info_wf info' \<and> info_num_pieces info' = info_num_pieces info \<and> info_mode info' = info_mode info \<and>
    (info_mode info = INFO_SINGLE \<longrightarrow> (\<exists>r. files = [r, None, None]) \<and> length (info_files info') = 1) \<and>
    (info_mode info = INFO_MULTI \<longrightarrow> length files = length (info_files info'))"
  using assms
  by (auto simp: open_files_def c_bind_eq_Inr info_wf_def prod.case_eq_if split: info_mode_t.splits if_splits dest!: open_loop_shape)

lemma init_sh_fresh: "init_sh n h = Inr (sh, h') \<Longrightarrow> sh_fresh n sh \<and> da_values (sh_peer_connections sh) = []"
  by (auto simp: init_sh_def sh_fresh_def da_init_def deref_def c_bind_eq_Inr split: prod.splits if_splits option.splits)

lemma mem_read_size: "mem_read m off n = Inr bs \<Longrightarrow> length bs = n"
  by (auto simp: mem_read_def split: if_splits)

lemma build_metainfo_shape:
  assumes "build_metainfo env os st h v = Inr (m, calls, h')"
  shows "info_wf (mi_info m) \<and> sh_fresh (info_num_pieces (mi_info m)) (mi_sh m) \<and> da_values (sh_peer_connections (mi_sh m)) = [] \<and>
    length (mi_info_hash m) = 20 \<and> mi_max_peers m = 50 \<and>
    (info_mode (mi_info m) = INFO_SINGLE \<longrightarrow> (\<exists>r. mi_files m = [r, None, None]) \<and> length (info_files (mi_info m)) = 1) \<and>
    (info_mode (mi_info m) = INFO_MULTI \<longrightarrow> length (mi_files m) = length (info_files (mi_info m)))"
proof -
  obtain st' h1 dict info h2 sh h3 info' files d h4 b where
    i: "parse_info env st h1 dict = Inr (info, h2)" and s: "init_sh (info_num_pieces info) (snd (alloc h2)) = Inr (sh, h3)"
    and o: "open_files os info h3 = Inr (info', files, calls, h4)" and d: "mem_read (sha1_digest b) 0 SHA1_LENGTH = Inr d"
    and m: "mi_info m = info'" "mi_sh m = sh" "mi_files m = files" "mi_info_hash m = d" "mi_max_peers m = 50"
    using assms by (auto simp: build_metainfo_def c_bind_eq_Inr)
  show ?thesis using parse_info_shape [OF i] init_sh_fresh [OF s] open_files_shape [OF o] mem_read_size [OF d] m
    by (simp add: SHA1_LENGTH_def)
qed

section \<open>Reading a represented value\<close>

text \<open>The table \<open>t\<close> holds the entries of the map \<open>m\<close>.\<close>

definition reads :: "(byte list \<Rightarrow> byte list) \<Rightarrow> BencodeType list \<Rightarrow> nat hash_table_t \<Rightarrow> (byte list \<rightharpoonup> bvalue) \<Rightarrow> bool" where
  "reads sha1 st t m \<longleftrightarrow> ht_inv t \<and> (\<forall>k. case m k of
       None \<Rightarrow> ht_map t k = None
     | Some v \<Rightarrow> \<exists>a. ht_map t k = Some a \<and> a < length st \<and> repr sha1 st (st ! a) v \<and>
         (k = info_key \<longrightarrow> sha1_digest (st ! a) = sha1 (enc v)))"

lemma repr_dict_entry:
  "repr_dict sha1 st t kvs \<Longrightarrow> (k, v) \<in> set kvs \<Longrightarrow> \<exists>a. ht_map t k = Some a \<and> a < length st \<and> repr sha1 st (st ! a) v \<and>
     (k = info_key \<longrightarrow> sha1_digest (st ! a) = sha1 (enc v))"
  by (induction kvs) auto

lemma repr_reads:
  assumes "repr sha1 st b (BDict kvs)"
  obtains t where "asDict b = Inr t" and "reads sha1 st t (map_of kvs)"
proof -
  from assms obtain t where t: "payload b = AsDict t" "ht_inv t" "dom (ht_map t) = fst ` set kvs" "repr_dict sha1 st t kvs" by auto
  have "reads sha1 st t (map_of kvs)"
    unfolding reads_def
  proof (intro conjI allI t(2))
    fix k
    show "case map_of kvs k of None \<Rightarrow> ht_map t k = None
     | Some v \<Rightarrow> \<exists>a. ht_map t k = Some a \<and> a < length st \<and> repr sha1 st (st ! a) v \<and>
         (k = info_key \<longrightarrow> sha1_digest (st ! a) = sha1 (enc v))"
    proof (cases "map_of kvs k")
      case None
      then have "k \<notin> dom (ht_map t)" using t(3) by (auto simp: map_of_eq_None_iff)
      then show ?thesis using None by (simp add: domIff)
    next
      case (Some v)
      then show ?thesis using repr_dict_entry [OF t(4) map_of_SomeD [OF Some]] by simp
    qed
  qed
  then show thesis using that t(1) by (simp add: asDict_def)
qed

lemma reads_absent: "reads sha1 st t m \<Longrightarrow> m (c_lit key) = None \<Longrightarrow> HT_LOOKUP st t key = Inr None"
  by (auto simp: reads_def HT_LOOKUP_def hash_table_lookup_map dest!: spec [of _ "c_lit key"])

lemma reads_present:
  assumes "reads sha1 st t m" and "m (c_lit key) = Some v"
  obtains b where "HT_LOOKUP st t key = Inr (Some b)" and "field st t key = Inr b" and "repr sha1 st b v"
    and "c_lit key = info_key \<Longrightarrow> sha1_digest b = sha1 (enc v)"
proof -
  from assms obtain a where "ht_inv t" "ht_map t (c_lit key) = Some a" "a < length st" "repr sha1 st (st ! a) v"
    "c_lit key = info_key \<longrightarrow> sha1_digest (st ! a) = sha1 (enc v)"
    by (auto simp: reads_def dest!: spec [of _ "c_lit key"])
  then show thesis
    by (intro that [of "st ! a"]) (auto simp: HT_LOOKUP_def field_def deref_def hash_table_lookup_map)
qed

lemma reads_delete:
  assumes "reads sha1 st t m"
  obtains t' where "HT_DELETE t key = Inr t'" and "reads sha1 st t' (m(c_lit key := None))"
proof -
  obtain t' where "hash_table_delete t (c_lit key) = Inr t'" "ht_inv t'" "ht_map t' = (ht_map t)(c_lit key := None)"
    using hash_table_delete_ok assms unfolding reads_def by blast
  moreover from this have "reads sha1 st t' (m(c_lit key := None))" using assms by (simp add: reads_def cong: option.case_cong)
  ultimately show thesis using that by (simp add: HT_DELETE_def)
qed

lemma repr_members:
  "repr sha1 st b (BInt i) \<Longrightarrow> asInt b = Inr i"
  "repr sha1 st b (BStr s) \<Longrightarrow> asString b = Inr (length s, Some s)"
  "repr sha1 st b (BList vs) \<Longrightarrow> \<exists>bs. asList b = Inr bs \<and> repr_list sha1 st bs vs"
  by (auto simp: asInt_def asString_def asList_def)

lemma asText_ok:
  assumes "repr sha1 st b (BStr s)" and "be_gap env = 0 # g" and "0 \<notin> set s"
  shows "asText env b = Inr (Some (c_str s))"
  using repr_members(2) [OF assms(1)] strlen_ok [OF assms(3)] assms(2) by (simp add: asText_def nul_string_def)

section \<open>The description of a torrent\<close>

datatype layout = Single nat | Multi "(nat \<times> byte list list) list"

text \<open>What the entries of an \<open>info\<close> dictionary and of one of its files say.\<close>

definition file_says :: "bvalue \<Rightarrow> nat \<times> byte list list \<Rightarrow> bool" where
  "file_says v f \<longleftrightarrow> (case v of
     BDict kvs \<Rightarrow> map_of kvs (c_lit ''length'') = Some (BInt (int (fst f))) \<and>
                 map_of kvs (c_lit ''path'') = Some (BList (map BStr (snd f))) \<and> fst f < 2 ^ 63 \<and> list_all (\<lambda>s. 0 \<notin> set s) (snd f)
   | _ \<Rightarrow> False)"

primrec layout_says :: "(byte list \<rightharpoonup> bvalue) \<Rightarrow> layout \<Rightarrow> bool" where
  "layout_says m (Single n) \<longleftrightarrow> m (c_lit ''length'') = Some (BInt (int n)) \<and> n < 2 ^ 63"
| "layout_says m (Multi fs) \<longleftrightarrow> m (c_lit ''length'') = None \<and>
     (case m (c_lit ''files'') of Some (BList vs) \<Rightarrow> list_all2 file_says vs fs | _ \<Rightarrow> False)"

definition info_says :: "(byte list \<rightharpoonup> bvalue) \<Rightarrow> nat \<Rightarrow> byte list list \<Rightarrow> byte list \<Rightarrow> layout \<Rightarrow> bool" where
  "info_says m piece_length hashes name l \<longleftrightarrow>
     m (c_lit ''piece length'') = Some (BInt (int piece_length)) \<and> piece_length < 2 ^ 63 \<and>
     m (c_lit ''pieces'') = Some (BStr (concat hashes)) \<and> list_all (\<lambda>x. length x = 20) hashes \<and>
     m (c_lit ''name'') = Some (BStr name) \<and> 0 \<notin> set name \<and> layout_says m l"

primrec layout_files :: "layout \<Rightarrow> file_info_t list" where
  "layout_files (Single n) = []"
| "layout_files (Multi fs) = map (\<lambda>(n, p). \<lparr>fi_length = n, fi_path = map (\<lambda>s. Some (c_str s)) p\<rparr>) fs"

definition layout_info :: "nat \<Rightarrow> byte list list \<Rightarrow> byte list \<Rightarrow> layout \<Rightarrow> info_t" where
  "layout_info piece_length hashes name l =
     \<lparr>info_mode = (case l of Single _ \<Rightarrow> INFO_SINGLE | Multi _ \<Rightarrow> INFO_MULTI), info_piece_length = piece_length,
      info_name = Some (c_str name), info_num_pieces = length hashes, info_pieces = hashes,
      info_length = (case l of Single n \<Rightarrow> n | Multi _ \<Rightarrow> 0), info_files = layout_files l\<rparr>"

lemma size_of_long_nat [simp]: "n < 2 ^ 63 \<Longrightarrow> size_of_long (int n) = n"
  by (simp add: size_of_long_def)

lemma drop_concat_20: "list_all (\<lambda>x. length x = (20 :: nat)) hs \<Longrightarrow> i \<le> length hs \<Longrightarrow> drop (20 * i) (concat hs) = concat (drop i hs)"
proof (induction hs arbitrary: i)
  case (Cons x hs)
  then show ?case by (cases i) auto
qed simp

lemma length_concat_20: "list_all (\<lambda>x. length x = (20 :: nat)) hs \<Longrightarrow> length (concat hs) = 20 * length hs"
  by (induction hs) auto

lemma split_loop_ok:
  assumes "list_all (\<lambda>x. length x = (20 :: nat)) hs"
  shows "n \<le> length hs \<Longrightarrow> split_loop (concat hs @ gap) n = Inr (take n hs)"
proof (induction n)
  case (Suc n)
  have l: "length (hs ! n) = 20" using assms Suc.prems by (simp add: list_all_length)
  have "n * 20 + 20 \<le> length (concat hs @ gap)" using Suc.prems length_concat_20 [OF assms] by simp
  then have "mem_read (concat hs @ gap) (int (n * 20)) 20 = Inr (take 20 (drop (n * 20) (concat hs @ gap)))" by (rule mem_read_ok)
  moreover have "take 20 (drop (n * 20) (concat hs @ gap)) = hs ! n"
  proof -
    have "drop (n * 20) (concat hs @ gap) = concat (drop n hs) @ gap"
      using drop_concat_20 [OF assms, of n] Suc.prems length_concat_20 [OF assms] by (simp add: mult.commute)
    moreover have "drop n hs = hs ! n # drop (Suc n) hs" using Suc.prems by (simp add: Cons_nth_drop_Suc)
    ultimately show ?thesis using l by simp
  qed
  ultimately show ?case using Suc by (simp add: SHA1_LENGTH_def take_Suc_conv_app_nth)
qed simp

lemma split_piece_hashes_ok:
  assumes "list_all (\<lambda>x. length x = (20 :: nat)) hs" and "heap_ok h"
  shows "split_piece_hashes env h (Some (concat hs)) (length (concat hs)) = Inr (hs, h)"
  using assms split_loop_ok [OF assms(1), of "length hs"] length_concat_20 [OF assms(1)]
  by (auto simp: split_piece_hashes_def SHA1_LENGTH_def deref_def)

lemma path_strings_ok:
  assumes "be_gap env = 0 # g" and "heap_ok h"
  shows "repr_list sha1 st bs (map BStr ss) \<Longrightarrow> list_all (\<lambda>s. 0 \<notin> set s) ss \<Longrightarrow>
    path_strings env True h bs = Inr (map (\<lambda>s. Some (c_str s)) ss, h)"
proof (induction ss arbitrary: bs)
  case (Cons s ss)
  then obtain b bs' where "bs = b # bs'" "repr sha1 st b (BStr s)" "repr_list sha1 st bs' (map BStr ss)" by auto
  then show ?case using Cons asText_ok [of sha1 st b s env g] assms by (simp add: deref_def)
qed (simp add: assms)

lemma c_lit_keys: "c_lit ''length'' \<noteq> c_lit ''path''" "c_lit ''announce'' \<noteq> c_lit ''info''" "c_lit ''announce-list'' \<noteq> c_lit ''info''"
  "c_lit ''announce-list'' \<noteq> c_lit ''announce''" "c_lit ''info'' = info_key"
  by (simp_all add: c_lit_def info_key_def)

lemma file_entry_ok:
  assumes env: "be_gap env = 0 # g" "heap_ok h" and r: "repr sha1 st b v" and f: "file_says v f"
  shows "file_entry env st True h b =
    Inr (\<lparr>fi_length = fst f, fi_path = map (\<lambda>s. Some (c_str s)) (snd f)\<rparr>, h)"
proof -
  obtain kvs where kvs: "v = BDict kvs" "map_of kvs (c_lit ''length'') = Some (BInt (int (fst f)))"
    "map_of kvs (c_lit ''path'') = Some (BList (map BStr (snd f)))" "fst f < 2 ^ 63" "list_all (\<lambda>s. 0 \<notin> set s) (snd f)"
    using f by (cases v) (auto simp: file_says_def)
  obtain t where t: "asDict b = Inr t" "reads sha1 st t (map_of kvs)" using repr_reads r kvs(1) by blast
  obtain l where l: "field st t ''length'' = Inr l" "repr sha1 st l (BInt (int (fst f)))"
    by (rule reads_present [OF t(2) kvs(2)])
  obtain t' where t': "HT_DELETE t ''length'' = Inr t'" "reads sha1 st t' ((map_of kvs)(c_lit ''length'' := None))"
    by (rule reads_delete [OF t(2)])
  have "((map_of kvs)(c_lit ''length'' := None)) (c_lit ''path'') = Some (BList (map BStr (snd f)))" using kvs(3) c_lit_keys(1) by simp
  then obtain p where p: "field st t' ''path'' = Inr p" "repr sha1 st p (BList (map BStr (snd f)))"
    by (rule reads_present [OF t'(2)])
  obtain bs where bs: "asList p = Inr bs" "repr_list sha1 st bs (map BStr (snd f))" using repr_members(3) [OF p(2)] by blast
  show ?thesis
    using t(1) l(1) t'(1) p(1) bs(1) repr_members(1) [OF l(2)] path_strings_ok [OF env bs(2) kvs(5)] kvs(4) env(2) by (simp add: file_entry_def)
qed

lemma files_loop_ok:
  assumes env: "be_gap env = 0 # g" "heap_ok h"
  shows "list_all2 file_says vs fs \<Longrightarrow> repr_list sha1 st bs vs \<Longrightarrow>
    files_loop env st True h bs = Inr (layout_files (Multi fs), h)"
proof (induction vs fs arbitrary: bs rule: list_all2_induct)
  case (Cons v vs f fs)
  then obtain b bs' where b: "bs = b # bs'" "repr sha1 st b v" "repr_list sha1 st bs' vs" by auto
  show ?case using file_entry_ok [OF env b(2) Cons(1)] Cons(3) [OF b(3)] b(1) by (simp add: case_prod_beta)
qed (simp add: env)

lemma parse_info_ok:
  assumes env: "be_gap env = 0 # g" "heap_ok h" and t: "reads sha1 st t m" and i: "info_says m pl hs name l"
  shows "parse_info env st h t = Inr (layout_info pl hs name l, h)"
proof -
  note i = i [unfolded info_says_def]
  obtain b1 where b1: "field st t ''piece length'' = Inr b1" "repr sha1 st b1 (BInt (int pl))"
    by (rule reads_present [OF t, of "''piece length''"]) (use i in blast)+
  obtain b2 where b2: "field st t ''pieces'' = Inr b2" "repr sha1 st b2 (BStr (concat hs))"
    by (rule reads_present [OF t, of "''pieces''"]) (use i in blast)+
  obtain b3 where b3: "field st t ''name'' = Inr b3" "repr sha1 st b3 (BStr name)"
    by (rule reads_present [OF t, of "''name''"]) (use i in blast)+
  have len: "length (concat hs) div SHA1_LENGTH = length hs" using length_concat_20 [of hs] i by (simp add: SHA1_LENGTH_def)
  have head: "asInt b1 = Inr (int pl)" "asString b2 = Inr (length (concat hs), Some (concat hs))" "asText env b3 = Inr (Some (c_str name))"
    "split_piece_hashes env h (Some (concat hs)) (length (concat hs)) = Inr (hs, h)"
    using repr_members(1) [OF b1(2)] repr_members(2) [OF b2(2)] asText_ok [OF b3(2) env(1)] split_piece_hashes_ok [OF _ env(2)] i by blast+
  show ?thesis
  proof (cases l)
    case (Single n)
    then have n: "m (c_lit ''length'') = Some (BInt (int n))" "n < 2 ^ 63" using i by simp_all
    obtain b4 where b4: "HT_LOOKUP st t ''length'' = Inr (Some b4)" "repr sha1 st b4 (BInt (int n))"
      by (rule reads_present [OF t n(1)])
    show ?thesis
      using b1(1) b2(1) b3(1) head len b4(1) repr_members(1) [OF b4(2)] n(2) i Single
      by (simp add: parse_info_def layout_info_def)
  next
    case (Multi fs)
    then have n: "m (c_lit ''length'') = None" using i by simp
    have "layout_says m (Multi fs)" using i Multi by simp
    then obtain vs where vs: "m (c_lit ''files'') = Some (BList vs)" "list_all2 file_says vs fs" 
      by (auto split: option.splits bvalue.splits)
    obtain b5 where b5: "field st t ''files'' = Inr b5" "repr sha1 st b5 (BList vs)"
      by (rule reads_present [OF t vs(1)])
    obtain bs where bs: "asList b5 = Inr bs" "repr_list sha1 st bs vs" using repr_members(3) [OF b5(2)] by blast
    show ?thesis
      using b1(1) b2(1) b3(1) head len reads_absent [OF t n] b5(1) bs(1) files_loop_ok [OF env vs(2) bs(2)] i Multi env(2)
      by (simp add: parse_info_def layout_info_def)
  qed
qed

section \<open>Names and files\<close>

fun join_path :: "string list \<Rightarrow> string" where
  "join_path [] = []"
| "join_path [s] = s"
| "join_path (s # ss) = s @ ''/'' @ join_path ss"

fun path_dirs :: "string \<Rightarrow> string list \<Rightarrow> fs_call list" where
  "path_dirs path (s # s' # ss) = Mkdir (path @ s) # path_dirs (path @ s @ ''/'') (s' # ss)"
| "path_dirs path ss = []"

primrec layout_paths :: "string \<Rightarrow> layout \<Rightarrow> string list" where
  "layout_paths name (Single n) = [''./'' @ name]"
| "layout_paths name (Multi fs) = map (\<lambda>(n, p). ''./'' @ name @ ''/'' @ join_path (map c_str p)) fs"

primrec layout_sizes :: "layout \<Rightarrow> nat list" where
  "layout_sizes (Single n) = [n]"
| "layout_sizes (Multi fs) = map fst fs"

text \<open>Before a file is created every directory of its path is, from the outermost on.\<close>

primrec layout_calls :: "string \<Rightarrow> layout \<Rightarrow> fs_call list" where
  "layout_calls name (Single n) = [Rename (''./'' @ name) (''./'' @ name @ ''.incomplete'')]"
| "layout_calls name (Multi fs) = concat (map (\<lambda>(n, p).
     Mkdir (''./'' @ name @ ''/'') # path_dirs (''./'' @ name @ ''/'') (map c_str p) @
     [Rename (''./'' @ name @ ''/'' @ join_path (map c_str p)) (''./'' @ name @ ''/'' @ join_path (map c_str p) @ ''.incomplete'')]) fs)"

definition os_fine :: "(nat \<Rightarrow> os_file) \<Rightarrow> bool" where
  "os_fine os \<longleftrightarrow> (\<forall>i. of_open (os i) \<and> of_truncate (os i) \<and> of_map (os i))"

lemma path_cat_ok: "length (path @ s) < 512 \<Longrightarrow> path_cat path (Some s) = Inr (path @ s)"
  by (simp add: path_cat_def deref_def PATH_BUF_def)

lemma path_loop_ok:
  "length (path @ join_path ss) < 512 \<Longrightarrow> path_loop path (map Some ss) = Inr (path @ join_path ss, path_dirs path ss)"
proof (induction path ss rule: path_dirs.induct)
  case (1 path s s' ss)
  then show ?case using path_cat_ok [of path s] path_cat_ok [of "path @ s" "''/''"] by simp
qed (simp_all add: path_cat_ok)

lemma open_target_ok:
  assumes "os_fine os" and "heap_ok h" and "length path + 12 \<le> 512"
  obtains f where "open_target os i h n path = Inr (Some f, [Rename path (path @ ''.incomplete'')], h)"
    and "df_size f = n" and "length (df_data f) = n" and "df_path f = path @ ''.incomplete''"
proof
  let ?f = "\<lparr>df_size = n, df_data = take n (of_old (os i) @ replicate n 0), df_path = path @ ''.incomplete''\<rparr>"
  show "open_target os i h n path = Inr (Some ?f, [Rename path (path @ ''.incomplete'')], h)"
    using assms by (simp add: open_target_def dl_file_create_and_open_def Let_def incomplete_suffix_def PATH_BUF_def os_fine_def)
qed (simp_all add: min_def)

definition files_match :: "string list \<Rightarrow> nat list \<Rightarrow> dl_file_t list \<Rightarrow> bool" where
  "files_match paths sizes fs \<longleftrightarrow> map df_size fs = sizes \<and> map df_path fs = map (\<lambda>p. p @ ''.incomplete'') paths \<and> files_wf fs"

lemma open_loop_ok:
  assumes "os_fine os" and "heap_ok h"
  shows "\<forall>p \<in> set (layout_paths name (Multi fs)). length p + 12 \<le> 512 \<Longrightarrow>
    \<exists>dl. open_loop os (Some name) True i h (layout_files (Multi fs)) = Inr (map Some dl, layout_calls name (Multi fs), h) \<and>
      files_match (layout_paths name (Multi fs)) (layout_sizes (Multi fs)) dl"
proof (induction fs arbitrary: i)
  case Nil
  then show ?case by (simp add: files_match_def files_wf_def)
next
  case (Cons f fs)
  obtain n p where f: "f = (n, p)" by (cases f)
  let ?dir = "''./'' @ name @ ''/''" and ?ss = "map c_str p"
  have len: "length (?dir @ join_path ?ss) + 12 \<le> 512" using Cons.prems f by simp
  have cats: "path_cat ''./'' (Some name) = Inr (''./'' @ name)" "path_cat (''./'' @ name) (Some ''/'') = Inr ?dir"
    using len by (simp_all add: path_cat_ok)
  have "path_loop ?dir (map Some ?ss) = Inr (?dir @ join_path ?ss, path_dirs ?dir ?ss)" using len by (intro path_loop_ok) simp
  then have path: "multi_path (Some name) \<lparr>fi_length = n, fi_path = map (\<lambda>s. Some (c_str s)) p\<rparr> =
      Inr (?dir @ join_path ?ss, Mkdir ?dir # path_dirs ?dir ?ss)"
    using cats by (simp add: multi_path_def comp_def)
  obtain dl where dl: "open_loop os (Some name) True (Suc i) h (layout_files (Multi fs)) = Inr (map Some dl, layout_calls name (Multi fs), h)"
    "files_match (layout_paths name (Multi fs)) (layout_sizes (Multi fs)) dl"
    using Cons.IH [of "Suc i"] Cons.prems by auto
  obtain g where g: "open_target os i h n (?dir @ join_path ?ss) = Inr (Some g, [Rename (?dir @ join_path ?ss) ((?dir @ join_path ?ss) @ ''.incomplete'')], h)"
    "df_size g = n" "length (df_data g) = n" "df_path g = (?dir @ join_path ?ss) @ ''.incomplete''"
    by (rule open_target_ok [OF assms len])
  have "open_loop os (Some name) True i h (layout_files (Multi (f # fs))) = Inr (map Some (g # dl), layout_calls name (Multi (f # fs)), h)"
    using path g(1) dl(1) f by simp
  moreover have "files_match (layout_paths name (Multi (f # fs))) (layout_sizes (Multi (f # fs))) (g # dl)"
    using dl(2) g(2-4) f by (simp add: files_match_def files_wf_def)
  ultimately show ?case by blast
qed

primrec layout_end :: "layout \<Rightarrow> dl_file_t option list" where
  "layout_end (Single n) = [None, None]"
| "layout_end (Multi fs) = []"

definition torrent_info :: "nat \<Rightarrow> byte list list \<Rightarrow> byte list \<Rightarrow> layout \<Rightarrow> info_t" where
  "torrent_info pl hs name l = (case l of
     Single n \<Rightarrow> layout_info pl hs name l\<lparr>info_files := [\<lparr>fi_length = n, fi_path = []\<rparr>]\<rparr>
   | Multi fs \<Rightarrow> layout_info pl hs name l)"

lemma open_files_ok:
  assumes "os_fine os" and "heap_ok h" and "\<forall>p \<in> set (layout_paths (c_str name) l). length p + 12 \<le> 512"
  shows "\<exists>dl. open_files os (layout_info pl hs name l) h =
      Inr (torrent_info pl hs name l, map Some dl @ layout_end l, layout_calls (c_str name) l, h) \<and>
    files_match (layout_paths (c_str name) l) (layout_sizes l) dl"
proof (cases l)
  case (Single n)
  have len: "length (''./'' @ c_str name) + 12 \<le> 512" using assms(3) Single by simp
  obtain f where f: "open_target os 0 h n (''./'' @ c_str name) =
      Inr (Some f, [Rename (''./'' @ c_str name) ((''./'' @ c_str name) @ ''.incomplete'')], h)"
    "df_size f = n" "length (df_data f) = n" "df_path f = (''./'' @ c_str name) @ ''.incomplete''"
    by (rule open_target_ok [OF assms(1,2) len])
  have "path_cat ''./'' (Some (c_str name)) = Inr (''./'' @ c_str name)" using len by (intro path_cat_ok) simp
  then show ?thesis
    using f Single assms(2)
    by (intro exI [of _ "[f]"]) (simp add: open_files_def torrent_info_def layout_info_def files_match_def files_wf_def)
next
  case (Multi fs)
  have "\<forall>p \<in> set (layout_paths (c_str name) (Multi fs)). length p + 12 \<le> 512" using assms(3) Multi by simp
  then obtain dl where dl: "open_loop os (Some (c_str name)) True 0 h (layout_files (Multi fs)) =
      Inr (map Some dl, layout_calls (c_str name) (Multi fs), h)" "files_match (layout_paths (c_str name) (Multi fs)) (layout_sizes (Multi fs)) dl"
    using open_loop_ok [OF assms(1,2)] by blast
  show ?thesis
    using dl Multi assms(2) by (intro exI [of _ dl]) (simp add: open_files_def torrent_info_def layout_info_def)
qed

text \<open>The addresses of the trackers: \<open>announce\<close>, and the tiers of \<open>announce-list\<close>.\<close>

definition trackers_say :: "(byte list \<rightharpoonup> bvalue) \<Rightarrow> byte list option \<Rightarrow> byte list list list option \<Rightarrow> bool" where
  "trackers_say m a ts \<longleftrightarrow> m (c_lit ''announce'') = map_option BStr a \<and> (\<forall>s \<in> set_option a. 0 \<notin> set s) \<and>
     m (c_lit ''announce-list'') = map_option (\<lambda>t. BList (map (\<lambda>ss. BList (map BStr ss)) t)) ts \<and>
     (\<forall>t \<in> set_option ts. \<forall>ss \<in> set t. \<forall>s \<in> set ss. 0 \<notin> set s)"

primrec first_address :: "byte list list \<Rightarrow> string option" where
  "first_address [] = None"
| "first_address (s # ss) = Some (c_str s)"

lemma take_announce_ok:
  assumes "reads sha1 st t m" and "be_gap env = 0 # g" and "m (c_lit ''announce'') = map_option BStr a" and "\<forall>s \<in> set_option a. 0 \<notin> set s"
  shows "\<exists>t'. take_announce env st t = Inr (map_option c_str a, t') \<and> reads sha1 st t' (m(c_lit ''announce'' := None))"
proof (cases a)
  case None
  then have "m (c_lit ''announce'') = None" using assms(3) by simp
  from reads_absent [OF assms(1) this] this show ?thesis using None assms(1) by (simp add: take_announce_def fun_upd_idem)
next
  case (Some s)
  then have "m (c_lit ''announce'') = Some (BStr s)" using assms(3) by simp
  then obtain b where b: "HT_LOOKUP st t ''announce'' = Inr (Some b)" "repr sha1 st b (BStr s)" by (rule reads_present [OF assms(1)])
  obtain t' where t': "HT_DELETE t ''announce'' = Inr t'" "reads sha1 st t' (m(c_lit ''announce'' := None))" by (rule reads_delete [OF assms(1)])
  have "asText env b = Inr (Some (c_str s))" using assms(4) Some by (intro asText_ok [OF b(2) assms(2)]) simp
  then show ?thesis using b(1) t' Some by (simp add: take_announce_def)
qed

lemma tiers_loop_ok:
  assumes "be_gap env = 0 # g"
  shows "repr_list sha1 st bs (map (\<lambda>ss. BList (map BStr ss)) t) \<Longrightarrow> \<forall>ss \<in> set t. \<forall>s \<in> set ss. 0 \<notin> set s \<Longrightarrow>
    tiers_loop env True bs = Inr (map first_address t)"
proof (induction t arbitrary: bs)
  case (Cons ss t)
  then obtain b bs' where b: "bs = b # bs'" "repr sha1 st b (BList (map BStr ss))" "repr_list sha1 st bs' (map (\<lambda>ss. BList (map BStr ss)) t)" by auto
  obtain us where us: "asList b = Inr us" "repr_list sha1 st us (map BStr ss)" using repr_members(3) [OF b(2)] by blast
  have "tier_address env b = Inr (first_address ss)"
  proof (cases ss)
    case Nil
    then show ?thesis using us by (simp add: tier_address_def)
  next
    case (Cons s ss')
    then obtain u us' where "us = u # us'" "repr sha1 st u (BStr s)" using us(2) by auto
    then show ?thesis using us(1) Cons \<open>\<forall>x \<in> set (ss # t). \<forall>s \<in> set x. 0 \<notin> set s\<close> asText_ok [OF _ assms] by (simp add: tier_address_def)
  qed
  then show ?case using Cons.IH [OF b(3)] Cons.prems(2) b(1) by simp
qed simp

lemma take_announce_list_ok:
  assumes r: "reads sha1 st t m" and env: "be_gap env = 0 # g" "heap_ok h"
    and m: "m (c_lit ''announce-list'') = map_option (\<lambda>t. BList (map (\<lambda>ss. BList (map BStr ss)) t)) ts"
    and nul: "\<forall>t \<in> set_option ts. \<forall>ss \<in> set t. \<forall>s \<in> set ss. 0 \<notin> set s"
  shows "\<exists>t'. take_announce_list env st h t = Inr (case ts of None \<Rightarrow> [] | Some t \<Rightarrow> map first_address t, t', h) \<and>
    reads sha1 st t' (m(c_lit ''announce-list'' := None))"
proof (cases ts)
  case None
  then have "m (c_lit ''announce-list'') = None" using m by simp
  from reads_absent [OF r this] this show ?thesis using None r by (simp add: take_announce_list_def fun_upd_idem)
next
  case (Some tiers)
  then have "m (c_lit ''announce-list'') = Some (BList (map (\<lambda>ss. BList (map BStr ss)) tiers))" using m by simp
  then obtain b where b: "HT_LOOKUP st t ''announce-list'' = Inr (Some b)" "repr sha1 st b (BList (map (\<lambda>ss. BList (map BStr ss)) tiers))"
    by (rule reads_present [OF r])
  obtain bs where bs: "asList b = Inr bs" "repr_list sha1 st bs (map (\<lambda>ss. BList (map BStr ss)) tiers)" using repr_members(3) [OF b(2)] by blast
  obtain t' where t': "HT_DELETE t ''announce-list'' = Inr t'" "reads sha1 st t' (m(c_lit ''announce-list'' := None))" by (rule reads_delete [OF r])
  have "tiers_loop env True bs = Inr (map first_address tiers)" using nul Some by (intro tiers_loop_ok [OF env(1) bs(2)]) simp
  then show ?thesis using b(1) bs(1) t' Some env(2) by (simp add: take_announce_list_def)
qed

lemma init_sh_ok: "heap_ok h \<Longrightarrow> \<exists>sh. init_sh n h = Inr (sh, h) \<and> sh_fresh n sh"
  by (simp add: init_sh_def deref_def sh_fresh_def)

lemma build_metainfo_ok:
  assumes env: "be_gap env = 0 # g" "heap_ok h" "\<forall>bs. length (be_sha1 env bs) = 20" and r: "repr (be_sha1 env) st b (BDict kvs)"
    and tr: "trackers_say (map_of kvs) a ts" and info: "map_of kvs (c_lit ''info'') = Some (BDict ikvs)" "info_says (map_of ikvs) pl hs name l"
    and os: "os_fine os" "\<forall>p \<in> set (layout_paths (c_str name) l). length p + 12 \<le> 512"
  shows "\<exists>m dl. build_metainfo env os st h b = Inr (m, layout_calls (c_str name) l, h) \<and> mi_announce m = map_option c_str a \<and>
    mi_announce_list m = (case ts of None \<Rightarrow> [] | Some t \<Rightarrow> map first_address t) \<and> mi_info m = torrent_info pl hs name l \<and>
    mi_info_hash m = be_sha1 env (enc (BDict ikvs)) \<and> sh_fresh (length hs) (mi_sh m) \<and>
    mi_files m = map Some dl @ layout_end l \<and> files_match (layout_paths (c_str name) l) (layout_sizes l) dl"
proof -
  let ?A = "c_lit ''announce''" and ?L = "c_lit ''announce-list''" and ?I = "c_lit ''info''"
  obtain t where t: "asDict b = Inr t" "reads (be_sha1 env) st t (map_of kvs)" by (rule repr_reads [OF r])
  obtain t1 where t1: "take_announce env st t = Inr (map_option c_str a, t1)" "reads (be_sha1 env) st t1 ((map_of kvs)(?A := None))"
    using take_announce_ok [OF t(2) env(1)] tr unfolding trackers_say_def by blast
  have "((map_of kvs)(?A := None)) ?L = map_option (\<lambda>t. BList (map (\<lambda>ss. BList (map BStr ss)) t)) ts"
    using tr c_lit_keys(4) by (simp add: trackers_say_def)
  then obtain t2 where t2: "take_announce_list env st h t1 = Inr (case ts of None \<Rightarrow> [] | Some t \<Rightarrow> map first_address t, t2, h)"
    "reads (be_sha1 env) st t2 ((map_of kvs)(?A := None, ?L := None))"
    using take_announce_list_ok [OF t1(2) env(1,2)] tr unfolding trackers_say_def by blast
  have "((map_of kvs)(?A := None, ?L := None)) ?I = Some (BDict ikvs)" using info(1) c_lit_keys(2,3) by simp
  then obtain d where d: "field st t2 ''info'' = Inr d" "repr (be_sha1 env) st d (BDict ikvs)" "sha1_digest d = be_sha1 env (enc (BDict ikvs))"
    by (rule reads_present [OF t2(2)]) (use c_lit_keys(5) in blast)
  obtain di where di: "asDict d = Inr di" "reads (be_sha1 env) st di (map_of ikvs)" by (rule repr_reads [OF d(2)])
  have pi: "parse_info env st h di = Inr (layout_info pl hs name l, h)" by (rule parse_info_ok [OF env(1,2) di(2) info(2)])
  have hash: "mem_read (sha1_digest d) 0 SHA1_LENGTH = Inr (be_sha1 env (enc (BDict ikvs)))"
    using mem_read_0_all [of "sha1_digest d"] env(3) d(3) by (simp add: SHA1_LENGTH_def)
  obtain sh where sh: "init_sh (length hs) h = Inr (sh, h)" "sh_fresh (length hs) sh" using init_sh_ok [OF env(2)] by blast
  obtain dl where dl: "open_files os (layout_info pl hs name l) h = Inr (torrent_info pl hs name l, map Some dl @ layout_end l, layout_calls (c_str name) l, h)"
    "files_match (layout_paths (c_str name) l) (layout_sizes l) dl" using open_files_ok [OF os(1) env(2) os(2)] by blast
  have n: "info_num_pieces (layout_info pl hs name l) = length hs" by (simp add: layout_info_def)
  show ?thesis
    using t(1) t1(1) t2(1) d(1) di(1) pi hash sh dl env(2) n
    by (intro exI [of _ "\<lparr>mi_announce = map_option c_str a, mi_announce_list = (case ts of None \<Rightarrow> [] | Some t \<Rightarrow> map first_address t),
        mi_info = torrent_info pl hs name l, mi_info_hash = be_sha1 env (enc (BDict ikvs)), mi_max_peers = 50, mi_sh = sh,
        mi_files = map Some dl @ layout_end l\<rparr>"] exI [of _ dl]) (simp add: build_metainfo_def)
qed

lemma parse_file_ok:
  assumes "good (BDict kvs)" and "trackers_say (map_of kvs) a ts" and "map_of kvs (c_lit ''info'') = Some (BDict ikvs)"
    and "info_says (map_of ikvs) pl hs name l"
    and "os_fine os" and "\<forall>p \<in> set (layout_paths (c_str name) l). length p + 12 \<le> 512"
    and "heap_ok h" and "be_gap env = 0 # g" and "\<forall>bs. length (be_sha1 env bs) = 20" and "slack = 0 # r"
    and "tk_type pv \<notin> {COLON, INT_START, STRING_SIZE}" and "tk_type pp \<noteq> STRING_SIZE"
  shows "\<exists>m dl. parse_file env os h (Some (enc (BDict kvs))) slack ch0 pp pv = Inr (m, layout_calls (c_str name) l, h) \<and>
    mi_announce m = map_option c_str a \<and> mi_announce_list m = (case ts of None \<Rightarrow> [] | Some t \<Rightarrow> map first_address t) \<and>
    mi_info m = torrent_info pl hs name l \<and> mi_info_hash m = be_sha1 env (enc (BDict ikvs)) \<and> sh_fresh (length hs) (mi_sh m) \<and>
    mi_files m = map Some dl @ layout_end l \<and> files_match (layout_paths (c_str name) l) (layout_sizes l) dl"
proof -
  have calm: "calm env h" using assms(7-9) by (auto simp: calm_def)
  obtain b p where b: "parse_text env h (Some (enc (BDict kvs))) slack ch0 pp pv = Inr (b, p)"
    "repr (be_sha1 env) (p_values p) b (BDict kvs)" "p_heap p = h"
    using parse_text_ok [OF assms(1) calm assms(10-12)] by blast
  from build_metainfo_ok [OF assms(8,7,9) b(2) assms(2-6)] show ?thesis using b(1,3) by (simp add: parse_file_def)
qed

lemma parse_file_shape:
  assumes "parse_file env os h content slack ch0 pp pv = Inr (m, calls, h')"
  shows "info_wf (mi_info m) \<and> sh_fresh (info_num_pieces (mi_info m)) (mi_sh m) \<and> da_values (sh_peer_connections (mi_sh m)) = [] \<and>
    length (mi_info_hash m) = 20 \<and>
    (info_mode (mi_info m) = INFO_SINGLE \<longrightarrow> (\<exists>r. mi_files m = [r, None, None]) \<and> length (info_files (mi_info m)) = 1) \<and>
    (info_mode (mi_info m) = INFO_MULTI \<longrightarrow> length (mi_files m) = length (info_files (mi_info m)))"
proof -
  have "\<exists>v (p :: Parser). build_metainfo env os (p_values p) (p_heap p) v = Inr (m, calls, h')"
    using assms by (auto simp: parse_file_def c_bind_eq_Inr)
  then obtain v and p :: Parser where "build_metainfo env os (p_values p) (p_heap p) v = Inr (m, calls, h')" by blast
  from build_metainfo_shape [OF this] show ?thesis by blast
qed

section \<open>Properties\<close>

text \<open>
  C26. Whatever the file contains, a torrent that \<open>parse_file\<close> returns is well formed: as many digests of 20
  bytes as pieces, a fresh shared state for that number of pieces, an info hash of 20 bytes, no connection;
  the array of files ends in two NULL entries for a single file and has no NULL at its end for several.
\<close>
theorem parse_file_wf:
  assumes "parse_file env os h content slack ch0 pp pv = Inr (m, calls, h')"
  shows "info_wf (mi_info m) \<and> sh_fresh (info_num_pieces (mi_info m)) (mi_sh m) \<and> da_values (sh_peer_connections (mi_sh m)) = [] \<and>
    length (mi_info_hash m) = 20 \<and>
    (info_mode (mi_info m) = INFO_SINGLE \<longrightarrow> (\<exists>r. mi_files m = [r, None, None]) \<and> length (info_files (mi_info m)) = 1) \<and>
    (info_mode (mi_info m) = INFO_MULTI \<longrightarrow> length (mi_files m) = length (info_files (mi_info m)))"
  by (rule parse_file_shape [OF assms])

text \<open>
  C8. Reading a torrent file. From the text of a dictionary whose entries describe the trackers and, under
  \<open>info\<close>, the pieces and one file or several, \<open>parse_file\<close> makes exactly that torrent: addresses, name,
  piece length, digests and files, the SHA-1 of the \<open>info\<close> entry as info hash, a fresh shared state, and the
  files of the right sizes, opened under their temporary names after their directories were made.
\<close>
theorem parse_file_reads:
  assumes "good (BDict kvs)" and "trackers_say (map_of kvs) a ts" and "map_of kvs (c_lit ''info'') = Some (BDict ikvs)"
    and "info_says (map_of ikvs) pl hs name l"
    and "os_fine os" and "\<forall>p \<in> set (layout_paths (c_str name) l). length p + 12 \<le> 512"
    and "heap_ok h" and "be_gap env = 0 # g" and "\<forall>bs. length (be_sha1 env bs) = 20" and "slack = 0 # r"
    and "tk_type pv \<notin> {COLON, INT_START, STRING_SIZE}" and "tk_type pp \<noteq> STRING_SIZE"
  shows "\<exists>m dl. parse_file env os h (Some (enc (BDict kvs))) slack ch0 pp pv = Inr (m, layout_calls (c_str name) l, h) \<and>
    mi_announce m = map_option c_str a \<and> mi_announce_list m = (case ts of None \<Rightarrow> [] | Some t \<Rightarrow> map first_address t) \<and>
    mi_info m = torrent_info pl hs name l \<and> mi_info_hash m = be_sha1 env (enc (BDict ikvs)) \<and> sh_fresh (length hs) (mi_sh m) \<and>
    mi_files m = map Some dl @ layout_end l \<and> files_match (layout_paths (c_str name) l) (layout_sizes l) dl"
  by (rule parse_file_ok [OF assms])

section \<open>Examples\<close>

definition sample_info_kvs :: "(byte list \<times> bvalue) list" where
  "sample_info_kvs = [(c_lit ''length'', BInt 3), (c_lit ''name'', BStr (c_lit ''f'')),
     (c_lit ''piece length'', BInt 16384), (c_lit ''pieces'', BStr (replicate 20 65))]"

definition sample_file_kvs :: "(byte list \<times> bvalue) list" where
  "sample_file_kvs = [(c_lit ''announce'', BStr (c_lit ''http://a.b/c'')), (c_lit ''info'', BDict sample_info_kvs)]"

definition sample_os :: "nat \<Rightarrow> os_file" where
  "sample_os i = \<lparr>of_open = True, of_truncate = True, of_map = True, of_old = []\<rparr>"

lemma sample_file_good: "good (BDict sample_file_kvs)"
proof -
  have "20 \<le> length (enc (BDict sample_info_kvs))" by (simp add: sample_info_kvs_def dec.simps c_lit_def)
  then have "20 \<le> length (enc (BDict sample_info_kvs))" and i: "good (BDict sample_info_kvs)"
    by (simp_all add: sample_info_kvs_def good_str_def c_lit_def info_key_def)
  then show ?thesis by (simp add: sample_file_kvs_def good_str_def c_lit_def info_key_def)
qed

lemma sample_file_says:
  "trackers_say (map_of sample_file_kvs) (Some (c_lit ''http://a.b/c'')) None"
  "map_of sample_file_kvs (c_lit ''info'') = Some (BDict sample_info_kvs)"
  "info_says (map_of sample_info_kvs) 16384 [replicate 20 65] (c_lit ''f'') (Single 3)"
  "os_fine sample_os" "\<forall>p \<in> set (layout_paths (c_str (c_lit ''f'')) (Single 3)). length p + 12 \<le> 512"
  by (simp_all add: sample_file_kvs_def sample_info_kvs_def trackers_say_def info_says_def c_lit_def os_fine_def sample_os_def c_str_def)

theorem parse_file_reads_witness:
  "\<exists>m f. parse_file sample_bc_env sample_os calm_heap (Some (enc (BDict sample_file_kvs))) [0] 0 no_token no_token =
      Inr (m, [Rename ''./f'' ''./f.incomplete''], calm_heap) \<and>
    mi_announce m = Some ''http://a.b/c'' \<and> mi_files m = [Some f, None, None] \<and> df_size f = 3 \<and> df_path f = ''./f.incomplete''"
proof -
  have t: "tk_type no_token \<notin> {COLON, INT_START, STRING_SIZE}" "tk_type no_token \<noteq> STRING_SIZE" by (simp_all add: no_token_def)
  from parse_file_reads [OF sample_file_good sample_file_says heap_ok_calm_heap sample_bc_env_ok refl t, of "[]" 0]
  show ?thesis by (auto simp: files_match_def)
qed

theorem parse_file_wf_witness:
  "\<exists>m calls h. parse_file sample_bc_env sample_os calm_heap (Some (enc (BDict sample_file_kvs))) [0] 0 no_token no_token = Inr (m, calls, h) \<and>
    sh_fresh (info_num_pieces (mi_info m)) (mi_sh m) \<and> (\<exists>r. mi_files m = [r, None, None] \<or> info_mode (mi_info m) = INFO_MULTI)"
proof -
  have t: "tk_type no_token \<notin> {COLON, INT_START, STRING_SIZE}" "tk_type no_token \<noteq> STRING_SIZE" by (simp_all add: no_token_def)
  have calm: "calm sample_bc_env calm_heap" using sample_bc_env_ok by (auto simp: calm_def)
  obtain b p where b: "parse_text sample_bc_env calm_heap (Some (enc (BDict sample_file_kvs))) [0] 0 no_token no_token = Inr (b, p)"
    "repr (be_sha1 sample_bc_env) (p_values p) b (BDict sample_file_kvs)" "p_heap p = calm_heap"
    using parse_text_ok [OF sample_file_good calm refl t] by blast
  obtain m calls where m: "parse_file sample_bc_env sample_os calm_heap (Some (enc (BDict sample_file_kvs))) [0] 0 no_token no_token = Inr (m, calls, calm_heap)"
    using build_metainfo_ok [OF sample_bc_env_ok(1) heap_ok_calm_heap sample_bc_env_ok(2) b(2) sample_file_says] b(1,3) by (auto simp: parse_file_def)
  from parse_file_wf [OF m] show ?thesis using m by (cases "info_mode (mi_info m)") auto
qed

end
