(* ===== verification/Http_Announce.thy ===== *)
theory Http_Announce
  imports Tracker_Http Torrent_File
begin

text \<open>
  What an announce over HTTP sends and how it reads the answer, from the printed request over the received
  bytes and the header lines to the entries of the response; and what it does with broken connections and
  refused requests.
\<close>

section \<open>The request\<close>

text \<open>\<open>s\<close> was printed at \<open>off\<close>.\<close>

definition printed :: "byte list \<Rightarrow> nat \<Rightarrow> string \<Rightarrow> byte list \<Rightarrow> bool" where
  "printed m off s m' \<longleftrightarrow> length m' = length m \<and> take (off + length s) m' = take off m @ c_lit s"

lemma printed_append: "printed m off s m1 \<Longrightarrow> printed m1 (off + length s) t m2 \<Longrightarrow> printed m off (s @ t) m2"
  by (simp add: printed_def add.assoc)

lemma printed_nil [simp]: "printed m off [] m"
  by (simp add: printed_def)

lemma snprintf_ok:
  assumes "length s < n" and "off + length s < length m"
  shows "\<exists>m'. snprintf m off n s = Inr (length s, m') \<and> printed m off s m'"
proof -
  have "take (n - 1) (c_lit s) = c_lit s" using assms(1) by simp
  moreover have "off + length (c_lit s @ [0]) \<le> length m" using assms(2) by simp
  ultimately have "mem_write m (int off) (take (n - 1) (c_lit s) @ [0]) =
      Inr (take off m @ (c_lit s @ [0]) @ drop (off + length (c_lit s @ [0])) m)"
    using mem_write_ok [of off "c_lit s @ [0]" m] by simp
  then show ?thesis using assms by (simp add: snprintf_def printed_def)
qed

lemma print_all_ok:
  "written + length (concat ss) < bufsize \<Longrightarrow> base + bufsize \<le> length m \<Longrightarrow> bufsize < 2 ^ 64 \<Longrightarrow>
   \<exists>m'. print_all m base written bufsize ss = Inr (written + length (concat ss), m') \<and> printed m (base + written) (concat ss) m'"
proof (induction ss arbitrary: m written)
  case (Cons s ss)
  have len: "length s < bufsize - written" "base + written + length s < length m" using Cons.prems(1,2) by simp_all
  have sub: "size_sub bufsize written = bufsize - written" using Cons.prems by (intro size_sub_exact) simp_all
  obtain m1 where m1: "snprintf m (base + written) (bufsize - written) s = Inr (length s, m1)" "printed m (base + written) s m1"
    using snprintf_ok [OF len] by blast
  have pre: "written + length s + length (concat ss) < bufsize" "base + bufsize \<le> length m1"
    using Cons.prems m1(2) by (simp_all add: printed_def)
  obtain m2 where m2: "print_all m1 base (written + length s) bufsize ss = Inr (written + length s + length (concat ss), m2)"
    "printed m1 (base + (written + length s)) (concat ss) m2"
    using Cons.IH [OF pre Cons.prems(3)] by blast
  have "printed m (base + written) (s @ concat ss) m2" using printed_append [OF m1(2)] m2(2) by (simp add: add.assoc)
  then show ?case using m1(1) m2(1) sub by (simp add: add.assoc)
qed simp

definition query_texts :: "string \<Rightarrow> string \<Rightarrow> tracker_request_t \<Rightarrow> string list" where
  "query_texts eh ei req = [''?info_hash='', eh, ''&peer_id='', ei, ''&port='' @ dec_str (unat (tq_port req)), ''&uploaded='' @ dec_str (tq_uploaded req),
      ''&downloaded='' @ dec_str (tq_downloaded req), ''&left='' @ dec_str (tq_left req)]"

definition flag_texts :: "tracker_request_t \<Rightarrow> string list" where
  "flag_texts req = (if tq_flags req AND COMPACT \<noteq> 0 then [''&compact=1''] else [])"

definition url_query :: "string \<Rightarrow> string \<Rightarrow> tracker_request_t \<Rightarrow> string" where
  "url_query eh ei req = concat (query_texts eh ei req) @ concat (flag_texts req)"

lemma build_http_url_ok:
  assumes "escape (tq_info_hash req) = Some eh" and "escape (tq_peer_id req) = Some ei"
    and "length (url_query eh ei req) < bufsize" and "base + bufsize \<le> length m" and "bufsize < 2 ^ 64"
  shows "\<exists>m'. build_http_url escape req m base bufsize =
      Inr (length (url_query eh ei req), m', req\<lparr>tq_flags := tq_flags req AND COMPACT\<rparr>) \<and> printed m base (url_query eh ei req) m'"
proof -
  let ?ts = "query_texts eh ei req" and ?c = "flag_texts req"
  have l: "0 + length (concat ?ts) < bufsize" "length (concat ?ts) + length (concat ?c) < bufsize" using assms(3) by (simp_all add: url_query_def)
  obtain m1 where m1: "print_all m base 0 bufsize ?ts = Inr (0 + length (concat ?ts), m1)" "printed m (base + 0) (concat ?ts) m1"
    using print_all_ok [OF l(1) assms(4,5)] by blast
  have b1: "base + bufsize \<le> length m1" using m1(2) assms(4) by (simp add: printed_def)
  obtain m2 where m2: "print_all m1 base (length (concat ?ts)) bufsize ?c = Inr (length (concat ?ts) + length (concat ?c), m2)"
    "printed m1 (base + length (concat ?ts)) (concat ?c) m2"
    using print_all_ok [OF l(2) b1 assms(5)] by blast
  have run: "build_http_url escape req m base bufsize =
      c_bind (print_all m base 0 bufsize ?ts) (\<lambda>(written, m1).
        c_bind (print_all m1 base written bufsize ?c) (\<lambda>(written', m2). Inr (written', m2, req\<lparr>tq_flags := tq_flags req AND COMPACT\<rparr>)))"
    using assms(1,2) by (simp add: build_http_url_def deref_def HAS_FLAG_def Let_def query_texts_def flag_texts_def)
  show ?thesis unfolding run m1(1) using m2(1) printed_append [OF m1(2)] m2(2) by (simp add: url_query_def)
qed

definition crlf :: string where "crlf = [CHR 0x0D, CHR 0x0A]"

definition http_text :: "string \<Rightarrow> string \<Rightarrow> string \<Rightarrow> string" where
  "http_text path query host = (''GET /'' @ path) @ query @ ('' HTTP/1.1'' @ crlf) @ (''Host: '' @ host @ crlf @ crlf)"

lemma build_http_request_ok:
  assumes url: "url_path url = Some path" "url_host url = Some host"
    and esc: "escape (tq_info_hash req) = Some eh" "escape (tq_peer_id req) = Some ei"
    and len: "length (http_text path (url_query eh ei req) host) < bufsize" and buf: "length m = bufsize" "bufsize < 2 ^ 64"
  shows "\<exists>m'. build_http_request escape url req m bufsize =
      Inr (length (http_text path (url_query eh ei req) host), m', req\<lparr>tq_flags := tq_flags req AND COMPACT\<rparr>) \<and>
    printed m 0 (http_text path (url_query eh ei req) host) m'"
proof -
  define a where "a = ''GET /'' @ path"
  define q where "q = url_query eh ei req"
  define b where "b = '' HTTP/1.1'' @ crlf"
  define c where "c = ''Host: '' @ host @ crlf @ crlf"
  have t: "http_text path (url_query eh ei req) host = a @ q @ b @ c" by (simp add: http_text_def a_def q_def b_def c_def)
  have l: "length a + length q + length b + length c < bufsize" using len unfolding t by simp
  obtain m1 where m1: "snprintf m 0 bufsize a = Inr (length a, m1)" "printed m 0 a m1"
    using snprintf_ok [of a bufsize 0 m] l buf by auto
  have sub: "size_sub bufsize (length a) = bufsize - length a" using l buf(2) by (intro size_sub_exact) simp_all
  have u: "length (url_query eh ei req) < bufsize - length a" "length a + (bufsize - length a) \<le> length m1" "bufsize - length a < 2 ^ 64"
    using l buf m1(2) by (simp_all add: q_def [symmetric] printed_def)
  obtain m2 where m2: "build_http_url escape req m1 (length a) (bufsize - length a) = Inr (length q, m2, req\<lparr>tq_flags := tq_flags req AND COMPACT\<rparr>)"
    "printed m1 (length a) q m2"
    using build_http_url_ok [of escape req, OF esc u] unfolding q_def by blast
  have lm2: "0 + bufsize \<le> length m2" using m1(2) m2(2) buf(1) by (simp add: printed_def)
  have pb: "length a + length q + length (concat [b]) < bufsize" using l by simp
  obtain m3 where m3: "print_all m2 0 (length a + length q) bufsize [b] = Inr (length a + length q + length b, m3)" "printed m2 (length a + length q) b m3"
    using print_all_ok [OF pb lm2 buf(2)] by auto
  have lm3: "0 + bufsize \<le> length m3" using lm2 m3(2) by (simp add: printed_def)
  have pc: "length a + length q + length b + length (concat [c]) < bufsize" using l by simp
  obtain m4 where m4: "print_all m3 0 (length a + length q + length b) bufsize [c] = Inr (length a + length q + length b + length c, m4)"
    "printed m3 (length a + length q + length b) c m4"
    using print_all_ok [OF pc lm3 buf(2)] by auto
  have "printed m 0 (((a @ q) @ b) @ c) m4"
    using m1(2) m2(2) m3(2) m4(2) by (intro printed_append [where s = "(a @ q) @ b"] printed_append [where s = "a @ q"] printed_append [where s = a]) (simp_all add: add.assoc)
  moreover have "build_http_request escape url req m bufsize = Inr (length a + length q + length b + length c, m4, req\<lparr>tq_flags := tq_flags req AND COMPACT\<rparr>)"
    using url m1(1) [unfolded a_def] m2(1) m3(1) [unfolded b_def crlf_def] m4(1) [unfolded c_def crlf_def] sub
    by (simp add: build_http_request_def deref_def a_def b_def c_def crlf_def del: print_all.simps)
  ultimately show ?thesis unfolding t by (intro exI [of _ m4]) (simp add: add.assoc)
qed

section \<open>Receiving\<close>

lemma recv_arrives:
  assumes "\<not> sk_broken sk" and "length (sk_in sk) \<le> n" and "recv sk n = (r, sk')"
  obtains bs where "r = Some bs" and "sk_in sk = bs @ sk_in sk'" and "\<not> sk_broken sk'" and "bs = [] \<longrightarrow> sk_in sk = [] \<and> sk' = sk"
    and "sk_out sk' = sk_out sk"
proof (cases "n = 0 \<or> sk_in sk = []")
  case True
  then have "r = Some []" "sk' = sk" "sk_in sk = []" using assms by (auto simp: recv_def split: if_splits)
  then show ?thesis using that [of "[]"] assms(1) by simp
next
  case False
  let ?k = "min (length (sk_in sk)) (frag_limit (sk_frag sk) n)"
  have k: "0 < ?k" using False frag_limit_bounds [of n "sk_frag sk"] by auto
  have "r = Some (take ?k (sk_in sk))" "sk' = sk\<lparr>sk_in := drop ?k (sk_in sk), sk_ready := sk_ready sk - ?k, sk_frag := tl (sk_frag sk)\<rparr>"
    using assms(3) False by (simp_all add: recv_def Let_def)
  moreover have "take ?k (sk_in sk) \<noteq> []" using k False by simp
  ultimately show ?thesis using that [of "take ?k (sk_in sk)"] assms(1) by simp
qed

lemma http_recv_ok:
  "\<not> sk_broken sk \<Longrightarrow> tot + length (sk_in sk) < 2048 \<Longrightarrow> length buf = 2048 \<Longrightarrow>
   \<exists>sk'. http_recv sk buf tot =
     Inr (take tot buf @ sk_in sk @ drop (tot + length (sk_in sk)) buf, tot + length (sk_in sk), sk') \<and> sk_out sk' = sk_out sk"
proof (induction "length (sk_in sk)" arbitrary: sk buf tot rule: less_induct)
  case less
  have sub: "size_sub 2048 tot = 2048 - tot" using less.prems by (intro size_sub_exact) simp_all
  obtain r sk1 where rv: "recv sk (2048 - tot) = (r, sk1)" by (cases "recv sk (2048 - tot)")
  have room: "length (sk_in sk) \<le> 2048 - tot" using less.prems(2) by simp
  obtain bs where bs: "r = Some bs" "sk_in sk = bs @ sk_in sk1" "\<not> sk_broken sk1" "bs = [] \<longrightarrow> sk_in sk = [] \<and> sk1 = sk" "sk_out sk1 = sk_out sk"
    by (rule recv_arrives [OF less.prems(1) room rv])
  show ?case
  proof (cases "bs = []")
    case True
    then show ?thesis using bs(4) rv sub bs(1) by (subst http_recv.simps) simp
  next
    case False
    have off: "signed_off tot = int tot" using less.prems(2) by (simp add: signed_off_def)
    let ?b = "take tot buf @ bs @ drop (tot + length bs) buf"
    have w: "mem_write buf (int tot) bs = Inr ?b" using less.prems(2,3) bs(2) by (intro mem_write_ok) simp
    have len: "length (sk_in sk1) < length (sk_in sk)" "tot + length bs + length (sk_in sk1) < 2048" "length ?b = 2048"
      using False bs(2) less.prems(2,3) by simp_all
    obtain sk2 where sk2: "http_recv sk1 ?b (tot + length bs) = Inr (take (tot + length bs) ?b @ sk_in sk1 @
        drop (tot + length bs + length (sk_in sk1)) ?b, tot + length bs + length (sk_in sk1), sk2)" "sk_out sk2 = sk_out sk1"
      using less.hyps [OF len(1) bs(3) len(2,3)] by blast
    have "(tot + length bs) mod 2 ^ 64 = tot + length bs" using len(2) by simp
    then have "http_recv sk buf tot = http_recv sk1 ?b (tot + length bs)"
      using rv sub bs(1) False off w by (subst http_recv.simps) simp
    moreover have "take (tot + length bs) ?b = take tot buf @ bs" using less.prems(2,3) bs(2) by simp
    moreover have "drop (tot + length bs + length (sk_in sk1)) ?b = drop (tot + length (sk_in sk)) buf" using less.prems(2,3) bs(2) by (simp add: ac_simps)
    ultimately show ?thesis using sk2 bs(2,5) by simp
  qed
qed

section \<open>The response\<close>

lemma opt_text_absent: "reads sha1 st t m \<Longrightarrow> m (c_lit key) = None \<Longrightarrow> opt_text env st t key old = Inr old"
  using reads_absent by (simp add: opt_text_def)

lemma u32_field_ok:
  assumes "reads sha1 st t m" and "m (c_lit key) = Some (BInt i)"
  shows "u32_field st t key = Inr (word_of_int i)"
proof -
  obtain b where "field st t key = Inr b" "repr sha1 st b (BInt i)" by (rule reads_present [OF assms])
  then show ?thesis using repr_members(1) by (simp add: u32_field_def)
qed

text \<open>What the dictionary of a response says.\<close>

definition response_says :: "(byte list \<rightharpoonup> bvalue) \<Rightarrow> u32 \<Rightarrow> u32 \<Rightarrow> u32 \<Rightarrow> peer_t list \<Rightarrow> bool" where
  "response_says m interval complete incomplete ps \<longleftrightarrow>
     m (c_lit ''failure reason'') = None \<and> m (c_lit ''warning message'') = None \<and> m (c_lit ''tracker id'') = None \<and>
     m (c_lit ''interval'') = Some (BInt (uint interval)) \<and> m (c_lit ''complete'') = Some (BInt (uint complete)) \<and>
     m (c_lit ''incomplete'') = Some (BInt (uint incomplete)) \<and>
     m (c_lit ''peers'') = (if ps = [] then None else Some (BStr (concat (map peer_wire ps)))) \<and> list_all plain_peer ps"

lemma content_response_ok:
  assumes "reads sha1 st t m" and "response_says m i c n ps" and "heap_ok h"
  shows "content_response env st h t res0 = Inr (res0\<lparr>tr_interval := i, tr_complete := c, tr_incomplete := n,
     tr_num_peers := length ps, tr_peers := ps\<rparr>, h)"
proof -
  note s = assms(2) [unfolded response_says_def]
  have head: "opt_text env st t ''tracker id'' (tr_tracker_id res0) = Inr (tr_tracker_id res0)"
    "opt_text env st t ''warning message'' (tr_warning_message res0) = Inr (tr_warning_message res0)"
    "HT_LOOKUP st t ''failure reason'' = Inr None"
    using opt_text_absent [OF assms(1)] reads_absent [OF assms(1)] s by blast+
  have "u32_field st t ''interval'' = Inr (word_of_int (uint i))" "u32_field st t ''complete'' = Inr (word_of_int (uint c))"
    "u32_field st t ''incomplete'' = Inr (word_of_int (uint n))"
    using u32_field_ok [OF assms(1)] s by blast+
  then have nums: "u32_field st t ''interval'' = Inr i" "u32_field st t ''complete'' = Inr c" "u32_field st t ''incomplete'' = Inr n" by simp_all
  have peers: "content_peers env st h t res = Inr (res\<lparr>tr_num_peers := length ps, tr_peers := ps\<rparr>, h)" for res
  proof (cases "ps = []")
    case True
    then have "m (c_lit ''peers'') = None" using s by simp
    then show ?thesis using reads_absent [OF assms(1)] True by (simp add: content_peers_def)
  next
    case False
    then have "m (c_lit ''peers'') = Some (BStr (concat (map peer_wire ps)))" using s by simp
    then obtain b where b: "HT_LOOKUP st t ''peers'' = Inr (Some b)" "repr sha1 st b (BStr (concat (map peer_wire ps)))"
      by (rule reads_present [OF assms(1)])
    show ?thesis using b(1) repr_members(2) [OF b(2)] parse_peers_ok [OF _ assms(3), of ps "be_gap env"] s peers_wire_length [of ps]
      by (simp add: content_peers_def)
  qed
  show ?thesis using head nums peers by (simp add: content_response_def Let_def)
qed

text \<open>A header line: not empty, without a line feed or NUL, and longer than one character.\<close>

definition header_line :: "string \<Rightarrow> bool" where
  "header_line l \<longleftrightarrow> 2 \<le> length l \<and> CHR 0x0A \<notin> set l \<and> CHR 0x00 \<notin> set l \<and>
     (take 15 l = ''Content-Length:'' \<longrightarrow> fst (strtok_r l '':'' (snd (strtok_r l '':'' 0))) \<noteq> None)"

definition lines :: "string list \<Rightarrow> string" where
  "lines ls = concat (map (\<lambda>l. l @ nl) ls)"

lemma line_tok:
  assumes "l \<noteq> []" and "CHR 0x0A \<notin> set l"
  shows "strtok_r (pre @ l @ nl @ rest) nl (length pre) = (Some (length pre, l), length (pre @ l @ nl))"
  using strtok_r_next [of "[]" nl l "CHR 0x0A" pre rest] assms by (simp add: nl_def)

lemma header_loop_ok:
  "list_all header_line ls \<Longrightarrow> \<exists>n. header_loop (pre @ lines ls @ CHR 0x0D # nl @ rest) (length pre) cl =
     Inr (n, length (pre @ lines ls) + 2)"
proof (induction ls arbitrary: pre cl)
  case Nil
  have "strtok_r (pre @ [CHR 0x0D] @ nl @ rest) nl (length pre) = (Some (length pre, [CHR 0x0D]), length (pre @ [CHR 0x0D] @ nl))"
    by (rule line_tok) simp_all
  then show ?case by (subst header_loop.simps) (simp add: lines_def)
next
  case (Cons l ls)
  have l: "header_line l" "l \<noteq> []" "CHR 0x0A \<notin> set l" "length l \<noteq> 1" using Cons.prems by (auto simp: header_line_def)
  let ?b = "pre @ lines (l # ls) @ CHR 0x0D # nl @ rest" and ?pre = "pre @ l @ nl"
  have b: "?b = ?pre @ lines ls @ CHR 0x0D # nl @ rest" by (simp add: lines_def)
  have t: "strtok_r ?b nl (length pre) = (Some (length pre, l), length ?pre)"
    using line_tok [OF l(2,3), of pre "lines ls @ CHR 0x0D # nl @ rest"] by (simp add: lines_def)
  have IH: "\<exists>n. header_loop ?b (length ?pre) cl' = Inr (n, length (pre @ lines (l # ls)) + 2)" for cl'
    using Cons.IH [of ?pre cl'] Cons.prems b by (simp add: lines_def add.assoc)
  show ?case
  proof (cases "take 15 l = ''Content-Length:''")
    case True
    then obtain a k tok where "strtok_r l '':'' (snd (strtok_r l '':'' 0)) = (Some (k, tok), a)"
      using l(1) unfolding header_line_def by (metis fst_conv not_None_eq surj_pair)
    then show ?thesis using t True IH [of "strtoul tok"] by (subst header_loop.simps) simp
  next
    case False
    then show ?thesis using t l(4) IH [of cl] by (subst header_loop.simps) simp
  qed
qed

lemma parse_content_parses:
  assumes "good (BDict kvs)" and "calm env h"
  obtains st t where "parse_content env h res0 (enc (BDict kvs) @ 0 # r) = content_response env st h t res0"
    and "reads (be_sha1 env) st t (map_of kvs)"
proof -
  have heap: "heap_ok h" using assms(2) by (simp add: calm_def)
  have tok: "tk_type no_token \<notin> {COLON, INT_START, STRING_SIZE}" "tk_type no_token \<noteq> STRING_SIZE" by (simp_all add: no_token_def)
  obtain b p where p: "parse_text env h (Some (enc (BDict kvs))) (0 # r) 0 no_token no_token = Inr (b, p)"
    "repr (be_sha1 env) (p_values p) b (BDict kvs)" "p_heap p = h"
    using parse_text_ok [OF assms(1,2) refl tok] by blast
  obtain t where t: "asDict b = Inr t" "reads (be_sha1 env) (p_values p) t (map_of kvs)" by (rule repr_reads [OF p(2)])
  let ?l = "\<lparr>lx_mem = enc (BDict kvs) @ 0 # r, lx_eof = False, lx_pos = 0, lx_read_pos = 0, lx_ch = 0, lx_prevprev = no_token, lx_prev = no_token\<rparr>"
  have "parse_content env h res0 (enc (BDict kvs) @ 0 # r) = c_bind (new_parser ?l h) (\<lambda>p. c_bind (parse_item env (parse_fuel p) p) (\<lambda>(v, p').
      c_bind (asDict v) (\<lambda>dict. content_response env (p_values p') (p_heap p') dict res0)))"
    using heap by (simp add: parse_content_def new_parser_def parser_next_token_def c_bind_def split: sum.split prod.split)
  moreover have "c_bind (new_parser ?l h) (\<lambda>p. parse_item env (parse_fuel p) p) = Inr (b, p)"
    using p(1) heap by (simp add: parse_text_def new_lexer_def)
  ultimately have "parse_content env h res0 (enc (BDict kvs) @ 0 # r) = content_response env (p_values p) (p_heap p) t res0"
    using t(1) by (cases "new_parser ?l h") auto
  then show thesis using that t(2) p(3) by simp
qed

lemma parse_content_ok:
  assumes "good (BDict kvs)" and "calm env h" and "response_says (map_of kvs) i c n ps"
  shows "parse_content env h res0 (enc (BDict kvs) @ 0 # r) = Inr (res0\<lparr>tr_interval := i, tr_complete := c, tr_incomplete := n,
     tr_num_peers := length ps, tr_peers := ps\<rparr>, h)"
proof -
  obtain st t where t: "parse_content env h res0 (enc (BDict kvs) @ 0 # r) = content_response env st h t res0" "reads (be_sha1 env) st t (map_of kvs)"
    by (rule parse_content_parses [OF assms(1,2)])
  show ?thesis unfolding t(1) by (rule content_response_ok [OF t(2) assms(3)]) (use assms(2) in \<open>simp add: calm_def\<close>)
qed


definition http_reply :: "string \<Rightarrow> string \<Rightarrow> string list \<Rightarrow> byte list \<Rightarrow> byte list" where
  "http_reply status l2 ls body = c_lit (status @ nl @ l2 @ nl @ lines ls @ CHR 0x0D # nl) @ body"

definition good_head :: "string \<Rightarrow> string \<Rightarrow> string list \<Rightarrow> bool" where
  "good_head status l2 ls \<longleftrightarrow> (take 15 status = ''HTTP/1.1 200 OK'' \<or> take 15 status = ''HTTP/1.0 200 OK'') \<and>
     CHR 0x0A \<notin> set status \<and> CHR 0x00 \<notin> set status \<and> l2 \<noteq> [] \<and> CHR 0x0A \<notin> set l2 \<and> CHR 0x00 \<notin> set l2 \<and> list_all header_line ls"

lemma c_lit_no_nul: "CHR 0x00 \<notin> set s \<Longrightarrow> 0 \<notin> set (c_lit s)"
proof
  assume "CHR 0x00 \<notin> set s" and "0 \<in> set (c_lit s)"
  then obtain c where c: "c \<in> set s" "(of_char c :: byte) = 0" by (auto simp: c_lit_def)
  then have "c = char_of (0 :: nat)" using char_of_of_char [of c] by simp
  also have "\<dots> = CHR 0x00" by (simp add: char_of_def)
  finally have "c = CHR 0x00" .
  then show False using c(1) \<open>CHR 0x00 \<notin> set s\<close> by simp
qed

lemma lines_no_nul: "list_all header_line ls \<Longrightarrow> CHR 0x00 \<notin> set (lines ls)"
  by (induction ls) (auto simp: lines_def header_line_def nl_def)

lemma parse_tracker_response_ok:
  assumes head: "good_head status l2 ls" and v: "good (BDict kvs)" "calm env h" "response_says (map_of kvs) i c n ps"
  shows "parse_tracker_response env h res0 (http_reply status l2 ls (enc (BDict kvs)) @ 0 # z) slack =
    Inr (Some (res0\<lparr>tr_interval := i, tr_complete := c, tr_incomplete := n, tr_num_peers := length ps, tr_peers := ps\<rparr>), h)"
proof -
  note g = head [unfolded good_head_def]
  let ?h = "status @ nl @ l2 @ nl @ lines ls @ CHR 0x0D # nl"
  let ?buf = "http_reply status l2 ls (enc (BDict kvs)) @ 0 # z"
  have nul: "CHR 0x00 \<notin> set ?h" using g lines_no_nul by (auto simp: nl_def)
  define rest where "rest = c_str (takeWhile (\<lambda>b. b \<noteq> 0) (enc (BDict kvs) @ 0 # z))"
  have "takeWhile (\<lambda>b. b \<noteq> 0) (c_lit ?h @ (enc (BDict kvs) @ 0 # z)) = c_lit ?h @ takeWhile (\<lambda>b. b \<noteq> 0) (enc (BDict kvs) @ 0 # z)"
    using c_lit_no_nul [OF nul] by (intro takeWhile_append2) auto
  then have "c_str (takeWhile (\<lambda>b. b \<noteq> 0) (c_lit ?h @ (enc (BDict kvs) @ 0 # z))) = c_str (c_lit ?h) @ rest" by (simp add: rest_def)
  moreover have "?buf = c_lit ?h @ (enc (BDict kvs) @ 0 # z)" by (simp add: http_reply_def)
  ultimately have t: "c_str (takeWhile (\<lambda>b. b \<noteq> 0) ?buf) = ?h @ rest" by (metis c_str_lit)
  have "status \<noteq> []" using g by auto
  then have s1: "strtok_r (?h @ rest) nl 0 = (Some (0, status), length (status @ nl))"
    using line_tok [of status "[]" "l2 @ nl @ lines ls @ CHR 0x0D # nl @ rest"] g by simp
  have s2: "strtok_r (?h @ rest) nl (length (status @ nl)) = (Some (length (status @ nl), l2), length (status @ nl @ l2 @ nl))"
    using line_tok [of l2 "status @ nl" "lines ls @ CHR 0x0D # nl @ rest"] g by simp
  obtain k where hl: "header_loop (?h @ rest) (length (status @ nl @ l2 @ nl)) 0 = Inr (k, length (status @ nl @ l2 @ nl @ lines ls) + 2)"
    using header_loop_ok [of ls "status @ nl @ l2 @ nl" rest 0] g by auto
  have len: "length (status @ nl @ l2 @ nl @ lines ls) + 2 = length (c_lit ?h)" by (simp add: nl_def)
  have d: "drop (length (c_lit ?h)) (?buf @ slack) = enc (BDict kvs) @ 0 # (z @ slack)" by (simp add: http_reply_def)
  have ok: "take 15 (?h @ rest) = take 15 status"
  proof -
    have "length (take 15 status) = 15" using g by (elim conjE disjE) (simp_all del: length_take)
    then have "15 \<le> length status" by simp
    then show ?thesis by simp
  qed
  have cond: "\<not> (take 15 (?h @ rest) \<noteq> ''HTTP/1.1 200 OK'' \<and> take 15 (?h @ rest) \<noteq> ''HTTP/1.0 200 OK'')" unfolding ok using g by blast
  have "parse_tracker_response env h res0 ?buf slack = c_bind (parse_content env h res0 (enc (BDict kvs) @ 0 # (z @ slack))) (\<lambda>(res, h'). Inr (Some res, h'))"
    unfolding parse_tracker_response_def Let_def t if_not_P [OF cond] s1 s2 snd_conv hl len c_bind_simps prod.case d by (rule refl)
  then show ?thesis using parse_content_ok [OF v, of res0 "z @ slack"] by simp
qed

section \<open>The exchange\<close>

text \<open>
  C24. The announce over HTTP: the request that is sent is the text of the protocol with the escaped ids, the
  port and the counters, and the response of a tracker that answers, however the network cuts it, is read
  as its interval, numbers of seeders and leechers and exactly its peers. Request and response have to fit
  the arrays; the fields that the response does not mention stay uninitialised.
\<close>
theorem http_announce_answered:
  assumes "url_path url = Some path" and "url_host url = Some host"
    and "escape (tq_info_hash req) = Some eh" and "escape (tq_peer_id req) = Some ei"
    and "length (http_text path (url_query eh ei req) host) < 1024"
    and "\<not> sk_broken sk" and "sk_sfrag sk = []" and "sk_room sk = None"
    and "sk_in sk = http_reply status l2 ls (enc (BDict kvs))" and "length (sk_in sk) < 2048"
    and "good_head status l2 ls" and "good (BDict kvs)" and "calm env h" and "response_says (map_of kvs) i c n ps"
  shows "\<exists>sk'. http_announce env escape h res0 slack sk url req =
      Inr (Some (res0\<lparr>tr_interval := i, tr_complete := c, tr_incomplete := n, tr_num_peers := length ps, tr_peers := ps\<rparr>),
           req\<lparr>tq_flags := tq_flags req AND COMPACT\<rparr>, sk', h) \<and>
    sk_out sk' = sk_out sk @ c_lit (http_text path (url_query eh ei req) host)"
proof -
  let ?t = "http_text path (url_query eh ei req) host"
  obtain m where m: "build_http_request escape url req (replicate 1024 0) 1024 = Inr (length ?t, m, req\<lparr>tq_flags := tq_flags req AND COMPACT\<rparr>)"
    "printed (replicate 1024 0) 0 ?t m"
    using build_http_request_ok [of url path host escape req eh ei 1024 "replicate 1024 0"] assms(1-5) by auto
  have rd: "mem_read m 0 (length ?t) = Inr (c_lit ?t)" using m(2) assms(5) by (simp add: printed_def mem_read_def)
  have ne: "c_lit ?t \<noteq> []" by (simp add: http_text_def c_lit_def)
  let ?sk1 = "sk\<lparr>sk_out := sk_out sk @ c_lit ?t, sk_sfrag := [], sk_room := None\<rparr>"
  have sd: "send sk (c_lit ?t) = (Some (length ?t), ?sk1)" using ne assms(7,8) by (simp add: send_def frag_limit_def)
  let ?n = "length (sk_in sk)"
  obtain sk2 where sk2: "http_recv ?sk1 (replicate 2048 0) 0 = Inr (sk_in sk @ drop ?n (replicate 2048 0), ?n, sk2)"
    "sk_out sk2 = sk_out ?sk1"
    using http_recv_ok [of ?sk1 0 "replicate 2048 0"] assms(6,10) by auto
  have "drop ?n (replicate 2048 (0 :: byte)) = 0 # replicate (2047 - ?n) 0"
    using assms(10) by (simp add: replicate_Suc [symmetric] Suc_diff_le del: replicate_Suc)
  then have rv: "http_recv ?sk1 (replicate 2048 0) 0 = Inr (sk_in sk @ 0 # replicate (2047 - ?n) 0, ?n, sk2)" using sk2(1) by simp
  have "parse_tracker_response env h res0 (sk_in sk @ 0 # replicate (2047 - ?n) 0) slack =
    Inr (Some (res0\<lparr>tr_interval := i, tr_complete := c, tr_incomplete := n, tr_num_peers := length ps, tr_peers := ps\<rparr>), h)"
    unfolding assms(9) by (rule parse_tracker_response_ok [OF assms(11-14)])
  then show ?thesis using m(1) rd sd rv sk2(2) assms(10) by (simp add: http_announce_def)
qed

text \<open>
  A connection that breaks while the response is awaited is not noticed: every failed \<open>recv\<close> counts as
  \<open>2^64 - 1\<close> bytes and the loop calls \<open>recv\<close> again, until after up to \<open>2^64\<close> calls the computed room is zero and
  the assertion on the received size stops the client.
\<close>
theorem http_recv_broken:
  assumes "sk_in sk = []" and "sk_broken sk"
  shows "\<exists>t. http_recv sk buf tot = Inr (buf, t, sk) \<and> \<not> (t < 2048)"
  using assms
proof (induction "size_sub tot 2048" arbitrary: tot rule: less_induct)
  case less
  show ?case
  proof (cases "size_sub 2048 tot = 0")
    case True
    have "\<not> tot < 2048"
    proof
      assume "tot < 2048"
      then have "size_sub 2048 tot = 2048 - tot" by (intro size_sub_exact) simp_all
      then show False using True \<open>tot < 2048\<close> by simp
    qed
    moreover have "http_recv sk buf tot = Inr (buf, tot, sk)" using True by (subst http_recv.simps) (simp add: recv_def)
    ultimately show ?thesis by blast
  next
    case False
    have "recv sk (size_sub 2048 tot) = (None, sk)" using False less.prems by (simp add: recv_def)
    then have "http_recv sk buf tot = http_recv sk buf ((tot + (2 ^ 64 - 1)) mod 2 ^ 64)" by (subst http_recv.simps) simp
    then show ?thesis using less.hyps [OF size_sub_down [OF False] less.prems] by simp
  qed
qed

text \<open>
  A response with a failure reason is returned with that reason, but its number of peers and its list of
  peers are whatever the fresh memory holds.
\<close>
theorem parse_content_failure_uninitialised:
  assumes "good (BDict kvs)" and "calm env h" and "map_of kvs (c_lit ''tracker id'') = None"
    and "map_of kvs (c_lit ''failure reason'') = Some (BStr s)" and "0 \<notin> set s"
  shows "parse_content env h res0 (enc (BDict kvs) @ 0 # r) = Inr (res0\<lparr>tr_failure_reason := Some (c_str s)\<rparr>, h)"
proof -
  obtain g where g: "be_gap env = 0 # g" using assms(2) by (auto simp: calm_def)
  obtain st t where t: "parse_content env h res0 (enc (BDict kvs) @ 0 # r) = content_response env st h t res0" "reads (be_sha1 env) st t (map_of kvs)"
    by (rule parse_content_parses [OF assms(1,2)])
  obtain b where b: "HT_LOOKUP st t ''failure reason'' = Inr (Some b)" "repr (be_sha1 env) st b (BStr s)" by (rule reads_present [OF t(2) assms(4)])
  show ?thesis unfolding t(1) using opt_text_absent [OF t(2) assms(3)] b(1) asText_ok [OF b(2) g assms(5)] by (simp add: content_response_def)
qed

section \<open>Examples\<close>

definition sample_response_kvs :: "(byte list \<times> bvalue) list" where
  "sample_response_kvs = [(c_lit ''complete'', BInt 5), (c_lit ''incomplete'', BInt 4), (c_lit ''interval'', BInt 1800),
     (c_lit ''peers'', BStr (concat (map peer_wire [sample_peer])))]"

definition sample_res0 :: tracker_response_t where
  "sample_res0 = \<lparr>tr_failure_reason = None, tr_warning_message = None, tr_interval = 0, tr_tracker_id = None, tr_complete = 0,
     tr_incomplete = 0, tr_num_peers = 77, tr_peers = []\<rparr>"

definition sample_url :: url_t where
  "sample_url = \<lparr>url_protocol = PROTOCOL_HTTP, url_host = Some ''a.b'', url_port = 80, url_path = Some ''c''\<rparr>"

definition sample_http_sock :: sock where
  "sample_http_sock = \<lparr>sk_in = http_reply (''HTTP/1.1 200 OK'' @ [CHR 0x0D]) (''Server: x'' @ [CHR 0x0D]) [''Content-Length: 60'' @ [CHR 0x0D]]
       (enc (BDict sample_response_kvs)), sk_ready = 0, sk_frag = [10, 20], sk_broken = False, sk_out = [], sk_sfrag = [], sk_room = None\<rparr>"

lemma sample_wire: "concat (map peer_wire [sample_peer]) = [0x7F, 0, 0, 1, 0x1A, 0xE9]"
  by (simp add: peer_wire_def sample_peer_def u32_mem_def u16_mem_def)

lemma sample_response_ok:
  "good (BDict sample_response_kvs)" "response_says (map_of sample_response_kvs) 1800 5 4 [sample_peer]"
proof -
  show "good (BDict sample_response_kvs)" unfolding sample_response_kvs_def sample_wire by (simp add: good_str_def c_lit_def info_key_def)
  show "response_says (map_of sample_response_kvs) 1800 5 4 [sample_peer]"
    by (simp add: response_says_def sample_response_kvs_def c_lit_def plain_peer_def sample_peer_def)
qed

lemma sample_head_ok: "good_head (''HTTP/1.1 200 OK'' @ [CHR 0x0D]) (''Server: x'' @ [CHR 0x0D]) [''Content-Length: 60'' @ [CHR 0x0D]]"
  by (simp add: good_head_def header_line_def strtok_r_def)

lemma sample_http_lengths:
  "length (sk_in sample_http_sock) < 2048" "length (http_text ''c'' (url_query ''x'' ''x'' sample_announce) ''a.b'') < 1024"
proof -
  show "length (sk_in sample_http_sock) < 2048"
    unfolding sample_http_sock_def sample_response_kvs_def sample_wire by (simp add: http_reply_def lines_def nl_def dec.simps dec_int_def)
  show "length (http_text ''c'' (url_query ''x'' ''x'' sample_announce) ''a.b'') < 1024"
    by (simp add: http_text_def url_query_def query_texts_def flag_texts_def crlf_def sample_announce_def dec_str_def dec.simps)
qed

theorem http_announce_answered_witness:
  "\<exists>sk'. http_announce sample_bc_env (\<lambda>_. Some ''x'') calm_heap sample_res0 [] sample_http_sock sample_url sample_announce =
      Inr (Some (sample_res0\<lparr>tr_interval := 1800, tr_complete := 5, tr_incomplete := 4, tr_num_peers := 1, tr_peers := [sample_peer]\<rparr>),
           sample_announce\<lparr>tq_flags := tq_flags sample_announce AND COMPACT\<rparr>, sk', calm_heap)"
proof -
  have calm: "calm sample_bc_env calm_heap" using sample_bc_env_ok by (auto simp: calm_def)
  have sk: "\<not> sk_broken sample_http_sock" "sk_sfrag sample_http_sock = []" "sk_room sample_http_sock = None"
    "sk_in sample_http_sock = http_reply (''HTTP/1.1 200 OK'' @ [CHR 0x0D]) (''Server: x'' @ [CHR 0x0D]) [''Content-Length: 60'' @ [CHR 0x0D]]
       (enc (BDict sample_response_kvs))"
    by (simp_all add: sample_http_sock_def)
  have u: "url_path sample_url = Some ''c''" "url_host sample_url = Some ''a.b''" by (simp_all add: sample_url_def)
  have e: "(\<lambda>_. Some ''x'') (tq_info_hash sample_announce) = Some ''x''" "(\<lambda>_. Some ''x'') (tq_peer_id sample_announce) = Some ''x''" by simp_all
  from http_announce_answered [of sample_url, OF u e sample_http_lengths(2) sk sample_http_lengths(1) sample_head_ok sample_response_ok(1) calm sample_response_ok(2)]
  show ?thesis by auto
qed

theorem parse_content_failure_uninitialised_witness:
  "parse_content sample_bc_env calm_heap sample_res0 (enc (BDict [(c_lit ''failure reason'', BStr (c_lit ''no''))]) @ 0 # []) =
     Inr (sample_res0\<lparr>tr_failure_reason := Some ''no''\<rparr>, calm_heap) \<and> tr_num_peers sample_res0 = 77 \<and> tr_peers sample_res0 = []"
proof -
  have calm: "calm sample_bc_env calm_heap" using sample_bc_env_ok by (auto simp: calm_def)
  have "good (BDict [(c_lit ''failure reason'', BStr (c_lit ''no''))])" by (simp add: good_str_def c_lit_def info_key_def)
  from parse_content_failure_uninitialised [OF this calm, of "c_lit ''no''" sample_res0 "[]"]
  show ?thesis by (simp add: sample_res0_def) (simp add: c_lit_def)
qed

theorem http_recv_broken_witness:
  "\<exists>t. http_recv (sample_http_sock\<lparr>sk_in := [], sk_broken := True\<rparr>) (replicate 2048 0) 0 =
     Inr (replicate 2048 0, t, sample_http_sock\<lparr>sk_in := [], sk_broken := True\<rparr>) \<and> \<not> (t < 2048)"
  by (rule http_recv_broken) simp_all

end
