(* ===== verification/Tracker_Announce.thy ===== *)
theory Tracker_Announce
  imports Udp_Announce Http_Announce
begin

text \<open>
  \<open>src/tracker/https/tracker_https.c\<close> and \<open>src/tracker/tracker_announce.c\<close>: the announce over HTTPS, which
  leaves the transport to libcurl, and the choice between the three ways to a tracker.
\<close>

section \<open>HTTPS\<close>

record curl_response_t =
  cr_data :: "byte list"
  cr_size :: nat

text \<open>Every chunk is stored at the start of \<open>data\<close>, over the one before.\<close>

definition write_callback :: "byte list \<Rightarrow> curl_response_t \<Rightarrow> curl_response_t c_result" where
  "write_callback ptr res =
     c_bind (c_assert (length ptr \<le> 4096)) (\<lambda>_.
     c_bind (mem_write (cr_data res) 0 ptr) (\<lambda>d. Inr (res\<lparr>cr_data := d, cr_size := length ptr\<rparr>)))"

primrec write_chunks :: "byte list list \<Rightarrow> curl_response_t \<Rightarrow> curl_response_t c_result" where
  "write_chunks [] res = Inr res"
| "write_chunks (c # cs) res = c_bind (write_callback c res) (write_chunks cs)"

text \<open>
  What the code uses of other software. \<open>te_curl_init\<close>: \<open>curl_easy_init\<close> succeeds; \<open>te_curl url\<close>: the chunks
  that \<open>curl_easy_perform\<close> passes to the callback for this address, and whether it returns \<open>CURLE_OK\<close>;
  \<open>te_escape\<close>: \<open>curl_easy_escape\<close>; \<open>te_resolve host port dgram\<close>: the addresses of \<open>getaddrinfo\<close>, for each
  whether \<open>socket\<close> and \<open>connect\<close> succeed. \<open>te_clock\<close>, \<open>te_rand_r\<close>: see \<open>Tracker_Udp\<close>; \<open>te_bc\<close>, \<open>te_slack\<close>,
  \<open>te_res0\<close>: see \<open>Bencode\<close> and \<open>Tracker_Http\<close>.
\<close>

record tracker_env =
  te_curl_init :: bool
  te_curl :: "string \<Rightarrow> byte list list \<times> bool"
  te_escape :: "byte list \<Rightarrow> string option"
  te_resolve :: "string option \<Rightarrow> string \<Rightarrow> bool \<Rightarrow> (bool \<times> bool) list option"
  te_clock :: "nat \<Rightarrow> int"
  te_rand_r :: "u32 \<Rightarrow> u32"
  te_bc :: bc_env
  te_slack :: "byte list"
  te_res0 :: tracker_response_t

text \<open>\<open>junk\<close> is the uninitialised \<open>req_buf[1024]\<close>.\<close>

definition https_url ::
  "(byte list \<Rightarrow> string option) \<Rightarrow> url_t \<Rightarrow> tracker_request_t \<Rightarrow> byte list \<Rightarrow> (string \<times> tracker_request_t) c_result" where
  "https_url escape url req junk =
     c_bind (deref (url_host url)) (\<lambda>host.
     c_bind (deref (url_path url)) (\<lambda>path.
     c_bind (snprintf junk 0 1024 (''https://'' @ host @ '':'' @ dec_str (unat (url_port url)) @ ''/'' @ path)) (\<lambda>(nb, m1).
     c_bind (build_http_url escape req m1 nb (size_sub 1024 nb)) (\<lambda>(n, m2, req').
     c_bind (arr_set m2 (nb + n) 0) (\<lambda>m3. Inr (c_str (takeWhile (\<lambda>b. b \<noteq> 0) m3), req'))))))"

definition https_announce ::
  "tracker_env \<Rightarrow> c_heap \<Rightarrow> url_t \<Rightarrow> tracker_request_t \<Rightarrow> (tracker_response_t option \<times> tracker_request_t \<times> c_heap) c_result" where
  "https_announce env h url req =
     (if \<not> te_curl_init env then Inr (None, req, h)
      else c_bind (https_url (te_escape env) url req (map (heap_junk h) [0..<1024])) (\<lambda>(address, req').
        case te_curl env address of (chunks, ok) \<Rightarrow>
          c_bind (write_chunks chunks \<lparr>cr_data = replicate 4096 0, cr_size = 0\<rparr>) (\<lambda>response.
            if \<not> ok then Inr (None, req', h)
            else c_bind (parse_content (te_bc env) h (te_res0 env)
                           (cr_data response @ u64_mem (of_nat (cr_size response)) @ te_slack env)) (\<lambda>(res, h').
                   Inr (Some res, req', h')))))"

section \<open>Connecting\<close>

text \<open>The loop over the addresses: the first one to which a socket can be opened and connected.\<close>

fun connect_first :: "(bool \<times> bool) list \<Rightarrow> bool" where
  "connect_first [] = False"
| "connect_first ((socket_ok, connect_ok) # rest) =
     (if \<not> socket_ok then connect_first rest else if \<not> connect_ok then connect_first rest else True)"

definition tracker_connect :: "tracker_env \<Rightarrow> url_t \<Rightarrow> bool c_result" where
  "tracker_connect env url =
     c_bind (snprintf (replicate 6 0) 0 6 (dec_str (unat (url_port url)))) (\<lambda>(n, port).
     c_bind (arr_set port n 0) (\<lambda>port'.
       Inr (case te_resolve env (url_host url) (c_str (takeWhile (\<lambda>b. b \<noteq> 0) port')) (url_protocol url = PROTOCOL_UDP) of
              None \<Rightarrow> False
            | Some addrs \<Rightarrow> connect_first addrs)))"

section \<open>The announce\<close>

text \<open>
  The response, the request (whose flags may have changed), the heap and the number of sockets left open.
  \<open>sk\<close> and \<open>us\<close> are the sockets that \<open>connect\<close> would give. An unknown protocol is noticed only after the
  connection is made, and the socket is not closed.
\<close>

definition tracker_announce ::
  "tracker_env \<Rightarrow> c_heap \<Rightarrow> sock \<Rightarrow> udp_sock \<Rightarrow> url_t \<Rightarrow> tracker_request_t \<Rightarrow>
   (tracker_response_t option \<times> tracker_request_t \<times> c_heap \<times> nat) c_result" where
  "tracker_announce env h sk us url req =
     (if url_protocol url = PROTOCOL_HTTPS
      then c_bind (https_announce env h url req) (\<lambda>(res, req', h'). Inr (res, req', h', 0))
      else c_bind (tracker_connect env url) (\<lambda>ok.
        if \<not> ok then Inr (None, req, h, 0)
        else case url_protocol url of
          PROTOCOL_HTTP \<Rightarrow>
            c_bind (http_announce (te_bc env) (te_escape env) h (te_res0 env) (te_slack env) sk url req) (\<lambda>(res, req', sk', h').
              Inr (res, req', h', 0))
        | PROTOCOL_UDP \<Rightarrow>
            c_bind (udp_announce (te_clock env) (te_rand_r env) req h us) (\<lambda>(res, us', h'). Inr (res, req, h', 0))
        | PROTOCOL_HTTPS \<Rightarrow> Inl Assert_Failed
        | PROTOCOL_UNKNOWN \<Rightarrow> Inr (None, req, h, 1)))"

section \<open>Properties\<close>

lemma dec_str_no_nul: "CHR 0x00 \<notin> set (dec_str n)"
  using dec_str_range [of "CHR 0x00" n] by auto

lemma https_url_ok:
  assumes url: "url_path url = Some path" "url_host url = Some host" "CHR 0x00 \<notin> set path" "CHR 0x00 \<notin> set host"
    and esc: "escape (tq_info_hash req) = Some eh" "escape (tq_peer_id req) = Some ei" "CHR 0x00 \<notin> set eh" "CHR 0x00 \<notin> set ei"
    and t: "t = (''https://'' @ host @ '':'' @ dec_str (unat (url_port url)) @ ''/'' @ path) @ url_query eh ei req" "length t < 1024"
    and "length junk = 1024"
  shows "https_url escape url req junk = Inr (t, req\<lparr>tq_flags := tq_flags req AND COMPACT\<rparr>)"
proof -
  define a where "a = ''https://'' @ host @ '':'' @ dec_str (unat (url_port url)) @ ''/'' @ path"
  define q where "q = url_query eh ei req"
  have l: "length a + length q < 1024" using t by (simp add: a_def q_def)
  obtain m1 where m1: "snprintf junk 0 1024 a = Inr (length a, m1)" "printed junk 0 a m1"
    using snprintf_ok [of a 1024 0 junk] l assms(11) by auto
  have sub: "size_sub 1024 (length a) = 1024 - length a" using l by (intro size_sub_exact) simp_all
  have u: "length (url_query eh ei req) < 1024 - length a" "length a + (1024 - length a) \<le> length m1" "1024 - length a < 2 ^ 64"
    using l assms(11) m1(2) by (simp_all add: q_def [symmetric] printed_def)
  obtain m2 where build: "build_http_url escape req m1 (length a) (1024 - length a) = Inr (length q, m2, req\<lparr>tq_flags := tq_flags req AND COMPACT\<rparr>)"
    and pq: "printed m1 (length a) q m2"
    using build_http_url_ok [of escape req, OF esc(1,2) u] unfolding q_def by blast
  have p: "printed junk 0 t m2" using printed_append [OF m1(2), of q m2] pq t(1) by (simp add: a_def q_def)
  have tl: "length a + length q = length t" using t(1) by (simp add: a_def q_def)
  have nul: "CHR 0x00 \<notin> set t" using url(3,4) esc(3,4) dec_str_no_nul t(1) by (auto simp: url_query_def query_texts_def flag_texts_def)
  have m2: "m2[length t := 0] = c_lit t @ 0 # drop (Suc (length t)) m2" "length t < length m2"
    using p t(2) assms(11) by (simp_all add: printed_def upd_conv_take_nth_drop)
  have "takeWhile (\<lambda>b. b \<noteq> 0) (c_lit t @ 0 # drop (Suc (length t)) m2) = c_lit t"
    using c_lit_no_nul [OF nul] by (subst takeWhile_append2) auto
  then have z: "c_str (takeWhile (\<lambda>b. b \<noteq> 0) (m2[length t := 0])) = t" unfolding m2(1) by simp
  have "https_url escape url req junk = c_bind (arr_set m2 (length t) 0) (\<lambda>m3. Inr (c_str (takeWhile (\<lambda>b. b \<noteq> 0) m3), req\<lparr>tq_flags := tq_flags req AND COMPACT\<rparr>))"
    unfolding https_url_def url deref_def option.case c_bind_simps a_def [symmetric] m1(1) prod.case sub build tl by (rule refl)
  then show ?thesis using m2(2) z by simp
qed

definition https_text :: "string \<Rightarrow> u16 \<Rightarrow> string \<Rightarrow> string \<Rightarrow> string" where
  "https_text host port path query = (''https://'' @ host @ '':'' @ dec_str (unat port) @ ''/'' @ path) @ query"

lemma write_chunks_one:
  assumes "length c \<le> 4096"
  shows "write_chunks [c] \<lparr>cr_data = replicate 4096 0, cr_size = 0\<rparr> = Inr \<lparr>cr_data = c @ replicate (4096 - length c) 0, cr_size = length c\<rparr>"
  using assms by (simp add: write_callback_def mem_write_def)

lemma https_announce_ok:
  assumes "te_curl_init env" and "url_path url = Some path" and "url_host url = Some host" and "CHR 0x00 \<notin> set path" and "CHR 0x00 \<notin> set host"
    and "te_escape env (tq_info_hash req) = Some eh" and "te_escape env (tq_peer_id req) = Some ei" and "CHR 0x00 \<notin> set eh" and "CHR 0x00 \<notin> set ei"
    and "length (https_text host (url_port url) path (url_query eh ei req)) < 1024"
    and "te_curl env (https_text host (url_port url) path (url_query eh ei req)) = ([enc (BDict kvs)], True)"
    and "length (enc (BDict kvs)) < 4096" and "good (BDict kvs)" and "calm (te_bc env) h" and "response_says (map_of kvs) i c n ps"
  shows "https_announce env h url req =
      Inr (Some (te_res0 env\<lparr>tr_interval := i, tr_complete := c, tr_incomplete := n, tr_num_peers := length ps, tr_peers := ps\<rparr>),
           req\<lparr>tq_flags := tq_flags req AND COMPACT\<rparr>, h)"
proof -
  let ?t = "https_text host (url_port url) path (url_query eh ei req)" and ?e = "enc (BDict kvs)"
  have u: "https_url (te_escape env) url req (map (heap_junk h) [0..<1024]) = Inr (?t, req\<lparr>tq_flags := tq_flags req AND COMPACT\<rparr>)"
    using assms(10) by (intro https_url_ok [of url path host, OF assms(2-9)]) (simp_all add: https_text_def)
  have w: "write_chunks [?e] \<lparr>cr_data = replicate 4096 0, cr_size = 0\<rparr> = Inr \<lparr>cr_data = ?e @ replicate (4096 - length ?e) 0, cr_size = length ?e\<rparr>"
    using assms(12) by (intro write_chunks_one) simp
  have "replicate (4096 - length ?e) (0 :: byte) = 0 # replicate (4095 - length ?e) 0"
    using assms(12) by (simp add: replicate_Suc [symmetric] Suc_diff_le del: replicate_Suc enc.simps)
  then have z: "(?e @ replicate (4096 - length ?e) 0) @ rest = ?e @ 0 # (replicate (4095 - length ?e) 0 @ rest)" for rest by simp
  note pc = parse_content_ok [OF assms(13-15)]
  have "https_announce env h url req =
    c_bind (write_chunks [?e] \<lparr>cr_data = replicate 4096 0, cr_size = 0\<rparr>) (\<lambda>response.
      c_bind (parse_content (te_bc env) h (te_res0 env) (cr_data response @ u64_mem (of_nat (cr_size response)) @ te_slack env)) (\<lambda>(res, h').
        Inr (Some res, req\<lparr>tq_flags := tq_flags req AND COMPACT\<rparr>, h')))"
    using assms(1,11) u by (simp add: https_announce_def del: write_chunks.simps enc.simps upt_conv_Cons)
  also have "\<dots> = c_bind (parse_content (te_bc env) h (te_res0 env) (?e @ 0 # (replicate (4095 - length ?e) 0 @ u64_mem (of_nat (length ?e)) @ te_slack env)))
      (\<lambda>(res, h'). Inr (Some res, req\<lparr>tq_flags := tq_flags req AND COMPACT\<rparr>, h'))"
    unfolding w c_bind_simps curl_response_t.simps z by (rule refl)
  finally show ?thesis unfolding pc by simp
qed

text \<open>
  C25. The announce over HTTPS asks libcurl for the address with the escaped ids, the port and the counters, and
  reads a response that arrives in one chunk as its interval, numbers and peers.
\<close>
theorem https_announce_answered:
  assumes "te_curl_init env" and "url_path url = Some path" and "url_host url = Some host" and "CHR 0x00 \<notin> set path" and "CHR 0x00 \<notin> set host"
    and "te_escape env (tq_info_hash req) = Some eh" and "te_escape env (tq_peer_id req) = Some ei" and "CHR 0x00 \<notin> set eh" and "CHR 0x00 \<notin> set ei"
    and "length (https_text host (url_port url) path (url_query eh ei req)) < 1024"
    and "te_curl env (https_text host (url_port url) path (url_query eh ei req)) = ([enc (BDict kvs)], True)"
    and "length (enc (BDict kvs)) < 4096" and "good (BDict kvs)" and "calm (te_bc env) h" and "response_says (map_of kvs) i c n ps"
  shows "https_announce env h url req =
      Inr (Some (te_res0 env\<lparr>tr_interval := i, tr_complete := c, tr_incomplete := n, tr_num_peers := length ps, tr_peers := ps\<rparr>),
           req\<lparr>tq_flags := tq_flags req AND COMPACT\<rparr>, h)"
  by (rule https_announce_ok [OF assms])

text \<open>
  A response that libcurl delivers in several chunks is lost but for the end: every chunk is written over
  the start of the buffer, so that after two chunks of the same length only the second one is left.
\<close>
theorem https_chunks_overwrite:
  assumes "length a = length b" and "length b \<le> 4096"
  shows "write_chunks [a, b] \<lparr>cr_data = replicate 4096 0, cr_size = 0\<rparr> = write_chunks [b] \<lparr>cr_data = replicate 4096 0, cr_size = 0\<rparr>"
  using assms by (simp add: write_callback_def mem_write_def)

lemma connect_first_iff: "connect_first addrs \<longleftrightarrow> (True, True) \<in> set addrs"
  by (induction addrs rule: connect_first.induct) auto

lemma dec_str_length: "n < 2 ^ 16 \<Longrightarrow> length (dec_str n) \<le> 5"
  by (simp add: dec_str_def) (rule dec_length, simp_all)

lemma tracker_connect_eq:
  "tracker_connect env url = Inr (\<exists>addrs. te_resolve env (url_host url) (dec_str (unat (url_port url))) (url_protocol url = PROTOCOL_UDP) = Some addrs \<and>
     (True, True) \<in> set addrs)"
proof -
  let ?p = "dec_str (unat (url_port url))"
  have "unat (url_port url) < 2 ^ 16" using unsigned_less [of "url_port url", where 'a = nat] by simp
  then have l: "length ?p \<le> 5" by (rule dec_str_length)
  obtain m where m: "snprintf (replicate 6 0) 0 6 ?p = Inr (length ?p, m)" "printed (replicate 6 0) 0 ?p m"
    using snprintf_ok [of ?p 6 0 "replicate 6 0"] l by auto
  have m2: "m[length ?p := 0] = c_lit ?p @ 0 # drop (Suc (length ?p)) m" "length ?p < length m"
    using m(2) l by (simp_all add: printed_def upd_conv_take_nth_drop)
  have "takeWhile (\<lambda>b. b \<noteq> 0) (c_lit ?p @ 0 # drop (Suc (length ?p)) m) = c_lit ?p"
    using c_lit_no_nul [OF dec_str_no_nul] by (subst takeWhile_append2) auto
  then have "c_str (takeWhile (\<lambda>b. b \<noteq> 0) (m[length ?p := 0])) = ?p" unfolding m2(1) by simp
  then show ?thesis using m(1) m2(2) by (auto simp: tracker_connect_def connect_first_iff split: option.split)
qed

text \<open>
  \<open>tracker_connect\<close> resolves the host with the decimal port and connects exactly when \<open>getaddrinfo\<close> knows an
  address for which both a socket can be opened and the connection made.
\<close>
theorem tracker_connect_iff:
  "tracker_connect env url = Inr (\<exists>addrs. te_resolve env (url_host url) (dec_str (unat (url_port url))) (url_protocol url = PROTOCOL_UDP) = Some addrs \<and>
     (True, True) \<in> set addrs)"
  by (rule tracker_connect_eq)

section \<open>Examples\<close>

definition sample_tracker_env :: tracker_env where
  "sample_tracker_env = \<lparr>te_curl_init = True, te_curl = \<lambda>_. ([enc (BDict sample_response_kvs)], True), te_escape = \<lambda>_. Some ''x'',
     te_resolve = \<lambda>_ _ _. Some [(True, True)], te_clock = \<lambda>_. 0, te_rand_r = \<lambda>_. 7, te_bc = sample_bc_env, te_slack = [], te_res0 = sample_res0\<rparr>"

lemma sample_https_lengths:
  "length (https_text ''a.b'' (url_port sample_url) ''c'' (url_query ''x'' ''x'' sample_announce)) < 1024"
  "length (enc (BDict sample_response_kvs)) < 4096"
proof -
  show "length (https_text ''a.b'' (url_port sample_url) ''c'' (url_query ''x'' ''x'' sample_announce)) < 1024"
    by (simp add: https_text_def url_query_def query_texts_def flag_texts_def sample_announce_def sample_url_def dec_str_def dec.simps)
  show "length (enc (BDict sample_response_kvs)) < 4096"
    unfolding sample_response_kvs_def sample_wire by (simp add: dec.simps dec_int_def)
qed

theorem https_announce_answered_witness:
  "https_announce sample_tracker_env calm_heap sample_url sample_announce =
      Inr (Some (te_res0 sample_tracker_env\<lparr>tr_interval := 1800, tr_complete := 5, tr_incomplete := 4, tr_num_peers := 1, tr_peers := [sample_peer]\<rparr>),
           sample_announce\<lparr>tq_flags := tq_flags sample_announce AND COMPACT\<rparr>, calm_heap)"
proof -
  have calm: "calm (te_bc sample_tracker_env) calm_heap" using sample_bc_env_ok by (auto simp: calm_def sample_tracker_env_def)
  from https_announce_answered [of sample_tracker_env sample_url "''c''" "''a.b''" sample_announce "''x''" "''x''" sample_response_kvs,
      OF _ _ _ _ _ _ _ _ _ sample_https_lengths(1) _ sample_https_lengths(2) sample_response_ok(1) calm sample_response_ok(2)]
  show ?thesis by (simp add: sample_tracker_env_def sample_url_def)
qed

theorem https_chunks_overwrite_witness:
  "write_chunks [[1, 2], [3, 4]] \<lparr>cr_data = replicate 4096 0, cr_size = 0\<rparr> = write_chunks [[3, 4]] \<lparr>cr_data = replicate 4096 0, cr_size = 0\<rparr>"
  by (rule https_chunks_overwrite) simp_all

end
