(* ===== verification/Client.thy ===== *)
theory Client
  imports Tracker_Announce Swarm_Reach
begin

text \<open>
  \<open>src/main.c\<close>: start-up, the loop that announces the torrent and starts a thread per peer, and the whole
  program: this loop beside the connection threads of \<open>Swarm_Reach\<close>. The peer id is an argument: creating
  it (\<open>Peer_Id\<close>) writes a byte out of bounds in every run, and the rest is modelled for runs in which that
  byte does no harm.
\<close>

definition TRACKER_RETRY_INTERVAL :: u32 where "TRACKER_RETRY_INTERVAL = 15"

text \<open>\<open>cl_spawned\<close>: the threads started so far with their peers; \<open>cl_events\<close>: the events of the requests sent.\<close>

record client =
  cl_torrent :: metainfo_t
  cl_url :: url_t
  cl_started :: bool
  cl_completed :: bool
  cl_interval :: u32
  cl_spawned :: "(peer_t \<times> nat) list"
  cl_events :: "tracker_event_t list"
  cl_heap :: c_heap

section \<open>Starting a connection\<close>

text \<open>\<open>spawn k\<close>: the thread that the \<open>k\<close>-th successful call of \<open>pthread_create\<close> returns, \<open>None\<close> if it fails.\<close>

definition peer_connection_create :: "(nat \<Rightarrow> nat option) \<Rightarrow> client \<Rightarrow> peer_t \<Rightarrow> nat option \<times> client" where
  "peer_connection_create spawn c peer =
     (case spawn (length (cl_spawned c)) of
        None \<Rightarrow> (None, c)
      | Some t \<Rightarrow> (Some t, c\<lparr>cl_spawned := cl_spawned c @ [(peer, t)]\<rparr>))"

text \<open>The limit is tested after the thread was started.\<close>

definition create_peer_connection :: "(nat \<Rightarrow> nat option) \<Rightarrow> client \<Rightarrow> peer_t \<Rightarrow> (int \<times> client) c_result" where
  "create_peer_connection spawn c peer =
     (case alloc (cl_heap c) of (ok, h1) \<Rightarrow>
        let c1 = c\<lparr>cl_heap := h1\<rparr> in
        if \<not> ok then Inr (-1, c1)
        else case peer_connection_create spawn c1 peer of
          (None, c2) \<Rightarrow> Inr (-1, c2)
        | (Some thread, c2) \<Rightarrow>
            let torrent = cl_torrent c2; conns = sh_peer_connections (mi_sh torrent) in
            if mi_max_peers torrent = da_len conns then Inr (0, c2)
            else c_bind (da_append (cl_heap c2) conns \<lparr>conn_peer = peer, conn_thread = thread\<rparr>) (\<lambda>(conns', h2).
                   Inr (0, c2\<lparr>cl_torrent := torrent\<lparr>mi_sh := (mi_sh torrent)\<lparr>sh_peer_connections := conns'\<rparr>\<rparr>,
                              cl_heap := h2\<rparr>)))"

fun peers_round :: "(nat \<Rightarrow> nat option) \<Rightarrow> peer_t list \<Rightarrow> nat list \<Rightarrow> client \<Rightarrow> client c_result" where
  "peers_round spawn peers [] c = Inr c"
| "peers_round spawn peers (i # is) c =
     c_bind (arr_get peers i) (\<lambda>p.
     c_bind (create_peer_connection spawn c p) (\<lambda>(r, c'). peers_round spawn peers is c'))"

section \<open>The loop\<close>

text \<open>
  A round up to the loop over the peers: the response's peers and \<open>num_peers\<close>. A request that could not be
  allocated is dereferenced at the latest when it is sent; the model stops at once.
\<close>

definition main_announce ::
  "byte list \<Rightarrow> tracker_env \<Rightarrow> sock \<Rightarrow> udp_sock \<Rightarrow> client \<Rightarrow> (peer_t list \<times> nat \<times> client) c_result" where
  "main_announce peer_id env sk us c =
     (case build_tracker_announce_request (cl_heap c) peer_id (cl_torrent c) of (r, h1) \<Rightarrow>
        c_bind (deref r) (\<lambda>req0.
          let req1 = (if \<not> cl_started c then req0\<lparr>tq_event := EVENT_STARTED\<rparr> else req0);
              read_completed = sh_completed (mi_sh (cl_torrent c));
              req = (if \<not> cl_completed c \<and> read_completed then req1\<lparr>tq_event := EVENT_COMPLETED\<rparr> else req1) in
          c_bind (tracker_announce env h1 sk us (cl_url c) req) (\<lambda>(res, req', h2, fds).
            let c1 = c\<lparr>cl_started := True, cl_completed := read_completed, cl_events := cl_events c @ [tq_event req],
                       cl_heap := h2\<rparr> in
            Inr (case res of
                   None \<Rightarrow> ([], 0, c1\<lparr>cl_interval := TRACKER_RETRY_INTERVAL\<rparr>)
                 | Some response \<Rightarrow>
                     (tr_peers response, tr_num_peers response, c1\<lparr>cl_interval := tr_interval response\<rparr>)))))"

definition main_round ::
  "(nat \<Rightarrow> nat option) \<Rightarrow> byte list \<Rightarrow> tracker_env \<Rightarrow> sock \<Rightarrow> udp_sock \<Rightarrow> client \<Rightarrow> client c_result" where
  "main_round spawn peer_id env sk us c =
     c_bind (main_announce peer_id env sk us c) (\<lambda>(peers, num_peers, c1). peers_round spawn peers [0..<num_peers] c1)"

text \<open>
  The loop. While the main thread sleeps the connection threads go on: \<open>mw_threads\<close> is what they make of the torrent
  before the next round; the other fields are what the system gives to that round.
\<close>

record main_world =
  mw_threads :: "metainfo_t \<Rightarrow> metainfo_t"
  mw_spawn :: "nat \<Rightarrow> nat option"
  mw_tracker :: tracker_env
  mw_sock :: sock
  mw_udp :: udp_sock

fun main_loop :: "byte list \<Rightarrow> main_world list \<Rightarrow> client \<Rightarrow> client c_result" where
  "main_loop peer_id [] c = Inr c"
| "main_loop peer_id (w # ws) c =
     c_bind (main_round (mw_spawn w) peer_id (mw_tracker w) (mw_sock w) (mw_udp w) (c\<lparr>cl_torrent := mw_threads w (cl_torrent c)\<rparr>))
       (main_loop peer_id ws)"

text \<open>
  Start-up after the peer id: \<open>None\<close> is the usage message. Without \<open>announce\<close> the first entry of
  \<open>announce_list\<close> is read, which is a NULL pointer when the file has no list, and behind the block when the
  list is empty: both are one error here.
\<close>

definition main_start ::
  "bc_env \<Rightarrow> (nat \<Rightarrow> os_file) \<Rightarrow> c_heap \<Rightarrow> nat \<Rightarrow> byte list option \<Rightarrow> byte list \<Rightarrow> byte \<Rightarrow> Token \<Rightarrow> Token \<Rightarrow> client option c_result" where
  "main_start env os h argc content slack ch0 pp pv =
     (if argc < 2 then Inr None
      else c_bind (parse_file env os h content slack ch0 pp pv) (\<lambda>(m, calls, h1).
        let torrent = m\<lparr>mi_max_peers := 50\<rparr> in
        c_bind (case mi_announce torrent of
                  Some a \<Rightarrow> Inr a
                | None \<Rightarrow> (case mi_announce_list torrent of [] \<Rightarrow> Inl Null_Deref | a # _ \<Rightarrow> deref a)) (\<lambda>address.
        c_bind (url_from_string h1 address) (\<lambda>(url, h2).
          Inr (Some \<lparr>cl_torrent = torrent, cl_url = url, cl_started = False, cl_completed = False, cl_interval = 0,
                     cl_spawned = [], cl_events = [], cl_heap = h2\<rparr>)))))"

section \<open>The whole program\<close>

text \<open>
  The main thread with the peers it still has to connect to in this round, beside the connection threads.
  The torrent is shared: the main thread's \<open>cl_torrent\<close> counts only inside its steps.
\<close>

record process =
  pr_client :: client
  pr_swarm :: swarm
  pr_peers :: "peer_t list"
  pr_todo :: "nat list"

definition main_view :: "process \<Rightarrow> client" where
  "main_view p = (pr_client p)\<lparr>cl_torrent := sw_torrent (pr_swarm p)\<rparr>"

definition main_publish :: "process \<Rightarrow> client \<Rightarrow> process" where
  "main_publish p c = p\<lparr>pr_client := c, pr_swarm := (pr_swarm p)\<lparr>sw_torrent := cl_torrent c\<rparr>\<rparr>"

definition launch :: "client \<Rightarrow> process" where
  "launch c = \<lparr>pr_client = c, pr_swarm = \<lparr>sw_torrent = cl_torrent c, sw_queues = Map.empty, sw_conns = []\<rparr>, pr_peers = [], pr_todo = []\<rparr>"

inductive client_step :: "env_t \<Rightarrow> process \<Rightarrow> process \<Rightarrow> bool" for env where
  announce: "pr_todo p = [] \<Longrightarrow> main_announce peer_id tenv sk us (main_view p) = Inr (peers, n, c') \<Longrightarrow>
     client_step env p ((main_publish p c')\<lparr>pr_peers := peers, pr_todo := [0..<n]\<rparr>)"
| connect: "pr_todo p = i # is \<Longrightarrow> arr_get (pr_peers p) i = Inr peer \<Longrightarrow>
     create_peer_connection spawn (main_view p) peer = Inr (r, c') \<Longrightarrow> client_step env p ((main_publish p c')\<lparr>pr_todo := is\<rparr>)"
| thread: "swarm_step env (pr_swarm p) s' \<Longrightarrow> client_step env p (p\<lparr>pr_swarm := s'\<rparr>)"

abbreviation client_run :: "env_t \<Rightarrow> process \<Rightarrow> process \<Rightarrow> bool" where
  "client_run env \<equiv> (client_step env)\<^sup>*\<^sup>*"

section \<open>What every run keeps\<close>

text \<open>
  At most \<open>max_peers\<close> connections are recorded, each of a thread that was started for this peer; the
  tracker has heard \<open>completed\<close> once if the main thread has seen the torrent completed, else never.
\<close>

definition client_inv :: "client \<Rightarrow> bool" where
  "client_inv c \<longleftrightarrow> (let conns = da_values (sh_peer_connections (mi_sh (cl_torrent c))) in
     mi_max_peers (cl_torrent c) = 50 \<and> length conns \<le> 50 \<and>
     set (map (\<lambda>p. (conn_peer p, conn_thread p)) conns) \<subseteq> set (cl_spawned c) \<and>
     count_list (cl_events c) EVENT_COMPLETED = (if cl_completed c then 1 else 0) \<and>
     (cl_completed c \<longrightarrow> sh_completed (mi_sh (cl_torrent c))))"

lemma client_inv_heap [simp]: "client_inv (c\<lparr>cl_heap := h\<rparr>) = client_inv c"
  by (simp add: client_inv_def)

lemma create_cases:
  assumes "create_peer_connection spawn c peer = Inr (r, c')"
  obtains (failed) h where "r = -1" "c' = c\<lparr>cl_heap := h\<rparr>"
  | (full) h t where "r = 0" "da_len (sh_peer_connections (mi_sh (cl_torrent c))) = mi_max_peers (cl_torrent c)"
      "c' = c\<lparr>cl_heap := h, cl_spawned := cl_spawned c @ [(peer, t)]\<rparr>"
  | (recorded) h1 h2 t d where "r = 0" "da_len (sh_peer_connections (mi_sh (cl_torrent c))) \<noteq> mi_max_peers (cl_torrent c)"
      "da_append h1 (sh_peer_connections (mi_sh (cl_torrent c))) \<lparr>conn_peer = peer, conn_thread = t\<rparr> = Inr (d, h2)"
      "c' = c\<lparr>cl_spawned := cl_spawned c @ [(peer, t)],
         cl_torrent := (cl_torrent c)\<lparr>mi_sh := (mi_sh (cl_torrent c))\<lparr>sh_peer_connections := d\<rparr>\<rparr>, cl_heap := h2\<rparr>"
proof -
  obtain ok h1 where a: "alloc (cl_heap c) = (ok, h1)" by (cases "alloc (cl_heap c)")
  consider "\<not> ok \<or> spawn (length (cl_spawned c)) = None" | t where "ok" "spawn (length (cl_spawned c)) = Some t" by (cases "spawn (length (cl_spawned c))") auto
  then show thesis
  proof cases
    case 1
    then show thesis using assms a failed [of h1]
      by (cases ok) (auto simp: create_peer_connection_def peer_connection_create_def Let_def)
  next
    case (2 t)
    show thesis
    proof (cases "mi_max_peers (cl_torrent c) = da_len (sh_peer_connections (mi_sh (cl_torrent c)))")
      case True
      then show thesis using assms a 2 full
        by (auto simp: create_peer_connection_def peer_connection_create_def Let_def)
    next
      case False
      then show thesis using assms a 2 recorded
        by (auto simp: create_peer_connection_def peer_connection_create_def Let_def c_bind_eq_Inr)
    qed
  qed
qed

lemma create_peer_connection_inv:
  assumes "create_peer_connection spawn c peer = Inr (r, c')" and "client_inv c" 
  shows "client_inv c'"
  using assms(1)
proof (cases rule: create_cases)
  case (full h t)
  then show ?thesis using assms(2) by (auto simp: client_inv_def Let_def)
next
  case (recorded h1 h2 t d)
  then show ?thesis using assms(2) da_append_values [OF recorded(3)] by (auto simp: client_inv_def Let_def da_len_def)
qed (use assms(2) in simp)

lemma missing_conns [simp]: "missing (s\<lparr>sh_peer_connections := d\<rparr>) = missing s"
  by (simp add: missing_def)

lemma create_peer_connection_torrent:
  "create_peer_connection spawn c peer = Inr (r, c') \<Longrightarrow> torrent_inv info (cl_torrent c) \<Longrightarrow> torrent_inv info (cl_torrent c')"
  by (erule create_cases) (simp_all add: torrent_inv_def sh_inv_def)

lemma announce_cases:
  assumes "main_announce peer_id tenv sk us c = Inr (peers, n, c')"
  shows "cl_torrent c' = cl_torrent c \<and> cl_spawned c' = cl_spawned c \<and> cl_completed c' = sh_completed (mi_sh (cl_torrent c)) \<and>
    cl_events c' = cl_events c @ [if \<not> cl_completed c \<and> sh_completed (mi_sh (cl_torrent c)) then EVENT_COMPLETED else EVENT_STARTED]"
proof -
  obtain ok h where a: "alloc (cl_heap c) = (ok, h)" by (cases "alloc (cl_heap c)")
  show ?thesis
    using assms a
    by (cases ok) (auto simp: main_announce_def build_tracker_announce_request_def Let_def deref_def c_bind_eq_Inr SET_FLAG_def split: option.splits)
qed

lemma main_announce_inv:
  "main_announce peer_id tenv sk us c = Inr (peers, n, c') \<Longrightarrow> client_inv c \<Longrightarrow> client_inv c'"
  using announce_cases [of peer_id tenv sk us c peers n c'] by (auto simp: client_inv_def Let_def)

lemma sh_run_keeps:
  "sh_run s es s' \<Longrightarrow> sh_peer_connections s' = sh_peer_connections s \<and> (sh_completed s \<longrightarrow> sh_completed s')"
  by (induction rule: sh_run.induct) (auto elim!: sh_stepE)

lemma client_inv_shared:
  assumes "shared_le (view s c) t" and "client_inv (k\<lparr>cl_torrent := sw_torrent s\<rparr>)"
  shows "client_inv (k\<lparr>cl_torrent := cn_torrent t\<rparr>)"
proof -
  from assms(1) obtain es where "sh_run (mi_sh (sw_torrent s)) es (mi_sh (cn_torrent t))" "mi_max_peers (cn_torrent t) = mi_max_peers (sw_torrent s)"
    by (auto simp: shared_le_def view_def)
  then show ?thesis using assms(2) sh_run_keeps by (auto simp: client_inv_def Let_def)
qed

definition process_inv :: "info_t \<Rightarrow> process \<Rightarrow> bool" where
  "process_inv info p \<longleftrightarrow> torrent_inv info (sw_torrent (pr_swarm p)) \<and> client_inv (main_view p)"

lemma main_publish_simps [simp]:
  "main_view (main_publish p c) = c" "main_view (p\<lparr>pr_peers := ps\<rparr>) = main_view p" "main_view (p\<lparr>pr_todo := is\<rparr>) = main_view p"
  "sw_torrent (pr_swarm (main_publish p c)) = cl_torrent c" "cl_torrent (main_view p) = sw_torrent (pr_swarm p)"
  by (simp_all add: main_view_def main_publish_def)

lemma client_step_inv:
  assumes "client_step env p p'" and "process_inv info p" and "info_num_pieces info < 2 ^ 32"
  shows "process_inv info p'"
  using assms(1)
proof (cases rule: client_step.cases)
  case (announce peer_id tenv sk us peers n c')
  then show ?thesis
    using assms(2) main_announce_inv [OF announce(3)] announce_cases [OF announce(3)]
    by (simp add: process_inv_def)
next
  case (connect i "is" peer spawn r c')
  then show ?thesis
    using assms(2) create_peer_connection_inv [OF connect(4)] create_peer_connection_torrent [OF connect(4)]
    by (simp add: process_inv_def)
next
  case (thread s')
  note t = assms(2)[unfolded process_inv_def]
  have "client_inv ((pr_client p)\<lparr>cl_torrent := sw_torrent s'\<rparr>)"
    by (rule swarm_step_shared [OF thread(2) conjunct1 [OF t] assms(3)]) (use t client_inv_shared in \<open>auto simp: main_view_def\<close>)
  then show ?thesis using thread swarm_step_inv [OF thread(2) conjunct1 [OF t] assms(3)] by (simp add: process_inv_def main_view_def)
qed

interpretation cl: step_system "client_step env" "\<lambda>p. process_inv info p \<and> info_num_pieces info < 2 ^ 32" for env info
  by unfold_locales (use client_step_inv in blast)

lemma main_start_cases:
  assumes "main_start env os h argc content slack ch0 pp pv = Inr (Some c)"
  shows "sh_fresh (info_num_pieces (mi_info (cl_torrent c))) (mi_sh (cl_torrent c)) \<and> client_inv c \<and> cl_spawned c = [] \<and> cl_events c = []"
proof -
  obtain m calls h1 where m: "parse_file env os h content slack ch0 pp pv = Inr (m, calls, h1)"
    "cl_torrent c = m\<lparr>mi_max_peers := 50\<rparr>" "cl_spawned c = []" "cl_events c = []" "\<not> cl_completed c"
    using assms by (auto simp: main_start_def c_bind_eq_Inr Let_def split: if_splits)
  from parse_file_shape [OF m(1)] m show ?thesis by (simp add: client_inv_def)
qed

section \<open>A round\<close>

text \<open>The threads that a round starts: \<open>pthread_create\<close> returns \<open>thr k\<close> for the \<open>k\<close>-th thread.\<close>

primrec started :: "(nat \<Rightarrow> nat) \<Rightarrow> nat \<Rightarrow> peer_t list \<Rightarrow> (peer_t \<times> nat) list" where
  "started thr k [] = []"
| "started thr k (p # ps) = (p, thr k) # started thr (Suc k) ps"

lemma started_length [simp]: "length (started thr k ps) = length ps"
  by (induction ps arbitrary: k) simp_all

definition connection_of :: "peer_t \<times> nat \<Rightarrow> peer_connection_t" where
  "connection_of x = \<lparr>conn_peer = fst x, conn_thread = snd x\<rparr>"

abbreviation cl_conns :: "client \<Rightarrow> peer_connection_t list" where
  "cl_conns c \<equiv> da_values (sh_peer_connections (mi_sh (cl_torrent c)))"

lemma create_ok:
  assumes "heap_ok (cl_heap c)" and "spawn = (\<lambda>k. Some (thr k))" and "length (cl_conns c) \<le> mi_max_peers (cl_torrent c)"
  shows "\<exists>c'. create_peer_connection spawn c peer = Inr (0, c') \<and> cl_heap c' = cl_heap c \<and> mi_max_peers (cl_torrent c') = mi_max_peers (cl_torrent c) \<and>
    cl_spawned c' = cl_spawned c @ [(peer, thr (length (cl_spawned c)))] \<and> cl_interval c' = cl_interval c \<and> cl_events c' = cl_events c \<and>
    cl_conns c' = take (mi_max_peers (cl_torrent c)) (cl_conns c @ [connection_of (peer, thr (length (cl_spawned c)))])"
proof (cases "mi_max_peers (cl_torrent c) = length (cl_conns c)")
  case True
  let ?c = "c\<lparr>cl_spawned := cl_spawned c @ [(peer, thr (length (cl_spawned c)))]\<rparr>"
  have "create_peer_connection spawn c peer = Inr (0, ?c)"
    using True assms(1,2) by (simp add: create_peer_connection_def peer_connection_create_def Let_def da_len_def)
  then show ?thesis using True by (intro exI [of _ ?c]) simp
next
  case False
  obtain d where d: "da_append (cl_heap c) (sh_peer_connections (mi_sh (cl_torrent c))) (connection_of (peer, thr (length (cl_spawned c)))) = Inr (d, cl_heap c)"
    "da_values d = cl_conns c @ [connection_of (peer, thr (length (cl_spawned c)))]"
    by (rule da_append_ok [OF assms(1)])
  let ?c = "c\<lparr>cl_spawned := cl_spawned c @ [(peer, thr (length (cl_spawned c)))],
    cl_torrent := (cl_torrent c)\<lparr>mi_sh := (mi_sh (cl_torrent c))\<lparr>sh_peer_connections := d\<rparr>\<rparr>\<rparr>"
  have "create_peer_connection spawn c peer = Inr (0, ?c)"
    using False assms(1,2) d(1) by (simp add: create_peer_connection_def peer_connection_create_def Let_def da_len_def connection_of_def)
  then show ?thesis using False assms(3) d(2) by (intro exI [of _ ?c]) simp
qed

lemma take_snoc_take: "length xs \<le> n \<Longrightarrow> take n (take n (xs @ [y]) @ ys) = take n (xs @ y # ys)"
  by (cases "length xs = n") simp_all

lemma peers_round_ok:
  assumes "spawn = (\<lambda>k. Some (thr k))" and "\<forall>i \<in> set is. i < length peers"
  shows "heap_ok (cl_heap c) \<Longrightarrow> length (cl_conns c) \<le> mi_max_peers (cl_torrent c) \<Longrightarrow>
    \<exists>c'. peers_round spawn peers is c = Inr c' \<and> cl_interval c' = cl_interval c \<and> cl_events c' = cl_events c \<and>
      cl_spawned c' = cl_spawned c @ started thr (length (cl_spawned c)) (map ((!) peers) is) \<and>
      cl_conns c' = take (mi_max_peers (cl_torrent c)) (cl_conns c @ map connection_of (started thr (length (cl_spawned c)) (map ((!) peers) is)))"
  using assms(2)
proof (induction "is" arbitrary: c)
  case (Cons i "is")
  obtain c1 where c1: "create_peer_connection spawn c (peers ! i) = Inr (0, c1)" "cl_heap c1 = cl_heap c" "mi_max_peers (cl_torrent c1) = mi_max_peers (cl_torrent c)"
    "cl_spawned c1 = cl_spawned c @ [(peers ! i, thr (length (cl_spawned c)))]" "cl_interval c1 = cl_interval c" "cl_events c1 = cl_events c"
    "cl_conns c1 = take (mi_max_peers (cl_torrent c)) (cl_conns c @ [connection_of (peers ! i, thr (length (cl_spawned c)))])"
    using create_ok [OF Cons.prems(1) assms(1) Cons.prems(2), of "peers ! i"] by blast
  have "length (cl_conns c1) \<le> mi_max_peers (cl_torrent c1)" using c1(3,7) by simp
  then obtain c' where c': "peers_round spawn peers is c1 = Inr c'" "cl_interval c' = cl_interval c1" "cl_events c' = cl_events c1"
      "cl_spawned c' = cl_spawned c1 @ started thr (length (cl_spawned c1)) (map ((!) peers) is)"
      "cl_conns c' = take (mi_max_peers (cl_torrent c1)) (cl_conns c1 @ map connection_of (started thr (length (cl_spawned c1)) (map ((!) peers) is)))"
    using Cons.IH [of c1] Cons.prems(1,3) c1(2) by auto
  have "cl_conns c' = take (mi_max_peers (cl_torrent c)) (cl_conns c @ map connection_of (started thr (length (cl_spawned c)) (map ((!) peers) (i # is))))"
    unfolding c'(5) c1(3,4,7) list.map started.simps length_append length_Cons list.size add_0_right add_Suc_right
    by (rule take_snoc_take [OF Cons.prems(2)])
  then show ?case using c1(1,4-6) c'(1-4) Cons.prems(3) by (intro exI [of _ c']) simp
qed simp

text \<open>The request of a round whose torrent is not complete.\<close>

definition round_request :: "byte list \<Rightarrow> byte list \<Rightarrow> info_t \<Rightarrow> tracker_request_t" where
  "round_request peer_id info_hash info =
     SET_FLAG \<lparr>tq_flags = 0, tq_info_hash = info_hash, tq_peer_id = peer_id, tq_port = 6889, tq_uploaded = 0, tq_downloaded = 0,
       tq_left = (case info_mode info of INFO_SINGLE \<Rightarrow> info_length info | INFO_MULTI \<Rightarrow> multi_left info), tq_event = EVENT_STARTED\<rparr> COMPACT"

lemma main_announce_https_ok:
  assumes "heap_ok (cl_heap c)" and "\<not> sh_completed (mi_sh (cl_torrent c))" and "url_protocol (cl_url c) = PROTOCOL_HTTPS"
    and "https_announce tenv (cl_heap c) (cl_url c) (round_request peer_id (mi_info_hash (cl_torrent c)) (mi_info (cl_torrent c))) = Inr (Some res, req', h)"
  shows "main_announce peer_id tenv sk us c = Inr (tr_peers res, tr_num_peers res,
    c\<lparr>cl_started := True, cl_completed := False, cl_events := cl_events c @ [EVENT_STARTED], cl_heap := h, cl_interval := tr_interval res\<rparr>)"
proof -
  let ?r = "round_request peer_id (mi_info_hash (cl_torrent c)) (mi_info (cl_torrent c))"
  have b: "build_tracker_announce_request (cl_heap c) peer_id (cl_torrent c) = (Some ?r, cl_heap c)"
    using assms(1) by (simp add: build_tracker_announce_request_def round_request_def Let_def)
  have e: "?r\<lparr>tq_event := EVENT_STARTED\<rparr> = ?r" "tq_event ?r = EVENT_STARTED" by (simp_all add: round_request_def SET_FLAG_def)
  have "tracker_announce tenv (cl_heap c) sk us (cl_url c) ?r = Inr (Some res, req', h, 0)" using assms(3,4) by (simp add: tracker_announce_def)
  then show ?thesis using b e(2) assms(2) by (simp add: main_announce_def deref_def Let_def e(1))
qed

section \<open>A round is a run of the steps\<close>

lemma peers_round_run:
  "peers_round spawn (pr_peers p) (pr_todo p) (main_view p) = Inr c' \<Longrightarrow>
   \<exists>p'. client_run env p p' \<and> main_view p' = c' \<and> pr_todo p' = [] \<and> sw_conns (pr_swarm p') = sw_conns (pr_swarm p)"
proof (induction "pr_todo p" arbitrary: p)
  case Nil
  then show ?case by auto
next
  case (Cons i "is")
  have todo: "pr_todo p = i # is" using Cons.hyps(2) by simp
  obtain peer r c1 where s: "arr_get (pr_peers p) i = Inr peer" "create_peer_connection spawn (main_view p) peer = Inr (r, c1)"
    "peers_round spawn (pr_peers p) is c1 = Inr c'"
    using Cons.prems todo by (auto simp: c_bind_eq_Inr)
  let ?p1 = "(main_publish p c1)\<lparr>pr_todo := is\<rparr>"
  have step: "client_run env p ?p1" by (intro r_into_rtranclp client_step.connect [OF todo s(1,2)])
  have "peers_round spawn (pr_peers ?p1) (pr_todo ?p1) (main_view ?p1) = Inr c'" using s(3) by (simp add: main_publish_def main_view_def)
  then obtain p' where "client_run env ?p1 p'" "main_view p' = c'" "pr_todo p' = []" "sw_conns (pr_swarm p') = sw_conns (pr_swarm p)"
    using Cons.hyps(1) [of ?p1] by (auto simp: main_publish_def)
  then show ?case using rtranclp_trans [OF step] by blast
qed

section \<open>Properties\<close>

lemma launch_inv:
  assumes "main_start env os h argc content slack ch0 pp pv = Inr (Some c)"
  shows "process_inv (mi_info (cl_torrent c)) (launch c)"
  using main_start_cases [OF assms] sh_fresh_inv
  by (simp add: process_inv_def main_view_def launch_def torrent_inv_def)

text \<open>
  C1. The whole program. Whatever the torrent file contains and whatever trackers and peers send, in every state
  that the main loop and the connection threads reach together: the torrent's description is the one from
  the file, the shared state has its shape, \<open>pieces_left\<close> never exceeds the number of missing pieces and is
  zero once the torrent is completed, at most 50 connections are recorded, each of a thread that was started
  for this peer, and the tracker is told that the download is completed at most once, and not before it is.
\<close>
theorem client_keeps_invariant:
  assumes "main_start env os h argc content slack ch0 pp pv = Inr (Some c)" and "client_run tenv (launch c) p"
    and "info_num_pieces (mi_info (cl_torrent c)) < 2 ^ 32"
  shows "let torrent = sw_torrent (pr_swarm p); sh = mi_sh torrent; conns = da_values (sh_peer_connections sh) in
    mi_info torrent = mi_info (cl_torrent c) \<and> length (sh_piece_states sh) = info_num_pieces (mi_info torrent) \<and>
    sh_pieces_left sh \<le> missing sh \<and> (sh_completed sh \<longrightarrow> sh_pieces_left sh = 0) \<and>
    length conns \<le> 50 \<and> set (map (\<lambda>x. (conn_peer x, conn_thread x)) conns) \<subseteq> set (cl_spawned (pr_client p)) \<and>
    count_list (cl_events (pr_client p)) EVENT_COMPLETED \<le> (if sh_completed sh then 1 else 0)"
  using cl.run_inv [OF assms(2), of "mi_info (cl_torrent c)"] launch_inv [OF assms(1)] assms(3)
  by (auto simp: process_inv_def torrent_inv_def sh_inv_def client_inv_def main_view_def Let_def)

text \<open>
  The event of a round is \<open>completed\<close> exactly in the first round that finds the torrent completed, and
  \<open>started\<close> in every other, the later regular announces included.
\<close>
theorem main_announce_event:
  assumes "main_announce peer_id tenv sk us c = Inr (peers, n, c')"
  shows "cl_events c' = cl_events c @ [if \<not> cl_completed c \<and> sh_completed (mi_sh (cl_torrent c)) then EVENT_COMPLETED else EVENT_STARTED] \<and>
    cl_completed c' = sh_completed (mi_sh (cl_torrent c)) \<and> cl_torrent c' = cl_torrent c"
  using announce_cases [OF assms] by blast

text \<open>
  A round of the main loop takes steps of the transition system of main thread and connection threads, so
  the invariants of that system hold of it.
\<close>
lemma main_round_refines:
  assumes "pr_todo p = []" and "main_round spawn peer_id tenv sk us (main_view p) = Inr c'"
  shows "\<exists>p'. client_run env p p' \<and> main_view p' = c' \<and> pr_todo p' = [] \<and> sw_conns (pr_swarm p') = sw_conns (pr_swarm p)"
proof -
  obtain peers n c1 where a: "main_announce peer_id tenv sk us (main_view p) = Inr (peers, n, c1)"
    and r: "peers_round spawn peers [0..<n] c1 = Inr c'"
    using assms(2) by (auto simp: main_round_def c_bind_eq_Inr)
  let ?p1 = "(main_publish p c1)\<lparr>pr_peers := peers, pr_todo := [0..<n]\<rparr>"
  have step: "client_run env p ?p1" by (intro r_into_rtranclp client_step.announce [OF assms(1) a])
  obtain p' where "client_run env ?p1 p'" "main_view p' = c'" "pr_todo p' = []" "sw_conns (pr_swarm p') = sw_conns (pr_swarm p)"
    using peers_round_run [of spawn ?p1 c' env] r by (auto simp: main_publish_def main_view_def)
  then show ?thesis using rtranclp_trans [OF step] by blast
qed

text \<open>What a round adds to the events, and that it leaves the completion of the torrent to the threads.\<close>

lemma peers_round_frame:
  "peers_round spawn peers is c = Inr c' \<Longrightarrow>
   cl_events c' = cl_events c \<and> cl_completed c' = cl_completed c \<and> sh_completed (mi_sh (cl_torrent c')) = sh_completed (mi_sh (cl_torrent c))"
proof (induction "is" arbitrary: c)
  case (Cons i "is")
  then obtain p r c1 where "create_peer_connection spawn c p = Inr (r, c1)" "peers_round spawn peers is c1 = Inr c'"
    by (auto simp: c_bind_eq_Inr)
  then show ?case using Cons.IH by (auto elim!: create_cases)
qed simp

lemma main_round_events:
  assumes "main_round spawn peer_id tenv sk us c = Inr c'"
  shows "cl_events c' = cl_events c @ [if \<not> cl_completed c \<and> sh_completed (mi_sh (cl_torrent c)) then EVENT_COMPLETED else EVENT_STARTED]"
    and "cl_completed c' = sh_completed (mi_sh (cl_torrent c))" and "sh_completed (mi_sh (cl_torrent c')) = sh_completed (mi_sh (cl_torrent c))"
  using assms announce_cases peers_round_frame by (fastforce simp: main_round_def c_bind_eq_Inr)+

definition reported :: "client \<Rightarrow> bool" where
  "reported c \<longleftrightarrow> (cl_completed c \<longrightarrow> sh_completed (mi_sh (cl_torrent c))) \<and>
     (\<exists>k m. cl_events c = replicate k EVENT_STARTED @ (if cl_completed c then EVENT_COMPLETED # replicate m EVENT_STARTED else []))"

lemma reported_round:
  assumes "main_round spawn peer_id tenv sk us (c\<lparr>cl_torrent := t\<rparr>) = Inr c'" and "reported c"
    and "sh_completed (mi_sh (cl_torrent c)) \<longrightarrow> sh_completed (mi_sh t)"
  shows "reported c'"
proof -
  note r = main_round_events [OF assms(1)]
  obtain k m where e: "cl_events c = replicate k EVENT_STARTED @ (if cl_completed c then EVENT_COMPLETED # replicate m EVENT_STARTED else [])"
    using assms(2) by (auto simp: reported_def)
  have snoc: "replicate j EVENT_STARTED @ [EVENT_STARTED] = replicate (Suc j) EVENT_STARTED" for j
    by (simp add: replicate_append_same)
  consider "cl_completed c" | "\<not> cl_completed c" "sh_completed (mi_sh t)" | "\<not> cl_completed c" "\<not> sh_completed (mi_sh t)" by blast
  then show ?thesis
  proof cases
    case 1
    then have "sh_completed (mi_sh t)" using assms(2,3) by (simp add: reported_def)
    then have "cl_completed c'" "sh_completed (mi_sh (cl_torrent c'))"
      "cl_events c' = replicate k EVENT_STARTED @ EVENT_COMPLETED # replicate (Suc m) EVENT_STARTED" using 1 r e snoc [of m] by simp_all
    then show ?thesis unfolding reported_def by metis
  next
    case 2
    then have "cl_completed c'" "sh_completed (mi_sh (cl_torrent c'))"
      "cl_events c' = replicate k EVENT_STARTED @ EVENT_COMPLETED # replicate 0 EVENT_STARTED" using r e by simp_all
    then show ?thesis unfolding reported_def by metis
  next
    case 3
    then have "\<not> cl_completed c'" "cl_events c' = replicate (Suc k) EVENT_STARTED @ []" using r e snoc [of k] by simp_all
    then show ?thesis unfolding reported_def by metis
  qed
qed

lemma main_loop_reported:
  "main_loop peer_id ws c = Inr c' \<Longrightarrow> reported c \<Longrightarrow>
   \<forall>w \<in> set ws. \<forall>t. sh_completed (mi_sh t) \<longrightarrow> sh_completed (mi_sh (mw_threads w t)) \<Longrightarrow>
   reported c' \<and> length (cl_events c') = length (cl_events c) + length ws \<and> (ws \<noteq> [] \<longrightarrow> cl_completed c' = sh_completed (mi_sh (cl_torrent c')))"
proof (induction ws arbitrary: c)
  case (Cons w ws)
  then obtain c1 where c1: "main_round (mw_spawn w) peer_id (mw_tracker w) (mw_sock w) (mw_udp w) (c\<lparr>cl_torrent := mw_threads w (cl_torrent c)\<rparr>) = Inr c1"
    "main_loop peer_id ws c1 = Inr c'" by (auto simp: c_bind_eq_Inr)
  have "reported c1" using reported_round [OF c1(1) Cons.prems(2)] Cons.prems(3) by simp
  from Cons.IH [OF c1(2) this] Cons.prems(3) main_round_events [OF c1(1)] c1(2) show ?case by (cases ws) auto
qed simp

text \<open>
  C17. What the tracker is told. The main loop of a started program, whatever trackers answer and whatever the
  threads do in between as long as a completed torrent stays so, announces once per round: as \<open>started\<close> until
  the torrent is found completed, then once as \<open>completed\<close>, and from then on as \<open>started\<close> again.
\<close>
theorem main_loop_reports:
  assumes "main_start env os h argc content slack ch0 pp pv = Inr (Some c)" and "main_loop peer_id ws c = Inr c'"
    and "\<forall>w \<in> set ws. \<forall>t. sh_completed (mi_sh t) \<longrightarrow> sh_completed (mi_sh (mw_threads w t))"
  shows "length (cl_events c') = length ws \<and>
    (\<exists>k m. cl_events c' = replicate k EVENT_STARTED @ (if cl_completed c' then EVENT_COMPLETED # replicate m EVENT_STARTED else [])) \<and>
    (ws \<noteq> [] \<longrightarrow> cl_completed c' = sh_completed (mi_sh (cl_torrent c')))"
proof -
  have c: "cl_events c = []" "\<not> cl_completed c" using assms(1) by (auto simp: main_start_def c_bind_eq_Inr Let_def split: if_splits)
  then have "reported c" by (auto simp: reported_def)
  from main_loop_reported [OF assms(2) this assms(3)] c(1) show ?thesis by (simp add: reported_def)
qed

section \<open>Examples\<close>

lemma main_start_ok:
  assumes "parse_file env os h content slack ch0 pp pv = Inr (m, calls, h1)" and "mi_announce m = Some address"
    and "url_from_string h1 address = Inr (url, h2)" and "2 \<le> argc"
  shows "main_start env os h argc content slack ch0 pp pv =
    Inr (Some \<lparr>cl_torrent = m\<lparr>mi_max_peers := 50\<rparr>, cl_url = url, cl_started = False, cl_completed = False, cl_interval = 0,
               cl_spawned = [], cl_events = [], cl_heap = h2\<rparr>)"
  using assms by (simp add: main_start_def Let_def)

text \<open>A start from the example file, and a tracker that cannot be resolved.\<close>

lemma sample_main_start:
  obtains c where "main_start sample_bc_env sample_os calm_heap 2 (Some (enc (BDict sample_file_kvs))) [0] 0 no_token no_token = Inr (Some c)"
    "cl_heap c = calm_heap" "url_protocol (cl_url c) = PROTOCOL_HTTP" "info_num_pieces (mi_info (cl_torrent c)) = 1" "cl_events c = []" "\<not> cl_completed c"
    "\<not> sh_completed (mi_sh (cl_torrent c))"
proof -
  have t: "tk_type no_token \<notin> {COLON, INT_START, STRING_SIZE}" "tk_type no_token \<noteq> STRING_SIZE" by (simp_all add: no_token_def)
  obtain m calls where m: "parse_file sample_bc_env sample_os calm_heap (Some (enc (BDict sample_file_kvs))) [0] 0 no_token no_token = Inr (m, calls, calm_heap)"
    "mi_announce m = Some ''http://a.b/c''" "mi_info m = torrent_info 16384 [replicate 20 65] (c_lit ''f'') (Single 3)" "sh_fresh 1 (mi_sh m)"
    using parse_file_ok [OF sample_file_good sample_file_says heap_ok_calm_heap sample_bc_env_ok refl t, of "[]" 0] by auto
  have u: "url_from_string calm_heap ''http://a.b/c'' =
      Inr (\<lparr>url_protocol = PROTOCOL_HTTP, url_host = Some ''a.b'', url_port = 80, url_path = Some ''c''\<rparr>, calm_heap)"
    using url_from_string_ok [of "''a.b''" "''c''" "[]" None calm_heap PROTOCOL_HTTP] by (simp add: url_part_def url_text_def)
  have "info_num_pieces (mi_info m) = 1" unfolding m(3) by (simp add: torrent_info_def layout_info_def)
  then show thesis using that [OF main_start_ok [OF m(1,2) u]] m(4) by (simp add: sh_fresh_def)
qed

definition silent_env :: tracker_env where
  "silent_env = sample_tracker_env\<lparr>te_resolve := \<lambda>_ _ _. None\<rparr>"

lemma silent_announce:
  assumes "url_protocol (cl_url c) = PROTOCOL_HTTP" and "heap_ok (cl_heap c)"
  obtains c' where "main_announce peer_id silent_env sk us c = Inr ([], 0, c')" "cl_interval c' = TRACKER_RETRY_INTERVAL"
    "cl_url c' = cl_url c" "cl_heap c' = cl_heap c"
proof -
  have "tracker_connect silent_env (cl_url c) = Inr False" by (simp add: tracker_connect_eq silent_env_def)
  then show thesis using assms that by (auto simp: main_announce_def tracker_announce_def build_tracker_announce_request_def Let_def deref_def)
qed

theorem client_keeps_invariant_witness:
  "\<exists>c p. main_start sample_bc_env sample_os calm_heap 2 (Some (enc (BDict sample_file_kvs))) [0] 0 no_token no_token = Inr (Some c) \<and>
    client_run (sample_env False) (launch c) p \<and> cl_events (pr_client p) = [EVENT_STARTED] \<and>
    length (sh_piece_states (mi_sh (sw_torrent (pr_swarm p)))) = 1"
proof -
  obtain c where c: "main_start sample_bc_env sample_os calm_heap 2 (Some (enc (BDict sample_file_kvs))) [0] 0 no_token no_token = Inr (Some c)"
    "cl_heap c = calm_heap" "url_protocol (cl_url c) = PROTOCOL_HTTP" "info_num_pieces (mi_info (cl_torrent c)) = 1" "cl_events c = []" "\<not> cl_completed c"
    "\<not> sh_completed (mi_sh (cl_torrent c))"
    by (rule sample_main_start)
  have v: "main_view (launch c) = c" by (simp add: main_view_def launch_def)
  obtain c' where c': "main_announce [] silent_env sk us (main_view (launch c)) = Inr ([], 0, c')"
    using silent_announce [of c "[]" sk us] c(2,3) v by auto
  let ?p = "(main_publish (launch c) c')\<lparr>pr_peers := [], pr_todo := [0..<0]\<rparr>"
  have run: "client_run (sample_env False) (launch c) ?p"
    using c' by (intro r_into_rtranclp client_step.announce) (simp_all add: launch_def)
  have "cl_events (pr_client ?p) = [EVENT_STARTED]" using announce_cases [OF c'] c(5,7) v by (simp add: main_publish_def)
  moreover have "mi_info (sw_torrent (pr_swarm ?p)) = mi_info (cl_torrent c)" "length (sh_piece_states (mi_sh (sw_torrent (pr_swarm ?p)))) = 1"
    using client_keeps_invariant [OF c(1) run] c(4) by (simp_all add: Let_def)
  ultimately show ?thesis using c(1) run by blast
qed

theorem main_announce_event_witness:
  "\<exists>c c' sk us. main_announce [] silent_env sk us c = Inr ([], 0, c') \<and> cl_events c' = cl_events c @ [EVENT_STARTED]"
proof -
  obtain c :: client where c: "cl_heap c = calm_heap" "url_protocol (cl_url c) = PROTOCOL_HTTP" "\<not> sh_completed (mi_sh (cl_torrent c))"
    using sample_main_start by blast
  obtain c' where c': "main_announce [] silent_env sk us c = Inr ([], 0, c')" using silent_announce [of c "[]" sk us] c(1,2) by auto
  from main_announce_event [OF this] c(3) c' show ?thesis by auto
qed

text \<open>The example is two rounds with a tracker that is not found, between which the threads complete the torrent.\<close>

definition completing :: "metainfo_t \<Rightarrow> metainfo_t" where
  "completing t = t\<lparr>mi_sh := mark_complete (mi_sh t)\<rparr>"

theorem main_loop_reports_witness:
  "\<exists>c c' sk us. main_start sample_bc_env sample_os calm_heap 2 (Some (enc (BDict sample_file_kvs))) [0] 0 no_token no_token = Inr (Some c) \<and>
    main_loop [] [\<lparr>mw_threads = id, mw_spawn = \<lambda>_. None, mw_tracker = silent_env, mw_sock = sk, mw_udp = us\<rparr>,
       \<lparr>mw_threads = completing, mw_spawn = \<lambda>_. None, mw_tracker = silent_env, mw_sock = sk, mw_udp = us\<rparr>] c = Inr c' \<and>
    length (cl_events c') = 2 \<and> cl_completed c'"
proof -
  obtain c where c: "main_start sample_bc_env sample_os calm_heap 2 (Some (enc (BDict sample_file_kvs))) [0] 0 no_token no_token = Inr (Some c)"
    "cl_heap c = calm_heap" "url_protocol (cl_url c) = PROTOCOL_HTTP"
    by (rule sample_main_start)
  fix sk us
  let ?ws = "[\<lparr>mw_threads = id, mw_spawn = \<lambda>_. None, mw_tracker = silent_env, mw_sock = sk, mw_udp = us\<rparr>,
       \<lparr>mw_threads = completing, mw_spawn = \<lambda>_. None, mw_tracker = silent_env, mw_sock = sk, mw_udp = us\<rparr>]"
  obtain c1 where c1: "main_announce [] silent_env sk us c = Inr ([], 0, c1)" "cl_url c1 = cl_url c" "cl_heap c1 = cl_heap c"
    using silent_announce [of c "[]" sk us] c(2,3) by auto
  let ?c1 = "c1\<lparr>cl_torrent := completing (cl_torrent c1)\<rparr>"
  obtain c2 where c2: "main_announce [] silent_env sk us ?c1 = Inr ([], 0, c2)"
    using silent_announce [of ?c1 "[]" sk us] c(2,3) c1(2,3) by auto
  have run: "main_loop [] ?ws c = Inr c2" using c1(1) c2 by (simp add: main_round_def)
  have "\<forall>w \<in> set ?ws. \<forall>t. sh_completed (mi_sh t) \<longrightarrow> sh_completed (mi_sh (mw_threads w t))"
    by (simp add: completing_def mark_complete_def)
  from main_loop_reports [OF c(1) run this] have "length (cl_events c2) = 2" "cl_completed c2 = sh_completed (mi_sh (cl_torrent c2))" by simp_all
  moreover have "sh_completed (mi_sh (cl_torrent c2))" using announce_cases [OF c2] by (simp add: completing_def mark_complete_def)
  ultimately show ?thesis using c(1) run by (intro exI [of _ c] exI [of _ c2] exI [of _ sk] exI [of _ us]) simp
qed

end
