(* ===== verification/Log.thy ===== *)
theory Log
  imports C_String
begin

text \<open>
  \<open>src/log/log.c\<close>: the level, the log file and \<open>log_printf\<close>. The file is the text written to it so far,
  \<open>None\<close> before \<open>log_set_logfile\<close>; the message is the text that \<open>vfprintf\<close> makes of format and arguments.
\<close>

datatype log_level_t = LOG_DEBUG | LOG_INFO | LOG_WARNING | LOG_ERROR | LOG_NONE

primrec level_code :: "log_level_t \<Rightarrow> nat" where
  "level_code LOG_DEBUG = 0"
| "level_code LOG_INFO = 1"
| "level_code LOG_WARNING = 2"
| "level_code LOG_ERROR = 3"
| "level_code LOG_NONE = 4"

text \<open>The levels are compared as numbers: a linear order.\<close>

instantiation log_level_t :: linorder
begin

definition less_eq_log_level_t :: "log_level_t \<Rightarrow> log_level_t \<Rightarrow> bool" where
  "a \<le> b \<longleftrightarrow> level_code a \<le> level_code b"

definition less_log_level_t :: "log_level_t \<Rightarrow> log_level_t \<Rightarrow> bool" where
  "a < b \<longleftrightarrow> level_code a < level_code b"

instance
proof
  fix a b :: log_level_t
  show "a = b" if "a \<le> b" and "b \<le> a"
    using that by (cases a; cases b) (simp_all add: less_eq_log_level_t_def)
qed (auto simp: less_eq_log_level_t_def less_log_level_t_def)

end

record log_state =
  lg_level :: log_level_t
  lg_file :: "string option"

definition log_init :: log_state where
  "log_init = \<lparr>lg_level = LOG_INFO, lg_file = None\<rparr>"

definition log_set_lvl :: "log_level_t \<Rightarrow> log_state \<Rightarrow> log_state" where
  "log_set_lvl lvl s = s\<lparr>lg_level := lvl\<rparr>"

definition log_set_logfile :: "string option \<Rightarrow> log_state \<Rightarrow> log_state" where
  "log_set_logfile f s = s\<lparr>lg_file := f\<rparr>"

primrec print_level :: "log_level_t \<Rightarrow> string" where
  "print_level LOG_DEBUG = ''LOG_DEBUG''"
| "print_level LOG_INFO = ''LOG_INFO''"
| "print_level LOG_WARNING = ''LOG_WARNING''"
| "print_level LOG_ERROR = ''LOG_ERROR''"
| "print_level LOG_NONE = ''LOG_NONE''"

text \<open>\<open>%05ld\<close>\<close>

definition pad5 :: "nat \<Rightarrow> string" where
  "pad5 n = replicate (5 - length (dec_str n)) CHR ''0'' @ dec_str n"

definition log_printf :: "log_level_t \<Rightarrow> string \<Rightarrow> nat \<Rightarrow> string \<Rightarrow> log_state \<Rightarrow> log_state c_result" where
  "log_printf lvl timestr tid msg s =
     (if lvl < lg_level s then Inr s
      else case lg_file s of
        None \<Rightarrow> Inl Null_Deref
      | Some f \<Rightarrow>
          Inr (s\<lparr>lg_file := Some (f @ ''['' @ drop 4 (print_level lvl) @ ''] - ['' @ take 8 timestr @ ''] ['' @ pad5 tid @ ''] '' @ msg)\<rparr>))"

text \<open>
  A log line is written exactly when its level is at least the level that is set, behind everything
  written before, with the level's name without its prefix; other lines change nothing.
\<close>
theorem log_printf_filters:
  assumes "lg_file s = Some f"
  shows "\<exists>line. log_printf lvl timestr tid msg s = Inr (s\<lparr>lg_file := Some (if lg_level s \<le> lvl then f @ line @ msg else f)\<rparr>) \<and>
    take (Suc (length (drop 4 (print_level lvl)))) line = ''['' @ drop 4 (print_level lvl)"
  using assms
  by (intro exI [of _ "''['' @ drop 4 (print_level lvl) @ ''] - ['' @ take 8 timestr @ ''] ['' @ pad5 tid @ ''] ''"])
     (auto simp: log_printf_def not_less)

text \<open>Raising the level drops lines and adds none: what is written at a level is also written at every lower level.\<close>

lemma log_level_antimono:
  assumes "log_printf lvl timestr tid msg (log_set_lvl hi s) = Inr s1" and "lo \<le> hi" and "lg_file s1 \<noteq> lg_file s"
  shows "\<exists>s2. log_printf lvl timestr tid msg (log_set_lvl lo s) = Inr s2 \<and> lg_file s2 = lg_file s1"
  using assms by (auto simp: log_printf_def log_set_lvl_def not_less split: if_splits option.splits)

theorem log_printf_filters_witness:
  "\<exists>line. log_printf LOG_INFO ''12:00:00'' 7 ''hi'' \<lparr>lg_level = LOG_DEBUG, lg_file = Some []\<rparr> =
      Inr \<lparr>lg_level = LOG_DEBUG, lg_file = Some (line @ ''hi'')\<rparr>"
  using log_printf_filters [of "\<lparr>lg_level = LOG_DEBUG, lg_file = Some []\<rparr>" "[]" LOG_INFO "''12:00:00''" 7 "''hi''"]
  by (auto simp: less_eq_log_level_t_def)

end
