(* ===== verification/Peer_Id.thy ===== *)
theory Peer_Id
  imports Prelude
begin

text \<open>
  \<open>src/peer-id/peer-id.c\<close>: the random peer id, the SHA-1 (OpenSSL's, an argument) of a buffer with the
  process id and random bytes. \<open>junk\<close> is the uninitialised buffer of 100 bytes, \<open>rnd i\<close> the byte stored at
  position \<open>i\<close>.
\<close>

definition PEER_ID_BUF :: nat where "PEER_ID_BUF = 100"

text \<open>The loop \<open>for (i = sizeof (int) + 1; i <= sizeof (buf); i++)\<close>.\<close>

fun random_loop :: "(nat \<Rightarrow> byte) \<Rightarrow> nat list \<Rightarrow> byte list \<Rightarrow> byte list c_result" where
  "random_loop rnd [] buf = Inr buf"
| "random_loop rnd (i # is) buf = c_bind (arr_set buf i (rnd i)) (random_loop rnd is)"

definition create_peer_id :: "(byte list \<Rightarrow> byte list) \<Rightarrow> (nat \<Rightarrow> byte) \<Rightarrow> u32 \<Rightarrow> byte list \<Rightarrow> byte list c_result" where
  "create_peer_id sha1 rnd pid junk =
     c_bind (mem_write junk 0 (u32_mem pid)) (\<lambda>buf1.
     c_bind (arr_set buf1 0 (ucast pid)) (\<lambda>buf2.
     c_bind (random_loop rnd [5..<PEER_ID_BUF + 1] buf2) (\<lambda>buf3.
     c_bind (mem_write buf3 0 (sha1 (take 100 buf3))) (\<lambda>buf4. mem_read buf4 0 20))))"

lemma random_loop_ok: "\<forall>i \<in> set is. i < length buf \<Longrightarrow> \<exists>buf'. random_loop rnd is buf = Inr buf' \<and> length buf' = length buf"
proof (induction "is" arbitrary: buf)
  case (Cons i "is")
  then show ?case using Cons.IH [of "buf[i := rnd i]"] by simp
qed simp

lemma random_loop_append: "random_loop rnd (is @ js) buf = c_bind (random_loop rnd is buf) (random_loop rnd js)"
  by (induction "is" arbitrary: buf) (auto simp: c_bind_def split: sum.split)

text \<open>
  The loop over the buffer runs one step too far: in every run \<open>create_peer_id\<close> writes the byte behind its
  buffer of 100 bytes.
\<close>
theorem create_peer_id_overruns:
  assumes "length junk = PEER_ID_BUF"
  shows "create_peer_id sha1 rnd pid junk = Inl Out_Of_Bounds"
proof -
  have l: "length junk = 100" using assms by (simp add: PEER_ID_BUF_def)
  obtain b1 where b1: "mem_write junk 0 (u32_mem pid) = Inr b1" "length b1 = 100" using l by (auto simp: mem_write_def)
  have b2: "arr_set b1 0 (ucast pid) = Inr (b1[0 := ucast pid])" using b1(2) by simp
  obtain b3 where b3: "random_loop rnd [5..<100] (b1[0 := ucast pid]) = Inr b3" "length b3 = 100"
    using random_loop_ok [of "[5..<100]" "b1[0 := ucast pid]" rnd] b1(2) by auto
  have "[5..<PEER_ID_BUF + 1] = [5..<100] @ [100]" by (simp add: PEER_ID_BUF_def upt_conv_Cons del: upt_Suc)
  then have "random_loop rnd [5..<PEER_ID_BUF + 1] (b1[0 := ucast pid]) = Inl Out_Of_Bounds"
    using b3 by (simp only: random_loop_append) simp
  then show ?thesis using b1(1) b2 by (simp add: create_peer_id_def)
qed

theorem create_peer_id_overruns_witness:
  "create_peer_id (\<lambda>_. replicate 20 0) (\<lambda>_. 1) 42 (replicate 100 0) = Inl Out_Of_Bounds"
  by (rule create_peer_id_overruns) (simp add: PEER_ID_BUF_def)

end
