(* ===== verification/Spec2Isabelle.thy ===== *)
theory Spec2Isabelle
  imports Dyn_Array Bitfield Ring_Queue Hash_Table Critical_Sections Connection_Pair Connection_Memory Client Log Peer_Id
begin

text \<open>
  \<^bold>\<open>A verification library for the BitTorrent client \<open>btclient\<close>\<close> (C sources under \<open>src/src/\<close>).

  \<^bold>\<open>The program.\<close> \<open>main.c\<close> reads a torrent file, announces the torrent to its tracker in a loop and starts one
  thread per peer of the answer. A connection thread exchanges handshakes and messages with its peer,
  requests pieces block by block, stores the blocks in memory-mapped files, verifies a finished piece by its
  SHA-1 and keeps the shared state of the torrent, which all threads change under one lock. When the last
  piece is verified the files get their final names.

  \<^bold>\<open>The model.\<close> Every C function is a definition on explicit state. Results have the type \<open>c_result\<close> of
  \<open>Prelude\<close>: \<open>Inl\<close> is an error that the C code does not survive or notice (out of bounds, NULL, use after
  free, a failed assertion, \<open>exit\<close>), \<open>Inr\<close> a return. Memory blocks are byte lists read and written with bounds
  checks; \<open>c_heap\<close> says which allocations succeed and what fresh memory contains; fixed-width integers are
  words, \<open>size_t\<close> is \<open>nat\<close> with the wrap-around written out (\<open>size_sub\<close>, \<open>size_mul\<close>). Sockets are records of the
  bytes that will arrive, how the calls cut them and what was sent. What the code takes from outside (OpenSSL's
  SHA-1, libcurl, \<open>getaddrinfo\<close>, \<open>rand_r\<close>, the clock, the file system's answers) are arguments.

  \<^bold>\<open>Theories and sources.\<close>
  \<^item> \<open>Prelude\<close>: results, memory, allocation, byte order; \<open>Dyn_Array\<close>: \<open>da_init\<close>, \<open>da_append\<close> of \<open>deps/stb_bencode.h\<close>.
  \<^item> \<open>Bitfield\<close> (\<open>bitfield/\<close>), \<open>Ring_Queue\<close> (\<open>queue/\<close>), \<open>Hash_Table\<close> (\<open>deps/stb_hashtable.h\<close>): the containers, as
    refinements of sets of indices, FIFO lists and maps.
  \<^item> \<open>Metainfo\<close> (\<open>file-parser/file-parser.h\<close>), \<open>Piece_Request\<close> (\<open>piece-request/\<close>), \<open>Dl_File\<close> (\<open>dl-file/\<close>), \<open>Sha1\<close>
    (\<open>sha1/\<close>): the torrent, the cutting of pieces into blocks and file ranges, the files, the verification.
  \<^item> \<open>Net_Stream\<close>, \<open>Peer_Msg\<close> (\<open>peer-msg/\<close>, \<open>byte-str/\<close>): exact reading and writing of streams, handshake and messages.
  \<^item> \<open>Peer_Connection\<close> (\<open>peer-connection/\<close>): all functions of the connection thread; \<open>Connection_Requests\<close>,
    \<open>Connection_Messages\<close>, \<open>Connection_Start\<close>, \<open>Piece_Completion\<close>: what they do; \<open>Connection_Loop\<close>: the thread from its
    first call to its end; \<open>Connection_Pair\<close>: two instances of the program that meet;
    \<open>Connection_Memory\<close>: which blocks of the connection's state are freed, and which leak.
  \<^item> \<open>Critical_Sections\<close>: the code's critical sections in any order, and the bookkeeping of the download they keep.
  \<^item> \<open>Swarm_State\<close>: the critical sections as events of a transition system; \<open>Swarm_System\<close>: every function of the
    thread changes the shared state by such events only; \<open>Swarm_Reach\<close>: all threads together, interleaved between
    the parts of a round and between single messages, their reachable states, that a round is a run of these
    steps, and that the loop over received messages ends.
  \<^item> \<open>Bencode\<close> (\<open>deps/stb_bencode.h\<close>), \<open>Bencode_Lex\<close>, \<open>Bencode_Parse\<close>, \<open>Bencode_Roundtrip\<close>: lexer and parser, and that
    they invert the encoding; \<open>Bencode_Fuel\<close>: that they end on every input.
  \<^item> \<open>C_String\<close> (string functions of the C library), \<open>File_Parser\<close>, \<open>Torrent_File\<close> (\<open>file-parser/file-parser.c\<close>),
    \<open>Url\<close> (\<open>url/\<close>): from the file to the torrent and the tracker's address.
  \<^item> \<open>Tracker\<close>, \<open>Tracker_Udp\<close>, \<open>Udp_Announce\<close>, \<open>Tracker_Http\<close>, \<open>Http_Announce\<close>, \<open>Tracker_Announce\<close> (\<open>tracker/\<close>): requests,
    answers and the three transports.
  \<^item> \<open>Client\<close> (\<open>main.c\<close>): start-up, the main loop and the system of main thread and connection threads; \<open>Peer_Id\<close>
    (\<open>peer-id/\<close>), \<open>Log\<close> (\<open>log/\<close>).

  \<^bold>\<open>What is shown.\<close> Functional correctness of each operation on the inputs it is meant for, with the
  exact bytes sent and stored; safety on arbitrary input where the code has it, with the exceptions named; the
  invariant of the torrent's shared state in every reachable state of the whole program; termination of every
  loop of the code that ends; and, as theorems too, the places where the code does not do what it means to.
  The last section composes the parts, from the text of a torrent file to the threads of the first round.

  \<^bold>\<open>Interfaces.\<close> The locales \<open>bit_store\<close> (\<open>Bitfield\<close>), \<open>fifo\<close> (\<open>Ring_Queue\<close>), \<open>assoc_table\<close> (\<open>Hash_Table\<close>),
  \<open>stream_reader\<close> and \<open>stream_writer\<close> (\<open>Net_Stream\<close>) state what the clients of a component rely on; each is
  interpreted on the model's definitions in the theory that provides them, and the lemmas about bitfields,
  histories of queue operations, parsed dictionaries and messages rest on its facts. \<open>step_system\<close> (\<open>Prelude\<close>) is the
  contract of the two systems of threads, in \<open>Swarm_Reach\<close> and in \<open>Client\<close>.

  \<^bold>\<open>Fuel and bounds.\<close> The parser has fuel by the number of bytes left in memory; \<open>parse_item_terminates\<close>
  shows that it never runs out. \<open>process_queued_messages\<close> has one unit per pending byte, of which every message
  takes at least four. All other loops are total functions.

  \<^bold>\<open>Where the model stops.\<close> Reading a union through a member it does not hold and passing NULL for a string to
  \<open>snprintf\<close>, which a C library may survive, end the model with an error. A run of the UDP announce has finitely
  many failing \<open>send\<close> calls. The blocks of a requested piece are looked up in memory that \<open>send_requests\<close> has freed;
  the theorems of \<open>Piece_Completion\<close> start behind this look-up, at the point where no block is outstanding.

  \<^bold>\<open>Not modelled.\<close> The functions \<open>free_url\<close>, \<open>tracker_request_free\<close>, \<open>byte_str_free\<close>, \<open>dl_file_close_and_free\<close> and
  \<open>free_lexer\<close>, which only free memory, \<open>print_ip\<close>, which only prints, and the calls of \<open>log_printf\<close>. There is no general heap
  of live blocks: \<open>Connection_Memory\<close> follows those of a connection's state, and where a freed block is used again
  (\<open>Connection_Requests\<close>) this is modelled as such. A step of a connection thread in \<open>Swarm_Reach\<close> is the top of a round,
  the have events, one message or the work at its end; inside them the code holds the lock only in the
  critical sections, and those are interleaved one by one in \<open>Swarm_State\<close> and \<open>Critical_Sections\<close>. Cancellation of threads, which the
  code prepares for and never requests, has no counterpart.
\<close>

section \<open>From the torrent file to the first connections\<close>

text \<open>
  What the environment has to provide for an announce over HTTPS: libcurl works, escapes the two ids and
  answers the request with one chunk that holds the dictionary \<open>rkvs\<close>.
\<close>

definition https_answers ::
  "tracker_env \<Rightarrow> string \<Rightarrow> u16 \<Rightarrow> string \<Rightarrow> tracker_request_t \<Rightarrow> (byte list \<times> bvalue) list \<Rightarrow> bool" where
  "https_answers tenv host port path req rkvs \<longleftrightarrow>
     te_curl_init tenv \<and> length (enc (BDict rkvs)) < 4096 \<and> good (BDict rkvs) \<and>
     (\<exists>eh ei. te_escape tenv (tq_info_hash req) = Some eh \<and> te_escape tenv (tq_peer_id req) = Some ei \<and>
        CHR 0x00 \<notin> set eh \<and> CHR 0x00 \<notin> set ei \<and> length (https_text host port path (url_query eh ei req)) < 1024 \<and>
        te_curl tenv (https_text host port path (url_query eh ei req)) = ([enc (BDict rkvs)], True))"

lemma first_round_ok:
  assumes "heap_ok (cl_heap c)" and "\<not> sh_completed (mi_sh (cl_torrent c))" and "mi_max_peers (cl_torrent c) = 50"
    and "cl_conns c = []" and "cl_spawned c = []" and "cl_events c = []" and "calm (te_bc tenv) (cl_heap c)"
    and "cl_url c = \<lparr>url_protocol = PROTOCOL_HTTPS, url_host = Some host, url_port = port, url_path = Some path\<rparr>"
    and "CHR 0x00 \<notin> set host" and "CHR 0x00 \<notin> set path"
    and "https_answers tenv host port path (round_request peer_id (mi_info_hash (cl_torrent c)) (mi_info (cl_torrent c))) rkvs"
    and "response_says (map_of rkvs) i k n ps"
  shows "\<exists>c'. main_round (\<lambda>j. Some (thr j)) peer_id tenv sk us c = Inr c' \<and> cl_spawned c' = started thr 0 ps \<and>
    cl_conns c' = take 50 (map connection_of (started thr 0 ps)) \<and> cl_interval c' = i \<and> cl_events c' = [EVENT_STARTED]"
proof -
  let ?r = "round_request peer_id (mi_info_hash (cl_torrent c)) (mi_info (cl_torrent c))"
  let ?res = "te_res0 tenv\<lparr>tr_interval := i, tr_complete := k, tr_incomplete := n, tr_num_peers := length ps, tr_peers := ps\<rparr>"
  let ?c1 = "c\<lparr>cl_started := True, cl_completed := False, cl_events := [EVENT_STARTED], cl_interval := i\<rparr>"
  have "https_announce tenv (cl_heap c) (cl_url c) ?r = Inr (Some ?res, ?r\<lparr>tq_flags := tq_flags ?r AND COMPACT\<rparr>, cl_heap c)"
    using assms(11) unfolding https_answers_def
    by (elim conjE exE, intro https_announce_ok [OF _ _ _ assms(10,9) _ _ _ _ _ _ _ _ assms(7,12)]) (simp_all add: assms(8) del: enc.simps)
  from main_announce_https_ok [OF assms(1,2) _ this, of sk us] assms(6,8)
  have a: "main_announce peer_id tenv sk us c = Inr (ps, length ps, ?c1)" by simp
  have "\<forall>j \<in> set [0..<length ps]. j < length ps" by simp
  from peers_round_ok [OF refl this, of ?c1 thr] assms(1,3-5)
  obtain c' where "peers_round (\<lambda>j. Some (thr j)) ps [0..<length ps] ?c1 = Inr c'" "cl_interval c' = i" "cl_events c' = [EVENT_STARTED]"
    "cl_spawned c' = started thr 0 ps" "cl_conns c' = take 50 (map connection_of (started thr 0 ps))"
    by (auto simp: map_nth)
  then show ?thesis using a by (simp add: main_round_def)
qed


text \<open>
  C2. From the torrent file to the first connections. Started on the text of a torrent whose tracker is reached
  over HTTPS, and answered by that tracker with the peers \<open>ps\<close>, the program reads the torrent, takes the
  address apart, announces the torrent under its info hash as started and starts one thread per peer, in
  the tracker's order; it records the first 50 of them and will announce again after the tracker's interval.
\<close>
theorem download_starts:
  assumes "good (BDict kvs)" and "map_of kvs (c_lit ''info'') = Some (BDict ikvs)" and "info_says (map_of ikvs) pl hs name l"
    and "trackers_say (map_of kvs) (Some (c_lit (url_text PROTOCOL_HTTPS host port (path @ rest)))) ts"
    and "url_part host" and "url_part path" and "rest = [] \<or> hd rest \<in> set '':/''" and "\<forall>p \<in> set_option port. p < 2 ^ 16"
    and "CHR 0x00 \<notin> set host" and "CHR 0x00 \<notin> set path"
    and "os_fine os" and "\<forall>p \<in> set (layout_paths (c_str name) l). length p + 12 \<le> 512"
    and "heap_ok h" and "be_gap env = 0 # g" and "\<forall>bs. length (be_sha1 env bs) = 20" and "slack = 0 # r"
    and "tk_type pv \<notin> {COLON, INT_START, STRING_SIZE}" and "tk_type pp \<noteq> STRING_SIZE" and "2 \<le> argc"
    and "calm (te_bc tenv) h" and "response_says (map_of rkvs) i k n ps"
    and "https_answers tenv host (case port of None \<Rightarrow> 443 | Some p \<Rightarrow> of_nat p) path
      (round_request peer_id (be_sha1 env (enc (BDict ikvs))) (torrent_info pl hs name l)) rkvs"
  shows "\<exists>c c'. main_start env os h argc (Some (enc (BDict kvs))) slack ch0 pp pv = Inr (Some c) \<and>
    main_round (\<lambda>j. Some (thr j)) peer_id tenv sk us c = Inr c' \<and> cl_spawned c' = started thr 0 ps \<and>
    cl_conns c' = take 50 (map connection_of (started thr 0 ps)) \<and> cl_interval c' = i \<and> cl_events c' = [EVENT_STARTED]"
proof -
  obtain m calls where m: "parse_file env os h (Some (enc (BDict kvs))) slack ch0 pp pv = Inr (m, calls, h)"
    "mi_announce m = Some (url_text PROTOCOL_HTTPS host port (path @ rest))" "mi_info m = torrent_info pl hs name l"
    "mi_info_hash m = be_sha1 env (enc (BDict ikvs))" "sh_fresh (length hs) (mi_sh m)"
    using parse_file_ok [OF assms(1,4,2,3,11-18), of ch0] by auto
  note start = main_start_ok [OF m(1,2) url_from_string_ok [OF assms(5-8,13)] assms(19)]
  let ?c = "\<lparr>cl_torrent = m\<lparr>mi_max_peers := 50\<rparr>, cl_url = \<lparr>url_protocol = PROTOCOL_HTTPS, url_host = Some host,
      url_port = (case port of None \<Rightarrow> default_port PROTOCOL_HTTPS | Some p \<Rightarrow> of_nat p), url_path = Some path\<rparr>,
      cl_started = False, cl_completed = False, cl_interval = 0, cl_spawned = [], cl_events = [], cl_heap = h\<rparr>"
  have "cl_conns ?c = []" using parse_file_shape [OF m(1)] by simp
  then have "\<exists>c'. main_round (\<lambda>j. Some (thr j)) peer_id tenv sk us ?c = Inr c' \<and> cl_spawned c' = started thr 0 ps \<and>
    cl_conns c' = take 50 (map connection_of (started thr 0 ps)) \<and> cl_interval c' = i \<and> cl_events c' = [EVENT_STARTED]"
    using assms(13,20,22) m(3-5) by (intro first_round_ok [OF _ _ _ _ _ _ _ _ assms(9,10) _ assms(21)]) (simp_all add: sh_fresh_def split: option.split)
  then show ?thesis using start by blast
qed


definition sample_https_kvs :: "(byte list \<times> bvalue) list" where
  "sample_https_kvs = [(c_lit ''announce'', BStr (c_lit (url_text PROTOCOL_HTTPS ''a.b'' None (''c'' @ [])))), (c_lit ''info'', BDict sample_info_kvs)]"

lemma sample_https_good: "good (BDict sample_https_kvs)"
proof -
  have "20 \<le> length (enc (BDict sample_info_kvs))" by (simp add: sample_info_kvs_def dec.simps c_lit_def)
  then have "20 \<le> length (enc (BDict sample_info_kvs))" and i: "good (BDict sample_info_kvs)"
    by (simp_all add: sample_info_kvs_def good_str_def c_lit_def info_key_def)
  then show ?thesis by (simp add: sample_https_kvs_def good_str_def c_lit_def info_key_def url_text_def)
qed

lemma sample_https_says:
  "map_of sample_https_kvs (c_lit ''info'') = Some (BDict sample_info_kvs)"
  "info_says (map_of sample_info_kvs) 16384 [replicate 20 65] (c_lit ''f'') (Single 3)"
  "trackers_say (map_of sample_https_kvs) (Some (c_lit (url_text PROTOCOL_HTTPS ''a.b'' None (''c'' @ [])))) None"
  "url_part ''a.b''" "url_part ''c''" "[] = [] \<or> hd [] \<in> set '':/''" "\<forall>p \<in> set_option None. p < 2 ^ 16"
  "CHR 0x00 \<notin> set ''a.b''" "CHR 0x00 \<notin> set ''c''"
  by (simp_all add: sample_https_kvs_def sample_info_kvs_def trackers_say_def info_says_def c_lit_def url_part_def url_text_def)

lemma sample_https_answers:
  "https_answers sample_tracker_env ''a.b'' (case None of None \<Rightarrow> 443 | Some p \<Rightarrow> of_nat p) ''c''
     (round_request (replicate 20 2) hash (torrent_info 16384 [replicate 20 65] (c_lit ''f'') (Single 3))) sample_response_kvs"
proof -
  have "length (https_text ''a.b'' 443 ''c'' (url_query ''x'' ''x'' (round_request (replicate 20 2) hash (torrent_info 16384 [replicate 20 65] (c_lit ''f'') (Single 3))))) < 1024"
    by (simp add: https_text_def url_query_def query_texts_def flag_texts_def round_request_def SET_FLAG_def torrent_info_def layout_info_def dec_str_def dec.simps)
  then show ?thesis using sample_https_lengths(2) sample_response_ok(1) by (simp add: https_answers_def sample_tracker_env_def del: enc.simps good.simps)
qed

theorem download_starts_witness:
  "\<exists>c c' sk us. main_start sample_bc_env sample_os calm_heap 2 (Some (enc (BDict sample_https_kvs))) [0] 0 no_token no_token = Inr (Some c) \<and>
    main_round (\<lambda>j. Some (id j)) (replicate 20 2) sample_tracker_env sk us c = Inr c' \<and> cl_spawned c' = [(sample_peer, 0)] \<and>
    length (cl_conns c') = 1 \<and> cl_interval c' = 1800"
proof -
  have t: "tk_type no_token \<notin> {COLON, INT_START, STRING_SIZE}" "tk_type no_token \<noteq> STRING_SIZE" by (simp_all add: no_token_def)
  have calm: "calm (te_bc sample_tracker_env) calm_heap" using sample_bc_env_ok by (auto simp: calm_def sample_tracker_env_def)
  from download_starts [OF sample_https_good sample_https_says sample_file_says(4,5) heap_ok_calm_heap sample_bc_env_ok refl t le_refl calm
      sample_response_ok(2) sample_https_answers, of "[]" 0 id] show ?thesis
    by (fastforce simp del: enc.simps)
qed

end
